(* ===== verification/Prelude.thy ===== *)
theory Prelude
  imports Main "HOL-Library.Word"
begin

text \<open>
  Shared vocabulary of the development: the machine integer types of the C++ sources, the ways a
  run of the simulator can stop abnormally, byte-level little-endian access to a byte store, and
  the generic facts on lists and words that the component theories use.

  The collections \<open>byte_simps\<close> (little-endian access) and \<open>splice_simps\<close> (\<open>memcpy\<close> into a list of
  bytes) carry the memory proofs of every component.
\<close>

unbundle bit_operations_syntax

type_synonym u8 = "8 word"
type_synonym u16 = "16 word"
type_synonym u32 = "32 word"
type_synonym u64 = "64 word"

named_theorems byte_simps "little-endian access to a byte store"
named_theorems splice_simps "memcpy into a list of bytes"

section \<open>Abnormal ends of a run\<close>

text \<open>
  The C++ code ends abnormally in these ways; each is a value of the model, never a hidden
  unspecified result: a failed \<open>assert\<close>, an access outside an array, a use of a null pointer, a
  trapping integer division, an exception, and \<open>exit\<close>.
\<close>

datatype fault =
    Assert_fail
  | Out_of_bounds
  | Null_deref
  | Div_trap
  | Thrown string

type_synonym 'a res = "fault + 'a"

definition bindR :: "'a res \<Rightarrow> ('a \<Rightarrow> 'b res) \<Rightarrow> 'b res" where
  "bindR m f = (case m of Inl e \<Rightarrow> Inl e | Inr x \<Rightarrow> f x)"

lemma bindR_simps [simp]:
  "bindR (Inl e) f = Inl e"
  "bindR (Inr x) f = f x"
  by (simp_all add: bindR_def)

lemma bindR_Inr_iff: "bindR m f = Inr y \<longleftrightarrow> (\<exists>x. m = Inr x \<and> f x = Inr y)"
  by (cases m) simp_all

lemma bindR_Inl_iff: "bindR m f = Inl e \<longleftrightarrow> m = Inl e \<or> (\<exists>x. m = Inr x \<and> f x = Inl e)"
  by (cases m) simp_all

text \<open>A C++ \<open>bool\<close> read as an integer.\<close>

definition b2w :: "bool \<Rightarrow> 'a::len word" where
  "b2w b = (if b then 1 else 0)"

lemma b2w_simps [simp]: "b2w True = 1" "b2w False = 0"
  by (simp_all add: b2w_def)

section \<open>Widening and small words\<close>

lemma unat_ucast_up:
  "LENGTH('a::len) \<le> LENGTH('b::len) \<Longrightarrow> unat (ucast (x :: 'a word) :: 'b word) = unat x"
  by (metis is_up.rep_eq of_nat_unat of_nat_eq_iff uint_up_ucast source_size_def target_size_def word_size)

lemma ucast_ucast_id:
  assumes "LENGTH('a::len) \<le> LENGTH('b::len)"
  shows "ucast (ucast (x :: 'a word) :: 'b word) = x"
  using assms by (intro bit_word_eqI) (simp add: bit_simps)

lemma unat_of_nat_small: "n < 2 ^ LENGTH('a) \<Longrightarrow> unat (of_nat n :: 'a::len word) = n"
  by (simp add: unat_of_nat take_bit_nat_eq_self)

lemma unat_Suc:
  assumes "0 < (n :: 'a::len word)"
  obtains k where "unat n = Suc k"
proof (cases "unat n")
  case 0
  with assms show ?thesis by (simp add: unsigned_eq_0_iff)
qed

lemma unat_add_small:
  "unat a + n < 2 ^ LENGTH('a) \<Longrightarrow> unat (a + of_nat n :: 'a::len word) = unat a + n"
  by (simp add: unat_word_ariths(1) unat_of_nat take_bit_nat_eq_self)

section \<open>Little-endian access to a byte store\<close>

text \<open>
  A byte store is a function from indices to bytes. \<open>le_load f a n\<close> is the value of \<open>n\<close> bytes at
  index \<open>a\<close>, least significant byte first, as a load through a pointer to an \<open>n\<close>-byte unsigned
  type gives on the little-endian host; \<open>le_store\<close> is the corresponding store.
\<close>

definition byte_of :: "u64 \<Rightarrow> nat \<Rightarrow> u8" where
  "byte_of w i = ucast (drop_bit (8 * i) w)"

primrec le_load :: "(nat \<Rightarrow> u8) \<Rightarrow> nat \<Rightarrow> nat \<Rightarrow> u64" where
  "le_load f a 0 = 0"
| "le_load f a (Suc n) = le_load f a n OR push_bit (8 * n) (ucast (f (a + n)))"

definition le_store :: "(nat \<Rightarrow> u8) \<Rightarrow> nat \<Rightarrow> nat \<Rightarrow> u64 \<Rightarrow> (nat \<Rightarrow> u8)" where
  "le_store f a n v = (\<lambda>i. if a \<le> i \<and> i < a + n then byte_of v (i - a) else f i)"

lemma bit_byte_of: "bit (byte_of w i) k \<longleftrightarrow> k < 8 \<and> bit w (8 * i + k)"
  by (auto simp: byte_of_def bit_simps bit_unsigned_iff ac_simps)

lemma bit_le_load:
  assumes "n \<le> 8"
  shows "bit (le_load f a n) k \<longleftrightarrow> k < 8 * n \<and> bit (f (a + k div 8)) (k mod 8)"
  using assms
proof (induction n)
  case 0
  show ?case by simp
next
  case (Suc n)
  have "bit (push_bit (8 * n) (ucast (f (a + n)) :: u64)) k \<longleftrightarrow>
      8 * n \<le> k \<and> k < 8 * Suc n \<and> bit (f (a + n)) (k - 8 * n)"
    using Suc.prems by (auto simp: bit_simps dest: bit_imp_le_length)
  moreover have "k div 8 = n \<and> k mod 8 = k - 8 * n" if "8 * n \<le> k \<and> k < 8 * Suc n"
  proof -
    from that obtain j where "k = 8 * n + j" "j < 8" by (auto simp: le_iff_add)
    then show ?thesis by simp
  qed
  ultimately show ?case
    using Suc by (auto simp: bit_or_iff)
qed

lemma le_load_cong:
  "(\<And>i. a \<le> i \<Longrightarrow> i < a + n \<Longrightarrow> f i = g i) \<Longrightarrow> le_load f a n = le_load g a n"
  by (induction n) auto

lemma byte_of_le_load [byte_simps]:
  assumes "n \<le> 8" "i < n"
  shows "byte_of (le_load f a n) i = f (a + i)"
proof (rule bit_word_eqI)
  fix k
  assume k: "k < LENGTH(8)"
  then have "(8 * i + k) div 8 = i" "(8 * i + k) mod 8 = k"
    by simp_all
  with assms k show "bit (byte_of (le_load f a n) i) k = bit (f (a + i)) k"
    by (simp add: bit_byte_of bit_le_load)
qed

lemma le_load_le_store [byte_simps]:
  assumes "n \<le> 8"
  shows "le_load (le_store f a n v) a n = take_bit (8 * n) v"
proof (rule bit_word_eqI)
  fix k
  assume "k < LENGTH(64)"
  have "k < 8 * n \<Longrightarrow> k div 8 < n" by (simp add: less_mult_imp_div_less mult.commute)
  with assms show "bit (le_load (le_store f a n v) a n) k = bit (take_bit (8 * n) v) k"
    by (auto simp: bit_le_load le_store_def bit_byte_of bit_take_bit_iff)
qed

lemma le_load_le_store_disjoint [byte_simps]:
  "a + n \<le> b \<or> b + m \<le> a \<Longrightarrow> le_load (le_store f b m v) a n = le_load f a n"
  by (rule le_load_cong) (auto simp: le_store_def)

lemma le_store_le_load [byte_simps]:
  assumes "n \<le> 8"
  shows "le_store f a n (le_load f a n) = f"
  using assms by (auto simp: le_store_def fun_eq_iff byte_of_le_load)

lemma le_store_outside [byte_simps]: "i < a \<or> a + n \<le> i \<Longrightarrow> le_store f a n v i = f i"
  by (auto simp: le_store_def)

lemma le_store_inside [byte_simps]: "i < n \<Longrightarrow> le_store f a n v (a + i) = byte_of v i"
  by (simp add: le_store_def)

lemma le_store_one: "le_store f a 1 v = f(a := byte_of v 0)"
  by (auto simp: le_store_def fun_eq_iff)

section \<open>memcpy into a list of bytes\<close>

definition splice_at :: "'a list \<Rightarrow> nat \<Rightarrow> 'a list \<Rightarrow> 'a list" where
  "splice_at xs i ys = take i xs @ ys @ drop (i + length ys) xs"

definition slice :: "'a list \<Rightarrow> nat \<Rightarrow> nat \<Rightarrow> 'a list" where
  "slice xs i n = take n (drop i xs)"

lemma length_splice_at [splice_simps]:
  "i + length ys \<le> length xs \<Longrightarrow> length (splice_at xs i ys) = length xs"
  by (simp add: splice_at_def)

lemma length_slice [splice_simps]: "i + n \<le> length xs \<Longrightarrow> length (slice xs i n) = n"
  by (simp add: slice_def)

lemma nth_splice_at [splice_simps]:
  assumes "i + length ys \<le> length xs" "j < length xs"
  shows "splice_at xs i ys ! j = (if i \<le> j \<and> j < i + length ys then ys ! (j - i) else xs ! j)"
  using assms by (auto simp: splice_at_def nth_append)

lemma nth_slice [splice_simps]:
  "i + n \<le> length xs \<Longrightarrow> j < n \<Longrightarrow> slice xs i n ! j = xs ! (i + j)"
  by (simp add: slice_def)

lemma slice_splice_at_same [splice_simps]:
  "i + length ys \<le> length xs \<Longrightarrow> slice (splice_at xs i ys) i (length ys) = ys"
  by (simp add: slice_def splice_at_def)

lemma slice_splice_at_disjoint [splice_simps]:
  assumes "i + length ys \<le> length xs" "j + n \<le> length xs" "j + n \<le> i \<or> i + length ys \<le> j"
  shows "slice (splice_at xs i ys) j n = slice xs j n"
  using assms by (intro nth_equalityI) (auto simp: splice_simps)

lemma splice_at_slice [splice_simps]:
  assumes "i + n \<le> length xs"
  shows "splice_at xs i (slice xs i n) = xs"
  using assms by (intro nth_equalityI) (auto simp: splice_simps)

end
