(* ===== verification/Phys_Mem.thy ===== *)
theory Phys_Mem
  imports Prelude
begin

text \<open>
  The simulated physical memory (\<open>src/sim/csrc/init.cpp\<close>), the host timer
  (\<open>src/sim/csrc/sys_timer.c\<close>) and the DPI memory port that the verilated core calls on every
  access (\<open>mem_read\<close>, \<open>mem_write\<close> of \<open>src/sim/csrc/sim_main.cpp\<close>).

  The static array \<open>pmem\<close> is a byte store indexed from 0, of which the first \<open>CONFIG_MSIZE\<close> bytes
  exist; an access that runs past them is \<open>Out_of_bounds\<close>. Console output of the UART address is
  kept as a string. The library call \<open>gettimeofday\<close> is a parameter: \<open>clock n\<close> is the pair
  (seconds, microseconds) of its \<open>n\<close>-th call.
\<close>

section \<open>The memory array and its accessors\<close>

definition CONFIG_MSIZE :: u64 where "CONFIG_MSIZE = 0x8000000"
definition CONFIG_PC_RET :: u64 where "CONFIG_PC_RET = 0x80000000"

type_synonym pmem = "nat \<Rightarrow> u8"

definition pmem_init :: pmem where
  "pmem_init = (\<lambda>_. 0)"

definition get_mem_addr :: "u64 \<Rightarrow> nat" where
  "get_mem_addr addr = unat (addr - CONFIG_PC_RET)"

definition addr_in_mem :: "u64 \<Rightarrow> bool" where
  "addr_in_mem addr \<longleftrightarrow> addr < CONFIG_PC_RET + CONFIG_MSIZE \<and> addr \<ge> CONFIG_PC_RET"

text \<open>The bytes of an access that passed \<open>addr_in_mem\<close> must exist in the array.\<close>

definition access_ok :: "u64 \<Rightarrow> nat \<Rightarrow> bool" where
  "access_ok addr n \<longleftrightarrow> get_mem_addr addr + n \<le> unat CONFIG_MSIZE"

definition paddr_read :: "pmem \<Rightarrow> u64 \<Rightarrow> int \<Rightarrow> u64 res" where
  "paddr_read m addr lens =
     (if addr_in_mem addr then
        if lens = 1 \<or> lens = 2 \<or> lens = 4 \<or> lens = 8 then
          if access_ok addr (nat lens) then Inr (le_load m (get_mem_addr addr) (nat lens))
          else Inl Out_of_bounds
        else Inl Assert_fail
      else Inr 0)"

definition paddr_write :: "pmem \<Rightarrow> u64 \<Rightarrow> int \<Rightarrow> u64 \<Rightarrow> pmem res" where
  "paddr_write m addr len data =
     (if addr_in_mem addr then
        if len = 1 \<or> len = 2 \<or> len = 4 \<or> len = 8 then
          if access_ok addr (nat len) then Inr (le_store m (get_mem_addr addr) (nat len) data)
          else Inl Out_of_bounds
        else Inl Assert_fail
      else Inr m)"

text \<open>
  \<open>load_img\<close> copies the image file to the start of \<open>pmem\<close> with one \<open>fread\<close> of the whole size and
  asserts that it read one item; a zero-length item reads none. With no image it reports the size of
  the built-in image. A file longer than the array would be written past its end.
\<close>

definition load_img :: "pmem \<Rightarrow> u8 list option \<Rightarrow> (int \<times> pmem) res" where
  "load_img m img =
     (case img of
        None \<Rightarrow> Inr (4096, m)
      | Some bs \<Rightarrow>
          if bs = [] then Inl Assert_fail
          else if length bs > unat CONFIG_MSIZE then Inl Out_of_bounds
          else Inr (int (length bs), \<lambda>i. if i < length bs then bs ! i else m i))"

section \<open>The host timer\<close>

type_synonym clock = "nat \<Rightarrow> u64 \<times> u64"

record timer =
  boot_time :: u64
  clock_calls :: nat

definition get_time_internal :: "clock \<Rightarrow> nat \<Rightarrow> u64" where
  "get_time_internal clock n = fst (clock n) * 1000000 + snd (clock n)"

definition get_time :: "clock \<Rightarrow> timer \<Rightarrow> u64 \<times> timer" where
  "get_time clock t =
     (let t1 = (if boot_time t = 0
                then \<lparr>boot_time = get_time_internal clock (clock_calls t),
                      clock_calls = Suc (clock_calls t)\<rparr>
                else t);
          now = get_time_internal clock (clock_calls t1)
      in (now - boot_time t1, t1\<lparr>clock_calls := Suc (clock_calls t1)\<rparr>))"

section \<open>The DPI memory port\<close>

record port =
  port_mem :: pmem
  port_timer :: timer
  port_console :: "u8 list"

definition mem_read :: "clock \<Rightarrow> port \<Rightarrow> u32 \<Rightarrow> u8 \<Rightarrow> u64 \<Rightarrow> (u64 \<times> port) res" where
  "mem_read clock s raddr ren rdata =
     (if ren \<noteq> 0 then
        if raddr = 0xa0000048 \<or> raddr = 0xa0000040 then
          (let (us, t) = get_time clock (port_timer s) in Inr (us, s\<lparr>port_timer := t\<rparr>))
        else bindR (paddr_read (port_mem s) (ucast raddr) 8) (\<lambda>r_data. Inr (r_data, s))
      else Inr (rdata, s))"

fun mem_write_bytes :: "pmem \<Rightarrow> u32 \<Rightarrow> u64 \<Rightarrow> u8 \<Rightarrow> nat list \<Rightarrow> pmem res" where
  "mem_write_bytes m addr wdata wmask [] = Inr m"
| "mem_write_bytes m addr wdata wmask (i # is) =
     (if bit wmask i
      then bindR (paddr_write m (ucast (addr + of_nat i)) 1 (ucast (byte_of wdata i)))
             (\<lambda>m'. mem_write_bytes m' addr wdata wmask is)
      else mem_write_bytes m addr wdata wmask is)"

definition mem_write :: "port \<Rightarrow> bool \<Rightarrow> u32 \<Rightarrow> u64 \<Rightarrow> u8 \<Rightarrow> u8 \<Rightarrow> port res" where
  "mem_write s clk waddr wdata wmask wen =
     (if bit wen 0 \<and> clk then
        if waddr = 0xa00003f8 then Inr (s\<lparr>port_console := port_console s @ [byte_of wdata 0]\<rparr>)
        else bindR (mem_write_bytes (port_mem s) waddr wdata wmask [0..<8])
               (\<lambda>m. Inr (s\<lparr>port_mem := m\<rparr>))
      else Inr s)"

section \<open>Address arithmetic\<close>

lemma addr_in_mem_iff: "addr_in_mem addr \<longleftrightarrow> 0x80000000 \<le> unat addr \<and> unat addr < 0x88000000"
  by (auto simp: addr_in_mem_def CONFIG_PC_RET_def CONFIG_MSIZE_def word_le_nat_alt word_less_nat_alt)

lemma get_mem_addr_eq:
  assumes "addr_in_mem addr"
  shows "get_mem_addr addr = unat addr - 0x80000000"
  using assms
  by (simp add: get_mem_addr_def CONFIG_PC_RET_def addr_in_mem_iff unat_sub word_le_nat_alt)

lemma unat_CONFIG_MSIZE [simp]: "unat CONFIG_MSIZE = 0x8000000"
  by (simp add: CONFIG_MSIZE_def)

lemma access_ok_iff:
  assumes "addr_in_mem addr"
  shows "access_ok addr n \<longleftrightarrow> unat addr + n \<le> 0x88000000"
  using assms by (auto simp: access_ok_def get_mem_addr_eq addr_in_mem_iff)

lemma one_byte_ok: "addr_in_mem addr \<Longrightarrow> access_ok addr 1"
  by (simp add: access_ok_iff addr_in_mem_iff)

lemmas paddr_defs = paddr_read_def paddr_write_def

section \<open>Byte writes\<close>

lemma paddr_write_one:
  assumes "addr_in_mem addr"
  shows "paddr_write m addr 1 data = Inr (m(get_mem_addr addr := byte_of data 0))"
  using assms one_byte_ok [OF assms] le_store_one [of m "get_mem_addr addr" data]
  by (simp add: paddr_write_def)

lemma byte_of_ucast [simp]: "byte_of (ucast (b :: u8)) 0 = b"
  by (simp add: byte_of_def ucast_ucast_id)

lemma unat_ucast_u32 [simp]: "unat (ucast (a :: u32) :: u64) = unat a"
  by (simp add: unat_ucast_up)

text \<open>A window of eight bytes at a 32-bit address that lies in the memory array.\<close>

definition window_ok :: "u32 \<Rightarrow> bool" where
  "window_ok a \<longleftrightarrow> 0x80000000 \<le> unat a \<and> unat a + 8 \<le> 0x88000000"

lemma unat_window:
  assumes "window_ok a" "i < 8"
  shows "unat (a + of_nat i) = unat a + i"
  using assms by (intro unat_add_small) (simp add: window_ok_def)

lemma window_addr:
  assumes "window_ok a" "i < 8"
  shows "addr_in_mem (ucast (a + of_nat i))"
    and "get_mem_addr (ucast (a + of_nat i)) = unat a - 0x80000000 + i"
proof -
  show *: "addr_in_mem (ucast (a + of_nat i))"
    using assms by (auto simp: addr_in_mem_iff unat_window window_ok_def)
  show "get_mem_addr (ucast (a + of_nat i)) = unat a - 0x80000000 + i"
    using assms by (simp add: get_mem_addr_eq [OF *] unat_window) (simp add: window_ok_def)
qed

lemma mem_write_bytes_eq:
  assumes "window_ok a" "set is \<subseteq> {..<8}" "distinct is"
  shows "mem_write_bytes m a d k is =
    Inr (\<lambda>j. if \<exists>i\<in>set is. bit k i \<and> j = unat a - 0x80000000 + i
            then byte_of d (j - (unat a - 0x80000000)) else m j)"
  using assms(2,3)
proof (induction "is" arbitrary: m)
  case Nil
  show ?case by simp
next
  case (Cons i "is")
  from Cons.prems have i: "i < 8" by simp
  show ?case
    using Cons i by (auto simp: paddr_write_one window_addr [OF assms(1)] fun_eq_iff)
qed

lemma mem_write_ram:
  assumes "window_ok a"
  shows "mem_write s True a d k 1 = Inr (s\<lparr>port_mem :=
    \<lambda>j. if unat a - 0x80000000 \<le> j \<and> j < unat a - 0x80000000 + 8
           \<and> bit k (j - (unat a - 0x80000000))
        then byte_of d (j - (unat a - 0x80000000)) else port_mem s j\<rparr>)"
proof -
  have "a \<noteq> 0xa00003f8" using assms by (auto simp: window_ok_def)
  moreover have "(\<exists>i\<in>set [0..<8]. bit k i \<and> j = b + i) \<longleftrightarrow>
      b \<le> j \<and> j < b + 8 \<and> bit k (j - b)" for b j :: nat
    by (auto simp: nat_le_iff_add)
  ultimately show ?thesis
    using mem_write_bytes_eq [OF assms, of "[0..<8]" "port_mem s" d k]
    by (simp add: mem_write_def lessThan_atLeast0)
qed

lemma mem_read_ram:
  assumes "window_ok a" "ren \<noteq> 0"
  shows "mem_read clock s a ren r = Inr (le_load (port_mem s) (unat a - 0x80000000) 8, s)"
proof -
  have "a \<noteq> 0xa0000048" "a \<noteq> 0xa0000040" using assms by (auto simp: window_ok_def)
  moreover have in_mem: "addr_in_mem (ucast a)" and ix: "get_mem_addr (ucast a) = unat a - 0x80000000"
    using window_addr [OF assms(1), of 0] by simp_all
  moreover have "access_ok (ucast a) 8"
    using assms(1) by (simp add: access_ok_iff [OF in_mem] window_ok_def)
  ultimately show ?thesis
    using assms(2) by (simp add: mem_read_def paddr_read_def)
qed

lemma paddr_read_cong:
  "(addr_in_mem b \<Longrightarrow> le_load m (get_mem_addr b) (nat n) = le_load m' (get_mem_addr b) (nat n))
   \<Longrightarrow> paddr_read m b n = paddr_read m' b n"
  unfolding paddr_read_def by (cases "addr_in_mem b") presburger+

section \<open>Properties\<close>

text \<open>
  C12. A value stored with \<open>paddr_write\<close> is read back by \<open>paddr_read\<close> at the same address and width,
  truncated to that width, and every access to bytes disjoint from the stored ones is unchanged.
\<close>

theorem paddr_write_read:
  assumes "addr_in_mem a" "len \<in> {1, 2, 4, 8}" "paddr_write m a len d = Inr m'"
  shows "paddr_read m' a len = Inr (take_bit (8 * nat len) d)
    \<and> (\<forall>b n. unat b + nat n \<le> unat a \<or> unat a + nat len \<le> unat b \<longrightarrow>
        paddr_read m' b n = paddr_read m b n)"
proof -
  from assms have ok: "access_ok a (nat len)"
    and m': "m' = le_store m (get_mem_addr a) (nat len) d"
    by (auto simp: paddr_write_def split: if_splits)
  have len: "nat len \<le> 8" using assms(2) by auto
  have "paddr_read m' b n = paddr_read m b n"
    if "unat b + nat n \<le> unat a \<or> unat a + nat len \<le> unat b" for b n
  proof (rule paddr_read_cong)
    assume "addr_in_mem b"
    with that assms(1) have "get_mem_addr b + nat n \<le> get_mem_addr a
        \<or> get_mem_addr a + nat len \<le> get_mem_addr b"
      by (auto simp: get_mem_addr_eq addr_in_mem_iff)
    then show "le_load m' (get_mem_addr b) (nat n) = le_load m (get_mem_addr b) (nat n)"
      by (simp add: m' byte_simps)
  qed
  moreover have "paddr_read m' a len = Inr (take_bit (8 * nat len) d)"
    using assms(1,2) ok le_load_le_store [OF len, of m "get_mem_addr a" d]
    by (simp only: paddr_read_def m') auto
  ultimately show ?thesis by blast
qed

theorem paddr_write_read_witness:
  "addr_in_mem 0x80000010 \<and> (4::int) \<in> {1, 2, 4, 8}
   \<and> paddr_read (le_store pmem_init 0x10 4 0x123456789) 0x80000010 4 = Inr 0x23456789"
proof -
  have a: "addr_in_mem 0x80000010" by (simp add: addr_in_mem_iff)
  have w: "paddr_write pmem_init 0x80000010 4 0x123456789 = Inr (le_store pmem_init 0x10 4 0x123456789)"
    using a by (simp add: paddr_write_def access_ok_iff get_mem_addr_eq)
  from paddr_write_read [OF a _ w] a show ?thesis by (simp add: take_bit_eq_mod)
qed

text \<open>
  C13. The DPI port implements a byte-masked memory: after a store through \<open>mem_write\<close> on the rising
  clock phase, \<open>mem_read\<close> of the same eight-byte window returns the stored byte where the mask bit is
  set and the old byte elsewhere, the bytes outside the window keep their values, and neither call
  touches the console or the timer.
\<close>

theorem mem_write_then_read:
  assumes "window_ok a"
  shows "\<exists>s'. mem_write s True a d k 1 = Inr s'
    \<and> port_console s' = port_console s \<and> port_timer s' = port_timer s
    \<and> (\<exists>v. mem_read clock s' a 1 r = Inr (v, s')
         \<and> (\<forall>i<8. byte_of v i = (if bit k i then byte_of d i
                  else port_mem s (unat a - 0x80000000 + i))))
    \<and> (\<forall>j. j < unat a - 0x80000000 \<or> unat a - 0x80000000 + 8 \<le> j \<longrightarrow> port_mem s' j = port_mem s j)"
  by (simp add: mem_write_ram [OF assms] mem_read_ram [OF assms] byte_simps)

theorem mem_write_then_read_witness:
  "window_ok 0x80000008 \<and> (\<exists>s'. mem_write
     \<lparr>port_mem = pmem_init, port_timer = \<lparr>boot_time = 0, clock_calls = 0\<rparr>, port_console = []\<rparr>
     True 0x80000008 0x1122334455667788 0x0f 1 = Inr s' \<and> port_console s' = [])"
proof -
  have "window_ok 0x80000008" by (simp add: window_ok_def)
  with mem_write_then_read [OF this, of
     "\<lparr>port_mem = pmem_init, port_timer = \<lparr>boot_time = 0, clock_calls = 0\<rparr>, port_console = []\<rparr>"
     "0x1122334455667788" "0x0f" "\<lambda>_. (0, 0)" "0"]
  show ?thesis by (auto simp del: unat_numeral)
qed

text \<open>
  \<open>paddr_read\<close> checks only the first byte of an access: with a supported width it returns a value
  everywhere except at the last addresses of the array, where the access starts inside and runs past
  the end; outside the memory it returns 0; any other width inside the memory fails its assertion.
\<close>

theorem paddr_read_outcome:
  "paddr_read m a lens =
     (if unat a < 0x80000000 \<or> 0x88000000 \<le> unat a then Inr 0
      else if lens \<notin> {1, 2, 4, 8} then Inl Assert_fail
      else if 0x88000000 - nat lens < unat a then Inl Out_of_bounds
      else Inr (le_load m (unat a - 0x80000000) (nat lens)))"
proof (cases "addr_in_mem a")
  case True
  then show ?thesis
    by (auto simp: paddr_read_def access_ok_iff get_mem_addr_eq addr_in_mem_iff)
next
  case False
  then show ?thesis
    by (auto simp: paddr_read_def addr_in_mem_iff)
qed

end
