(* ===== verification/Watchpoint.thy ===== *)
theory Watchpoint
  imports Prelude
begin

text \<open>
  The debugger's watchpoint pool (\<open>src/sim/csrc/watchpoint.cpp\<close>, the type \<open>WP\<close> of
  \<open>src/sim/csrc/include/globalvar.h\<close>): a static array of 32 nodes threaded by their \<open>next\<close> fields
  into the list of active watchpoints (\<open>head\<close>) and the free list (\<open>free_\<close>). A pointer is \<open>None\<close> or
  the index of a node. The search loop of \<open>free_wp\<close> may run forever on a cyclic list, so it is a
  \<open>partial_function\<close>: not returning is \<open>None\<close>.

  The abstraction \<open>wp_abs s A F\<close> reads the two threaded lists; the operations refine list operations
  on it (\<open>wp_new_*\<close>, \<open>wp_free_*\<close>), and the locale \<open>watch_pool\<close> is the contract the debugger commands
  rely on.
\<close>

section \<open>Nodes, pool and operations\<close>

record WP =
  NO :: int
  wp_next :: "nat option"
  wp_string :: "string option"
  wp_value :: u64

record wp_state =
  wp_pool :: "WP list"
  wp_head :: "nat option"
  wp_free :: "nat option"

definition NR_WP :: nat where "NR_WP = 32"

definition init_wp_pool :: wp_state where
  "init_wp_pool =
     \<lparr>wp_pool = map (\<lambda>i. \<lparr>NO = int i, wp_next = (if i = NR_WP - 1 then None else Some (i + 1)),
                            wp_string = None, wp_value = 0\<rparr>) [0..<NR_WP],
      wp_head = None,
      wp_free = Some 0\<rparr>"

definition node :: "wp_state \<Rightarrow> nat \<Rightarrow> WP" where
  "node s p = wp_pool s ! p"

definition set_next :: "nat \<Rightarrow> nat option \<Rightarrow> wp_state \<Rightarrow> wp_state" where
  "set_next p q s = s\<lparr>wp_pool := (wp_pool s)[p := (node s p)\<lparr>wp_next := q\<rparr>]\<rparr>"

definition new_wp :: "wp_state \<Rightarrow> (nat \<times> wp_state) res" where
  "new_wp s =
     (case wp_free s of
        None \<Rightarrow> Inl Assert_fail
      | Some tmp \<Rightarrow>
          let s1 = s\<lparr>wp_free := wp_next (node s tmp)\<rparr>;
              s2 = set_next tmp (wp_head s1) s1;
              s3 = s2\<lparr>wp_head := Some tmp\<rparr>
          in Inr (tmp, s3))"

text \<open>The loop \<open>while (p1->NO != wp->NO) { p2 = p1; p1 = p1->next; }\<close> of \<open>free_wp\<close>.\<close>

partial_function (option) wp_search :: "wp_state \<Rightarrow> int \<Rightarrow> nat \<Rightarrow> nat option \<Rightarrow> (nat \<times> nat) res option" where
  "wp_search s no p2 p1 =
     (if p1 = None then Some (Inl Null_deref)
      else if NO (node s (the p1)) = no then Some (Inr (p2, the p1))
      else wp_search s no (the p1) (wp_next (node s (the p1))))"

text \<open>The tail of \<open>free_wp\<close>: \<open>p1->next = free_->next; free_ = p1;\<close>\<close>

definition wp_return :: "nat \<Rightarrow> wp_state \<Rightarrow> wp_state res" where
  "wp_return p1 s =
     (case wp_free s of
        None \<Rightarrow> Inl Null_deref
      | Some f \<Rightarrow> Inr ((set_next p1 (wp_next (node s f)) s)\<lparr>wp_free := Some p1\<rparr>))"

definition free_wp :: "nat \<Rightarrow> wp_state \<Rightarrow> wp_state res option" where
  "free_wp wp s =
     (case wp_head s of
        None \<Rightarrow> Some (Inl Null_deref)
      | Some h \<Rightarrow>
          if NO (node s h) = NO (node s wp) then
            Some (wp_return h (s\<lparr>wp_head := wp_next (node s h)\<rparr>))
          else
            (case wp_search s (NO (node s wp)) h (Some h) of
               None \<Rightarrow> None
             | Some (Inl e) \<Rightarrow> Some (Inl e)
             | Some (Inr (p2, p1)) \<Rightarrow>
                 Some (wp_return p1 (set_next p2 (wp_next (node s p1)) s))))"

text \<open>The two assignments that the command \<open>w\<close> makes to a fresh watchpoint.\<close>

definition set_wp_string :: "nat \<Rightarrow> string \<Rightarrow> wp_state \<Rightarrow> wp_state" where
  "set_wp_string p e s = s\<lparr>wp_pool := (wp_pool s)[p := (node s p)\<lparr>wp_string := Some e\<rparr>]\<rparr>"

definition set_wp_value :: "nat \<Rightarrow> u64 \<Rightarrow> wp_state \<Rightarrow> wp_state" where
  "set_wp_value p v s = s\<lparr>wp_pool := (wp_pool s)[p := (node s p)\<lparr>wp_value := v\<rparr>]\<rparr>"

section \<open>The lists threaded through the pool\<close>

fun chain :: "WP list \<Rightarrow> nat option \<Rightarrow> nat list \<Rightarrow> bool" where
  "chain pool p [] \<longleftrightarrow> p = None"
| "chain pool p (x # xs) \<longleftrightarrow> p = Some x \<and> x < length pool \<and> chain pool (wp_next (pool ! x)) xs"

definition wp_wf :: "wp_state \<Rightarrow> bool" where
  "wp_wf s \<longleftrightarrow> length (wp_pool s) = NR_WP \<and> (\<forall>i<NR_WP. NO (node s i) = int i)"

definition wp_abs :: "wp_state \<Rightarrow> nat list \<Rightarrow> nat list \<Rightarrow> bool" where
  "wp_abs s A F \<longleftrightarrow> wp_wf s \<and> chain (wp_pool s) (wp_head s) A \<and> chain (wp_pool s) (wp_free s) F
     \<and> distinct (A @ F)"

lemma chain_bound: "chain pool p xs \<Longrightarrow> x \<in> set xs \<Longrightarrow> x < length pool"
  by (induction xs arbitrary: p) auto

lemma chain_update [simp]: "a \<notin> set xs \<Longrightarrow> chain (pool[a := w]) p xs = chain pool p xs"
  by (induction xs arbitrary: p) auto

lemma chain_unique: "chain pool p xs \<Longrightarrow> chain pool p ys \<Longrightarrow> xs = ys"
proof (induction xs arbitrary: p ys)
  case Nil
  then show ?case by (cases ys) auto
next
  case (Cons x xs)
  then show ?case by (cases ys) auto
qed

lemma chain_upt:
  assumes "\<forall>i. k \<le> i \<and> i < n \<longrightarrow> wp_next (pool ! i) = (if Suc i = n then None else Some (Suc i))"
    "k < n" "n \<le> length pool"
  shows "chain pool (Some k) [k..<n]"
  using assms
proof (induction "n - k" arbitrary: k)
  case 0
  then show ?case by simp
next
  case (Suc d)
  then show ?case by (cases "Suc k = n") (auto simp: upt_conv_Cons)
qed

lemma NO_set_next [simp]: "p < length (wp_pool s) \<Longrightarrow> NO (node (set_next p q s) i) = NO (node s i)"
  by (cases "p = i") (simp_all add: set_next_def node_def)

lemma length_set_next [simp]: "length (wp_pool (set_next p q s)) = length (wp_pool s)"
  by (simp add: set_next_def)

lemma wp_wf_set_next [simp]: "p < NR_WP \<Longrightarrow> wp_wf (set_next p q s) = wp_wf s"
  by (auto simp: wp_wf_def)

lemma set_next_simps [simp]:
  "wp_head (set_next p q s) = wp_head s" "wp_free (set_next p q s) = wp_free s"
  by (simp_all add: set_next_def)

lemma wp_wf_ptr [simp]:
  "wp_wf (s\<lparr>wp_head := h\<rparr>) = wp_wf s" "wp_wf (s\<lparr>wp_free := h\<rparr>) = wp_wf s"
  by (simp_all add: wp_wf_def node_def)

lemma wp_absD:
  assumes "wp_abs s A F"
  shows "wp_wf s" "chain (wp_pool s) (wp_head s) A" "chain (wp_pool s) (wp_free s) F"
    "distinct A" "distinct F" "set A \<inter> set F = {}"
  using assms by (auto simp: wp_abs_def)

lemma wp_abs_bound: "wp_abs s A F \<Longrightarrow> x \<in> set A \<union> set F \<Longrightarrow> x < NR_WP"
  by (auto simp: wp_abs_def wp_wf_def dest: chain_bound)

lemma wp_abs_NO: "wp_abs s A F \<Longrightarrow> x \<in> set A \<union> set F \<Longrightarrow> NO (node s x) = int x"
  using wp_abs_bound by (auto simp: wp_abs_def wp_wf_def)

section \<open>The operations on the abstraction\<close>

lemma init_wp_abs: "wp_abs init_wp_pool [] [0..<32]"
  by (auto simp: wp_abs_def wp_wf_def init_wp_pool_def node_def NR_WP_def intro!: chain_upt)

lemma wp_new_empty: "wp_abs s A [] \<Longrightarrow> new_wp s = Inl Assert_fail"
  by (simp add: wp_abs_def new_wp_def)

lemma wp_new_Cons:
  assumes "wp_abs s A (f # F)"
  shows "\<exists>s'. new_wp s = Inr (f, s') \<and> wp_abs s' (f # A) F"
proof -
  from assms have f: "wp_free s = Some f" "f < NR_WP"
    by (auto simp: wp_abs_def wp_wf_def)
  with assms show ?thesis
    by (auto simp: new_wp_def wp_abs_def set_next_def node_def wp_wf_def nth_list_update)
qed

lemma wp_search_chain:
  assumes "wp_wf s" "chain (wp_pool s) p xs" "w \<in> set xs"
  shows "\<exists>us vs. xs = us @ w # vs \<and> w \<notin> set us
    \<and> wp_search s (int w) p2 p = Some (Inr (last (p2 # us), w))"
  using assms(2,3)
proof (induction xs arbitrary: p p2)
  case Nil
  then show ?case by simp
next
  case (Cons x xs)
  from Cons.prems assms(1) have p: "p = Some x" and no: "NO (node s x) = int x"
    by (auto simp: wp_wf_def)
  show ?case
  proof (cases "x = w")
    case True
    with p no show ?thesis by (subst wp_search.simps) (rule exI [of _ "[]"], simp)
  next
    case False
    with Cons.prems obtain us vs where "xs = us @ w # vs" "w \<notin> set us"
      "wp_search s (int w) x (wp_next (node s x)) = Some (Inr (last (x # us), w))"
      using Cons.IH [of "wp_next (node s x)" x] by (auto simp: node_def)
    with False p no show ?thesis
      by (subst wp_search.simps) (rule exI [of _ "x # us"], rule exI [of _ vs], simp)
  qed
qed

lemma chain_remove:
  assumes "chain pool p (us @ w # vs)" "distinct (us @ w # vs)" "us \<noteq> []"
  shows "chain (pool[last us := (pool ! last us)\<lparr>wp_next := wp_next (pool ! w)\<rparr>]) p (us @ vs)"
  using assms
proof (induction us arbitrary: p)
  case Nil
  then show ?case by simp
next
  case (Cons u us)
  show ?case
  proof (cases "us = []")
    case True
    with Cons.prems show ?thesis by simp
  next
    case False
    with Cons.prems have "u \<noteq> last us" by auto
    with False Cons show ?thesis by simp
  qed
qed

lemma wp_return_Cons:
  assumes "wp_wf s" "chain (wp_pool s) (wp_head s) A" "chain (wp_pool s) (wp_free s) (f # F)"
    "distinct (A @ f # F)" "w < NR_WP" "w \<notin> set A" "w \<notin> set (f # F)"
  shows "\<exists>s'. wp_return w s = Inr s' \<and> wp_abs s' A (w # F)"
  using assms by (auto simp: wp_return_def wp_abs_def) (auto simp: set_next_def node_def wp_wf_def)

lemma wp_return_Nil: "wp_free s = None \<Longrightarrow> wp_return w s = Inl Null_deref"
  by (simp add: wp_return_def)

text \<open>
  The unlinking half of \<open>free_wp\<close>: the node is taken out of the active list and handed to
  \<open>wp_return\<close> with the free list untouched.
\<close>

lemma free_wp_unlink:
  assumes "wp_abs s A F" "w \<in> set A"
  shows "\<exists>s1. free_wp w s = Some (wp_return w s1) \<and> wp_wf s1
    \<and> chain (wp_pool s1) (wp_head s1) (remove1 w A) \<and> chain (wp_pool s1) (wp_free s1) F"
proof -
  note abs = wp_absD [OF assms(1)]
  have w: "w < NR_WP" "NO (node s w) = int w"
    using wp_abs_bound [OF assms(1)] wp_abs_NO [OF assms(1)] assms(2) by auto
  obtain h A' where A: "A = h # A'" using assms(2) by (cases A) auto
  with abs(2) have h: "wp_head s = Some h" by simp
  have hno: "NO (node s h) = int h" using wp_abs_NO [OF assms(1), of h] A by simp
  show ?thesis
  proof (cases "h = w")
    case True
    with abs A h show ?thesis
      by (intro exI [of _ "s\<lparr>wp_head := wp_next (node s h)\<rparr>"]) (simp add: free_wp_def node_def)
  next
    case False
    obtain us vs where us: "A = us @ w # vs" "w \<notin> set us"
      "wp_search s (int w) h (wp_head s) = Some (Inr (last (h # us), w))"
      using wp_search_chain [OF abs(1,2) assms(2)] by blast
    with False A have ne: "us \<noteq> []" by (cases us) auto
    let ?p = "last us"
    have p: "?p < NR_WP" "?p \<notin> set F"
      using wp_abs_bound [OF assms(1), of ?p] abs(6) us(1) ne by (auto dest: last_in_set)
    let ?s1 = "set_next ?p (wp_next (node s w)) s"
    have "free_wp w s = Some (wp_return w ?s1)"
      using False h hno w(2) us(3) ne by (simp add: free_wp_def)
    moreover have "chain (wp_pool ?s1) (wp_head s) (us @ vs)"
      using chain_remove [of "wp_pool s" "wp_head s" us w vs] abs(2,4) us(1) ne
      by (simp add: set_next_def node_def)
    moreover have "chain (wp_pool ?s1) (wp_free s) F"
      using abs(3) p(2) by (simp add: set_next_def)
    ultimately show ?thesis
      using abs(1) p(1) us(1,2) by (intro exI [of _ ?s1]) (simp add: remove1_append)
  qed
qed

lemma wp_free_Cons:
  assumes "wp_abs s A (f # F)" "w \<in> set A"
  shows "\<exists>s'. free_wp w s = Some (Inr s') \<and> wp_abs s' (remove1 w A) (w # F)"
proof -
  obtain s1 where s1: "free_wp w s = Some (wp_return w s1)" "wp_wf s1"
    "chain (wp_pool s1) (wp_head s1) (remove1 w A)" "chain (wp_pool s1) (wp_free s1) (f # F)"
    using free_wp_unlink [OF assms] by blast
  have "w \<notin> set (remove1 w A)" "distinct (remove1 w A @ f # F)" "w < NR_WP" "w \<notin> set (f # F)"
    using assms wp_abs_bound [OF assms(1), of w] notin_set_remove1
    by (auto simp: wp_abs_def dest: notin_set_remove1)
  with wp_return_Cons [OF s1(2-4)] s1(1) show ?thesis by auto
qed

lemma wp_free_Nil:
  assumes "wp_abs s A []" "w \<in> set A"
  shows "free_wp w s = Some (Inl Null_deref)"
  using free_wp_unlink [OF assms] by (auto simp: wp_return_Nil)

lemma wp_abs_unique: "wp_abs s A F \<Longrightarrow> wp_abs s A' F' \<Longrightarrow> A = A' \<and> F = F'"
  by (auto simp: wp_abs_def dest: chain_unique)

lemma chain_same_next:
  assumes "\<And>i. i < length pool \<Longrightarrow> wp_next (pool' ! i) = wp_next (pool ! i)" "length pool' = length pool"
  shows "chain pool' p xs = chain pool p xs"
  using assms by (induction xs arbitrary: p) auto

lemma wp_abs_set_fields [simp]:
  "wp_abs (set_wp_string p e s) A F = wp_abs s A F"
  "wp_abs (set_wp_value p v s) A F = wp_abs s A F"
proof -
  have 1: "wp_next (wp_pool (set_wp_string p e s) ! i) = wp_next (wp_pool s ! i)"
    "NO (node (set_wp_string p e s) i) = NO (node s i)"
    "length (wp_pool (set_wp_string p e s)) = length (wp_pool s)" if "i < length (wp_pool s)" for i
    using that by (cases "p = i"; simp add: set_wp_string_def node_def)+
  have 2: "wp_next (wp_pool (set_wp_value p v s) ! i) = wp_next (wp_pool s ! i)"
    "NO (node (set_wp_value p v s) i) = NO (node s i)"
    "length (wp_pool (set_wp_value p v s)) = length (wp_pool s)" if "i < length (wp_pool s)" for i
    using that by (cases "p = i"; simp add: set_wp_value_def node_def)+
  show "wp_abs (set_wp_string p e s) A F = wp_abs s A F"
    using chain_same_next [of "wp_pool s" "wp_pool (set_wp_string p e s)"] 1
    by (auto simp: wp_abs_def wp_wf_def set_wp_string_def)
  show "wp_abs (set_wp_value p v s) A F = wp_abs s A F"
    using chain_same_next [of "wp_pool s" "wp_pool (set_wp_value p v s)"] 2
    by (auto simp: wp_abs_def wp_wf_def set_wp_value_def)
qed

section \<open>The contract of the pool\<close>

text \<open>
  What the debugger commands rely on: a pool holds a list of active and a list of free nodes;
  creation moves the first free node to the front of the active list and asserts when there is none;
  deletion of an active node removes it from the active list. The node at the front of the free list
  is dropped by a deletion, and a deletion with an empty free list is a null dereference.
\<close>

locale watch_pool =
  fixes pool_abs :: "'s \<Rightarrow> nat list \<Rightarrow> nat list \<Rightarrow> bool"
    and new_op :: "'s \<Rightarrow> (nat \<times> 's) res"
    and free_op :: "nat \<Rightarrow> 's \<Rightarrow> 's res option"
  assumes new_Cons: "pool_abs s A (f # F) \<Longrightarrow> \<exists>s'. new_op s = Inr (f, s') \<and> pool_abs s' (f # A) F"
    and new_Nil: "pool_abs s A [] \<Longrightarrow> new_op s = Inl Assert_fail"
    and free_Cons: "pool_abs s A (f # F) \<Longrightarrow> w \<in> set A \<Longrightarrow>
          \<exists>s'. free_op w s = Some (Inr s') \<and> pool_abs s' (remove1 w A) (w # F)"
    and free_Nil: "pool_abs s A [] \<Longrightarrow> w \<in> set A \<Longrightarrow> free_op w s = Some (Inl Null_deref)"
    and pool_unique: "pool_abs s A F \<Longrightarrow> pool_abs s A' F' \<Longrightarrow> A = A' \<and> F = F'"
begin

lemma new_succeeds_iff:
  assumes "pool_abs s A F"
  shows "(\<exists>p s'. new_op s = Inr (p, s')) \<longleftrightarrow> F \<noteq> []"
proof (cases F)
  case Nil
  with assms new_Nil show ?thesis by auto
next
  case (Cons f F')
  with assms new_Cons [of s A f F'] show ?thesis by auto
qed

lemma new_conserves:
  assumes "pool_abs s A F" "new_op s = Inr (p, s')"
  shows "\<exists>F'. F = p # F' \<and> pool_abs s' (p # A) F'"
proof (cases F)
  case Nil
  with assms new_Nil show ?thesis by auto
next
  case (Cons f F')
  with assms show ?thesis using new_Cons [of s A f F'] by auto
qed

lemma free_succeeds_iff:
  assumes "pool_abs s A F" "w \<in> set A"
  shows "(\<exists>s'. free_op w s = Some (Inr s')) \<longleftrightarrow> F \<noteq> []"
proof (cases F)
  case Nil
  with assms free_Nil show ?thesis by auto
next
  case (Cons f F')
  with assms free_Cons [of s A f F' w] show ?thesis by auto
qed

lemma free_loses_one:
  assumes "pool_abs s A F" "w \<in> set A" "free_op w s = Some (Inr s')"
  shows "pool_abs s' (remove1 w A) (w # tl F) \<and>
    length (remove1 w A) + length (w # tl F) + 1 = length A + length F"
proof (cases F)
  case Nil
  with assms free_Nil show ?thesis by auto
next
  case (Cons f F')
  with assms have "pool_abs s' (remove1 w A) (w # F')"
    using free_Cons [of s A f F' w] by auto
  moreover have "0 < length A" using assms(2) by (cases A) auto
  ultimately show ?thesis using Cons assms(2) by (simp add: length_remove1)
qed

end

interpretation wps: watch_pool wp_abs new_wp free_wp
  by unfold_locales (blast intro: wp_new_Cons wp_new_empty wp_free_Cons wp_free_Nil dest: wp_abs_unique)+

section \<open>Data kept by the list operations\<close>

definition same_data :: "wp_state \<Rightarrow> wp_state \<Rightarrow> bool" where
  "same_data s t \<longleftrightarrow> length (wp_pool t) = length (wp_pool s) \<and>
     (\<forall>i<length (wp_pool s). NO (node t i) = NO (node s i) \<and> wp_string (node t i) = wp_string (node s i)
        \<and> wp_value (node t i) = wp_value (node s i))"

lemma same_data_refl [simp]: "same_data s s"
  by (simp add: same_data_def)

lemma same_data_trans: "same_data s t \<Longrightarrow> same_data t u \<Longrightarrow> same_data s u"
  by (simp add: same_data_def)

lemma same_data_set_next: "same_data s (set_next p q s)"
proof -
  have "NO (node (set_next p q s) i) = NO (node s i)
      \<and> wp_string (node (set_next p q s) i) = wp_string (node s i)
      \<and> wp_value (node (set_next p q s) i) = wp_value (node s i)" if "i < length (wp_pool s)" for i
    using that by (cases "p = i") (simp_all add: set_next_def node_def)
  then show ?thesis by (simp add: same_data_def)
qed

lemma same_data_ptr [simp]:
  "same_data s (t\<lparr>wp_head := h\<rparr>) = same_data s t" "same_data s (t\<lparr>wp_free := h\<rparr>) = same_data s t"
  "same_data (s\<lparr>wp_head := h\<rparr>) t = same_data s t"
  by (simp_all add: same_data_def node_def)

lemma same_data_wp_return: "wp_return p s = Inr t \<Longrightarrow> same_data s t"
  by (auto simp: wp_return_def same_data_set_next split: option.splits)

lemma same_data_free_wp: "free_wp w s = Some (Inr t) \<Longrightarrow> same_data s t"
  by (auto simp: free_wp_def split: option.splits if_splits sum.splits prod.splits
      dest!: same_data_wp_return intro: same_data_trans [OF same_data_set_next])

section \<open>Reachable pools\<close>

text \<open>
  The states of the pool in a debugger session, indexed by the number of deletions so far. The
  command \<open>d\<close> calls \<open>free_wp\<close> only with a node it found on the active list.
\<close>

inductive wp_reach :: "nat \<Rightarrow> wp_state \<Rightarrow> bool" where
  wp_start: "wp_reach 0 init_wp_pool"
| wp_new: "wp_reach k s \<Longrightarrow> new_wp s = Inr (p, s') \<Longrightarrow> wp_reach k s'"
| wp_set: "wp_reach k s \<Longrightarrow> wp_reach k (set_wp_value p v (set_wp_string p e s))"
| wp_del: "wp_reach k s \<Longrightarrow> wp_abs s A F \<Longrightarrow> w \<in> set A \<Longrightarrow> free_wp w s = Some (Inr s') \<Longrightarrow>
     wp_reach (Suc k) s'"

lemma wp_reach_abs: "wp_reach k s \<Longrightarrow> \<exists>A F. wp_abs s A F \<and> length A + length F + k = 32"
proof (induction rule: wp_reach.induct)
  case wp_start
  show ?case using init_wp_abs by fastforce
next
  case (wp_new k s p s')
  then show ?case using wps.new_conserves by fastforce
next
  case (wp_set k s p v e)
  then show ?case by simp
next
  case (wp_del k s A F w s')
  then show ?case
    using wps.free_loses_one [of s A F w s'] wp_abs_unique [of s A F] by (metis add_Suc_right add.commute Suc_eq_plus1)
qed

lemma first_wp: "\<exists>s1. new_wp init_wp_pool = Inr (0, s1) \<and> wp_abs s1 [0] (1 # [2..<32])"
proof -
  have "[0..<32] = 0 # 1 # [2..<32::nat]" by (simp add: upt_rec [of 0 32] upt_rec [of "Suc 0" 32] numeral_2_eq_2 [symmetric])
  with init_wp_abs have "wp_abs init_wp_pool [] (0 # 1 # [2..<32])" by simp
  from wp_new_Cons [OF this] show ?thesis .
qed

section \<open>Properties\<close>

text \<open>
  C36. In every pool a debugger session can reach, the active and the free list are disjoint, acyclic
  and made of pool nodes, and \<open>k\<close> deletions have cost exactly \<open>k\<close> of the 32 nodes: creation succeeds
  exactly while fewer than \<open>32 - k\<close> watchpoints are active, and afterwards both creation (assertion)
  and deletion (null dereference) end the simulator.
\<close>

theorem watchpoint_pool_leak:
  assumes "wp_reach k s"
  shows "\<exists>A F. wp_abs s A F \<and> length A + length F + k = 32
    \<and> ((\<exists>p s'. new_wp s = Inr (p, s')) \<longleftrightarrow> length A < 32 - k)
    \<and> (length A = 32 - k \<longrightarrow> new_wp s = Inl Assert_fail
         \<and> (\<forall>w\<in>set A. free_wp w s = Some (Inl Null_deref)))"
proof -
  obtain A F where AF: "wp_abs s A F" "length A + length F + k = 32"
    using wp_reach_abs [OF assms] by blast
  moreover have "(\<exists>p s'. new_wp s = Inr (p, s')) \<longleftrightarrow> length A < 32 - k"
    using wps.new_succeeds_iff [OF AF(1)] AF(2) by (cases F) auto
  moreover have "length A = 32 - k \<Longrightarrow> length F = 0" using AF(2) by linarith
  ultimately show ?thesis using wp_new_empty [of s A] wp_free_Nil [of s A] by auto
qed

theorem watchpoint_pool_leak_witness:
  "\<exists>s. wp_reach 1 s \<and> (\<exists>A F. wp_abs s A F \<and> length A + length F + 1 = 32)"
proof -
  obtain s1 where s1: "new_wp init_wp_pool = Inr (0, s1)" "wp_abs s1 [0] (1 # [2..<32])"
    using first_wp by blast
  then obtain s2 where s2: "free_wp 0 s1 = Some (Inr s2)"
    using wp_free_Cons [OF s1(2), of 0] by auto
  have "wp_reach 1 s2"
    using wp_reach.wp_del [OF wp_reach.wp_new [OF wp_reach.wp_start s1(1)] s1(2) _ s2] by simp
  with watchpoint_pool_leak [OF this] show ?thesis by blast
qed

text \<open>
  C8. Deleting an active watchpoint while the free list is not empty terminates, removes exactly that
  watchpoint from the active list with the order of the others kept, and leaves the number, the
  expression and the value of every node unchanged.
\<close>

theorem free_wp_refines:
  assumes "wp_abs s A (f # F)" "w \<in> set A"
  shows "\<exists>s'. free_wp w s = Some (Inr s') \<and> wp_abs s' (remove1 w A) (w # F)
    \<and> (\<forall>i<NR_WP. NO (node s' i) = NO (node s i) \<and> wp_string (node s' i) = wp_string (node s i)
          \<and> wp_value (node s' i) = wp_value (node s i))"
proof -
  obtain s' where s': "free_wp w s = Some (Inr s')" "wp_abs s' (remove1 w A) (w # F)"
    using wp_free_Cons [OF assms] by blast
  have "same_data s s'"
    by (rule same_data_free_wp [OF s'(1)])
  with s' wp_absD(1) [OF assms(1)] show ?thesis by (auto simp: same_data_def wp_wf_def)
qed

theorem free_wp_refines_witness:
  "\<exists>s s'. wp_abs s [0] (1 # [2..<32]) \<and> free_wp 0 s = Some (Inr s') \<and> wp_abs s' [] (0 # [2..<32])"
proof -
  obtain s1 where s1: "new_wp init_wp_pool = Inr (0, s1)" "wp_abs s1 [0] (1 # [2..<32])"
    using first_wp by blast
  with free_wp_refines [OF s1(2), of 0] show ?thesis by auto
qed

end
