(* ===== verification/C_Lib.thy ===== *)
theory C_Lib
  imports Prelude
begin

text \<open>
  The C string functions the simulator calls: number parsing (\<open>strtoul\<close>, \<open>strtol\<close>, \<open>atoi\<close>),
  number printing (\<open>%u\<close>, \<open>%llu\<close>, \<open>%0nx\<close>) and tokenisation (\<open>strtok\<close>). Strings are character lists
  without the terminating NUL.
\<close>

section \<open>Character classes and digits\<close>

definition is_digit :: "char \<Rightarrow> bool" where
  "is_digit c \<longleftrightarrow> 48 \<le> (of_char c :: nat) \<and> of_char c \<le> (57 :: nat)"

definition is_lower :: "char \<Rightarrow> bool" where
  "is_lower c \<longleftrightarrow> 97 \<le> (of_char c :: nat) \<and> of_char c \<le> (122 :: nat)"

definition is_upper :: "char \<Rightarrow> bool" where
  "is_upper c \<longleftrightarrow> 65 \<le> (of_char c :: nat) \<and> of_char c \<le> (90 :: nat)"

definition is_space :: "char \<Rightarrow> bool" where
  "is_space c \<longleftrightarrow> of_char c = (32 :: nat) \<or> 9 \<le> (of_char c :: nat) \<and> of_char c \<le> (13 :: nat)"

text \<open>The value of a character as a digit of some base, 36 and more for none.\<close>

definition digit_val :: "char \<Rightarrow> nat" where
  "digit_val c = (if is_digit c then of_char c - 48
                  else if is_lower c then of_char c - 97 + 10
                  else if is_upper c then of_char c - 65 + 10
                  else 255)"

definition digit_char :: "nat \<Rightarrow> char" where
  "digit_char d = char_of (if d < 10 then d + 48 else d - 10 + 97)"

section \<open>Parsing numbers\<close>

primrec digits_value :: "nat \<Rightarrow> nat \<Rightarrow> string \<Rightarrow> nat" where
  "digits_value base acc [] = acc"
| "digits_value base acc (c # cs) =
     (if digit_val c < base then digits_value base (acc * base + digit_val c) cs else acc)"

text \<open>The base and the digits that \<open>strtoul\<close> with base 0 reads after white space and sign.\<close>

definition base0_value :: "string \<Rightarrow> nat" where
  "base0_value s =
     (case s of
        c # x # h # _ \<Rightarrow>
          if c = CHR ''0'' \<and> (x = CHR ''x'' \<or> x = CHR ''X'') \<and> digit_val h < 16
          then digits_value 16 0 (drop 2 s)
          else if c = CHR ''0'' then digits_value 8 0 s
          else digits_value 10 0 s
      | c # _ \<Rightarrow> if c = CHR ''0'' then digits_value 8 0 s else digits_value 10 0 s
      | [] \<Rightarrow> 0)"

definition skip_sign :: "string \<Rightarrow> bool \<times> string" where
  "skip_sign s = (case dropWhile is_space s of
                    c # cs \<Rightarrow> if c = CHR ''-'' then (True, cs)
                              else if c = CHR ''+'' then (False, cs) else (False, c # cs)
                  | [] \<Rightarrow> (False, []))"

definition strtoul0 :: "string \<Rightarrow> u64" where
  "strtoul0 s = (let (neg, t) = skip_sign s; v = base0_value t
                 in if v \<ge> 2 ^ 64 then - 1 else if neg then - of_nat v else of_nat v)"

definition strtol0 :: "string \<Rightarrow> int" where
  "strtol0 s = (let (neg, t) = skip_sign s; v = int (base0_value t)
                in if neg then max (- (2 ^ 63)) (- v) else min (2 ^ 63 - 1) v)"

text \<open>
  \<open>strtoull\<close> with base 0 and its end pointer: the converted value and the text from the first
  character not converted on; when no digit is converted that is the whole text.
\<close>

definition base0_rest :: "string \<Rightarrow> string option" where
  "base0_rest s =
     (case s of
        c # x # h # _ \<Rightarrow>
          if c = CHR ''0'' \<and> (x = CHR ''x'' \<or> x = CHR ''X'') \<and> digit_val h < 16
          then Some (dropWhile (\<lambda>c. digit_val c < 16) (drop 2 s))
          else if c = CHR ''0'' then Some (dropWhile (\<lambda>c. digit_val c < 8) s)
          else if digit_val c < 10 then Some (dropWhile (\<lambda>c. digit_val c < 10) s) else None
      | c # _ \<Rightarrow> if c = CHR ''0'' then Some (dropWhile (\<lambda>c. digit_val c < 8) s)
                 else if digit_val c < 10 then Some (dropWhile (\<lambda>c. digit_val c < 10) s) else None
      | [] \<Rightarrow> None)"

definition strtoull0 :: "string \<Rightarrow> u64 \<times> string" where
  "strtoull0 s = (case base0_rest (snd (skip_sign s)) of
                    None \<Rightarrow> (0, s)
                  | Some r \<Rightarrow> (strtoul0 s, r))"

text \<open>\<open>atoi\<close> is \<open>strtol\<close> in base 10, converted to \<open>int\<close>.\<close>

definition atoi :: "string \<Rightarrow> int" where
  "atoi s = (let (neg, t) = skip_sign s; v = int (digits_value 10 0 t);
                 l = (if neg then max (- (2 ^ 63)) (- v) else min (2 ^ 63 - 1) v)
             in sint (word_of_int l :: u32))"

section \<open>Printing numbers\<close>

fun digits_of :: "nat \<Rightarrow> nat \<Rightarrow> string" where
  "digits_of base n = (if base < 2 \<or> n < base then [digit_char n]
                       else digits_of base (n div base) @ [digit_char (n mod base)])"

declare digits_of.simps [simp del]

abbreviation dec :: "nat \<Rightarrow> string" where "dec n \<equiv> digits_of 10 n"

definition pad_left :: "nat \<Rightarrow> string \<Rightarrow> string" where
  "pad_left w s = replicate (w - length s) CHR ''0'' @ s"

definition hex_pad :: "nat \<Rightarrow> nat \<Rightarrow> string" where
  "hex_pad w n = pad_left w (digits_of 16 n)"

text \<open>Pieces of the JSON reports: a newline, a quoted string, a Boolean, and a field with a number.\<close>

definition nl :: string where "nl = [CHR 0x0A]"

definition quoted :: "string \<Rightarrow> string" where "quoted s = [CHR 0x22] @ s @ [CHR 0x22]"

definition bool_text :: "bool \<Rightarrow> string" where "bool_text b = (if b then ''true'' else ''false'')"

definition llu :: "u64 \<Rightarrow> string" where "llu v = dec (unat v)"

definition hex16 :: "u64 \<Rightarrow> string" where "hex16 v = quoted (''0x'' @ hex_pad 16 (unat v))"

definition hex8 :: "u32 \<Rightarrow> string" where "hex8 v = quoted (''0x'' @ hex_pad 8 (unat v))"

definition num_field :: "string \<Rightarrow> u64 \<Rightarrow> string" where
  "num_field name v = ''  '' @ quoted name @ '': '' @ llu v @ '','' @ nl"

definition int_text :: "int \<Rightarrow> string" where
  "int_text i = (if i < 0 then ''-'' @ dec (nat (- i)) else dec (nat i))"

section \<open>strtok\<close>

text \<open>
  \<open>strtok\<close> with one delimiter character, on the part of the line not yet consumed: skip leading
  delimiters, then the token up to the next delimiter, and the rest after that delimiter. \<open>None\<close> is
  the null pointer. With the delimiter string \<open>"\0"\<close>, which is the empty string, the token is the
  whole rest of the line.
\<close>

definition strtok :: "char \<Rightarrow> string \<Rightarrow> string option \<times> string" where
  "strtok d s = (case dropWhile (\<lambda>c. c = d) s of
                   [] \<Rightarrow> (None, [])
                 | c # cs \<Rightarrow> (Some (takeWhile (\<lambda>c. c \<noteq> d) (c # cs)),
                             tl (dropWhile (\<lambda>c. c \<noteq> d) (c # cs))))"

definition strtok_rest :: "string \<Rightarrow> string option" where
  "strtok_rest s = (if s = [] then None else Some s)"

section \<open>Print and parse\<close>

lemma digit_val_char [simp]:
  assumes "d < 16"
  shows "digit_val (digit_char d) = d"
proof -
  have "of_char (char_of (n :: nat) :: char) = n mod 256" for n
    by simp
  with assms show ?thesis
    by (auto simp: digit_val_def digit_char_def is_digit_def is_lower_def)
qed

lemma digits_of_nonempty [simp]: "digits_of base n \<noteq> []"
  by (subst digits_of.simps) simp

lemma digits_value_append:
  "\<forall>c\<in>set xs. digit_val c < base \<Longrightarrow>
   digits_value base acc (xs @ ys) = digits_value base (digits_value base acc xs) ys"
  by (induction xs arbitrary: acc) auto

lemma digits_of_digits:
  assumes "2 \<le> base" "base \<le> 16"
  shows "\<forall>c\<in>set (digits_of base n). digit_val c < base"
  using assms
proof (induction base n rule: digits_of.induct)
  case (1 base n)
  show ?case
  proof (cases "base < 2 \<or> n < base")
    case True
    with 1 show ?thesis by (subst digits_of.simps) auto
  next
    case False
    moreover have "n mod base < base" "n mod base < 16"
      using False 1(3) by (auto intro: less_le_trans [OF mod_less_divisor])
    ultimately show ?thesis using 1 by (subst digits_of.simps) auto
  qed
qed

lemma digits_value_digits_of:
  assumes "2 \<le> base" "base \<le> 16"
  shows "digits_value base 0 (digits_of base n) = n"
  using assms
proof (induction base n rule: digits_of.induct)
  case (1 base n)
  show ?case
  proof (cases "base < 2 \<or> n < base")
    case True
    with 1 show ?thesis by (subst digits_of.simps) auto
  next
    case False
    have "n mod base < base" "n mod base < 16"
      using False 1(3) by (auto intro: less_le_trans [OF mod_less_divisor])
    with False 1 digits_of_digits [of base "n div base"] show ?thesis
      by (subst digits_of.simps) (simp add: digits_value_append)
  qed
qed

lemma dec_digit: "c \<in> set (dec n) \<Longrightarrow> is_digit c"
  using digits_of_digits [of 10 n] by (auto simp: digit_val_def split: if_splits)

lemma dec_first:
  assumes "0 < n"
  shows "\<exists>c cs. dec n = c # cs \<and> c \<noteq> CHR ''0''"
  using assms
proof (induction "10 :: nat" n rule: digits_of.induct)
  case (1 n)
  show ?case
  proof (cases "n < 10")
    case True
    with 1 have "digit_val (digit_char n) \<noteq> digit_val (CHR ''0'')"
      by (simp add: digit_val_def [of "CHR ''0''"] is_digit_def)
    then have "digit_char n \<noteq> CHR ''0''" by metis
    with True show ?thesis by (subst digits_of.simps) simp
  next
    case False
    with 1 show ?thesis by (subst digits_of.simps) fastforce
  qed
qed

lemma base0_value_dec: "base0_value (dec n) = n"
proof (cases "n = 0")
  case True
  then show ?thesis
    by (simp add: digits_of.simps base0_value_def digit_char_def digit_val_def is_digit_def)
next
  case False
  then obtain c cs where c: "dec n = c # cs" "c \<noteq> CHR ''0''"
    using dec_first by blast
  then have "base0_value (dec n) = digits_value 10 0 (dec n)"
    by (auto simp: base0_value_def split: list.splits)
  then show ?thesis by (simp add: digits_value_digits_of)
qed

lemma skip_sign_dec: "skip_sign (dec n) = (False, dec n)"
proof -
  obtain c cs where c: "dec n = c # cs" by (cases "dec n") auto
  with dec_digit [of c n] have "is_digit c" by simp
  with c show ?thesis by (auto simp: skip_sign_def is_digit_def is_space_def)
qed

lemma strtoul0_dec: "n < 2 ^ 64 \<Longrightarrow> strtoul0 (dec n) = of_nat n"
  by (simp add: strtoul0_def skip_sign_dec base0_value_dec)

lemma dropWhile_all: "(\<And>c. c \<in> set xs \<Longrightarrow> P c) \<Longrightarrow> dropWhile P xs = []"
  by (induction xs) auto

lemma base0_rest_dec: "base0_rest (dec n) = Some []"
proof (cases "n = 0")
  case True
  then show ?thesis
    by (simp add: digits_of.simps base0_rest_def digit_char_def digit_val_def is_digit_def)
next
  case False
  then obtain c cs where c: "dec n = c # cs" "c \<noteq> CHR ''0''"
    using dec_first by blast
  have "\<forall>x\<in>set (c # cs). digit_val x < 10" using digits_of_digits [of 10 n] c by simp
  then show ?thesis using c by (auto simp: base0_rest_def dropWhile_all split: list.splits)
qed

lemma strtoull0_dec: "n < 2 ^ 64 \<Longrightarrow> strtoull0 (dec n) = (of_nat n, [])"
  by (simp add: strtoull0_def skip_sign_dec base0_rest_dec strtoul0_dec)

lemma hex_pad_digits: "c \<in> set (hex_pad w n) \<Longrightarrow> digit_val c < 16"
proof -
  assume "c \<in> set (hex_pad w n)"
  then consider "c = CHR ''0''" | "c \<in> set (digits_of 16 n)" by (auto simp: hex_pad_def pad_left_def)
  then show ?thesis
  proof cases
    case 1
    then show ?thesis by (simp add: digit_val_def is_digit_def)
  next
    case 2
    with digits_of_digits [of 16 n] show ?thesis by simp
  qed
qed

lemma length_digits_of: "0 < w \<Longrightarrow> n < 16 ^ w \<Longrightarrow> length (digits_of 16 n) \<le> w"
proof (induction w arbitrary: n)
  case (Suc w)
  show ?case
  proof (cases "n < 16")
    case True
    then show ?thesis by (simp add: digits_of.simps)
  next
    case False
    with Suc.prems have "0 < w" by (cases w) simp_all
    moreover have "n div 16 < 16 ^ w" using Suc.prems(2) by (simp add: less_mult_imp_div_less mult.commute)
    ultimately show ?thesis using Suc.IH [of "n div 16"] False by (subst digits_of.simps) simp
  qed
qed simp

lemma length_hex_pad: "0 < w \<Longrightarrow> n < 16 ^ w \<Longrightarrow> length (hex_pad w n) = w"
  using length_digits_of [of w n] by (simp add: hex_pad_def pad_left_def)

lemma hex_pad_nonempty: "hex_pad w n \<noteq> []"
  by (simp add: hex_pad_def pad_left_def)

lemma digits_value_zeros: "0 < base \<Longrightarrow> digits_value base 0 (replicate k CHR ''0'' @ xs) = digits_value base 0 xs"
  by (induction k) (simp_all add: digit_val_def is_digit_def)

lemma digits_value_hex_pad: "digits_value 16 0 (hex_pad w n) = n"
  by (simp add: hex_pad_def pad_left_def digits_value_zeros digits_value_digits_of)

text \<open>A number printed as \<open>0x%0wllx\<close> is parsed back.\<close>

lemma strtoull0_hex:
  assumes "n < 2 ^ 64"
  shows "strtoull0 (''0x'' @ hex_pad w n) = (of_nat n, [])"
proof -
  obtain h hs where h: "hex_pad w n = h # hs" using hex_pad_nonempty [of w n] by (cases "hex_pad w n") auto
  have d: "\<forall>c\<in>set (h # hs). digit_val c < 16" using hex_pad_digits [of _ w n] h by auto
  have s: "skip_sign (''0x'' @ hex_pad w n) = (False, ''0x'' @ hex_pad w n)"
    by (simp add: skip_sign_def is_space_def)
  have "base0_value (''0x'' @ hex_pad w n) = n" "base0_rest (''0x'' @ hex_pad w n) = Some []"
    using d digits_value_hex_pad [of w n] by (simp_all add: h base0_value_def base0_rest_def dropWhile_all)
  with s assms show ?thesis by (simp add: strtoull0_def strtoul0_def)
qed

end
