(* ===== verification/Cpu_Regs.thy ===== *)
theory Cpu_Regs
  imports Prelude
begin

text \<open>
  Register names of the debugger and the lookup of a register by name
  (\<open>regs\<close>, \<open>isa_reg_str2val\<close> of \<open>src/sim/csrc/sim_main.cpp\<close>). \<open>cpu_gpr\<close> is the array of 33 values
  the core exports through \<open>set_gpr_ptr\<close>: 32 registers and the program counter. \<open>None\<close> is a lookup
  that leaves \<open>*success\<close> unset.
\<close>

definition regs :: "string list" where
  "regs = [''$0'', ''ra'', ''sp'', ''gp'', ''tp'', ''t0'', ''t1'', ''t2'',
           ''s0'', ''s1'', ''a0'', ''a1'', ''a2'', ''a3'', ''a4'', ''a5'',
           ''a6'', ''a7'', ''s2'', ''s3'', ''s4'', ''s5'', ''s6'', ''s7'',
           ''s8'', ''s9'', ''s10'', ''s11'', ''t3'', ''t4'', ''t5'', ''t6'', ''pc'']"

fun reg_search :: "string \<Rightarrow> u64 list \<Rightarrow> nat list \<Rightarrow> u64 option" where
  "reg_search s gpr [] = None"
| "reg_search s gpr (i # is) = (if s = regs ! i then Some (gpr ! i) else reg_search s gpr is)"

definition isa_reg_str2val :: "u64 list \<Rightarrow> u64 \<Rightarrow> string \<Rightarrow> u64 option" where
  "isa_reg_str2val gpr wb_pc_now s =
     (if s = ''pc'' then Some wb_pc_now
      else if s = ''0'' then Some (gpr ! 0)
      else reg_search s gpr [1..<31])"

lemma distinct_regs: "distinct regs"
  by (simp add: regs_def)

lemma length_regs [simp]: "length regs = 33"
  by (simp add: regs_def)

lemma reg_search_nth:
  assumes "j < 33" "set is \<subseteq> {..<33}"
  shows "reg_search (regs ! j) gpr is = (if j \<in> set is then Some (gpr ! j) else None)"
  using assms(2)
proof (induction "is")
  case (Cons i "is")
  then show ?case
    using assms(1) nth_eq_iff_index_eq [OF distinct_regs, of j i] by auto
qed simp

lemma reg_search_None: "s \<notin> set regs \<Longrightarrow> set is \<subseteq> {..<33} \<Longrightarrow> reg_search s gpr is = None"
  by (induction "is") auto

end
