(* ===== verification/Expr_Eval.thy ===== *)
theory Expr_Eval
  imports C_Lib Cpu_Regs Phys_Mem
begin

text \<open>
  The debugger's expression evaluator (\<open>src/sim/csrc/expr.cpp\<close>): the rule table and the tokenizer
  \<open>make_token\<close>, the conversion of tokens to numeric strings in \<open>expr\<close>, and the recursive evaluator
  \<open>eval\<close> on a range of the pointer array \<open>str\<close>.

  Pointers into \<open>str\<close> are indices; a pointer of \<open>str\<close> is \<open>P_null\<close>, the string field of a token, or
  one of the two static buffers \<open>s1\<close>, \<open>s2\<close>, so that the sharing of those buffers between tokens is
  part of the model. \<open>eval\<close> reads \<open>**(i-1)\<close> at the first token of a range when it is a number, \<open>*\<close> or \<open>/\<close>; for the
  first token of the array this follows whatever pointer lies before \<open>str\<close>, which C leaves undefined. The byte
  found there is the argument \<open>below\<close>, and nothing is assumed of it. \<open>int32_t\<close> values are
  32-bit words; the signed operations on them wrap.
\<close>

section \<open>Tokens and rules\<close>

datatype tk = TK_NOTYPE | TK_EQ | TK_NUM | TK_NEQ | TK_AND | TK_H | TK_REG | TK_CHAR char

type_synonym token = "tk \<times> string"

text \<open>
  \<open>regexec\<close> with \<open>rm_so = 0\<close>: the length of the longest match of the rule's regular expression at the
  start of the text.
\<close>

definition is_alnum :: "char \<Rightarrow> bool" where
  "is_alnum c \<longleftrightarrow> is_digit c \<or> is_lower c \<or> is_upper c"

definition match_class :: "(char \<Rightarrow> bool) \<Rightarrow> nat \<Rightarrow> string \<Rightarrow> nat option" where
  "match_class P mx s = (let n = min mx (length (takeWhile P s)) in if n \<ge> 1 then Some n else None)"

definition match_many :: "(char \<Rightarrow> bool) \<Rightarrow> string \<Rightarrow> nat option" where
  "match_many P s = (let n = length (takeWhile P s) in if n \<ge> 1 then Some n else None)"

definition match_lit :: "string \<Rightarrow> string \<Rightarrow> nat option" where
  "match_lit l s = (if take (length l) s = l then Some (length l) else None)"

definition match_hex :: "string \<Rightarrow> nat option" where
  "match_hex s = (case s of
      z # x # rest \<Rightarrow> if z = CHR ''0'' \<and> (x = CHR ''x'' \<or> x = CHR ''X'')
                      then map_option ((+) 2) (match_class is_alnum 8 rest) else None
    | _ \<Rightarrow> None)"

definition match_reg :: "string \<Rightarrow> nat option" where
  "match_reg s = (case s of
      d # rest \<Rightarrow> if d = CHR ''$''
                  then map_option ((+) 1) (match_class (\<lambda>c. is_lower c \<or> is_digit c) 2 rest) else None
    | _ \<Rightarrow> None)"

definition rules :: "((string \<Rightarrow> nat option) \<times> tk) list" where
  "rules =
    [(match_hex, TK_H),
     (match_reg, TK_REG),
     (match_many (\<lambda>c. c = CHR '' ''), TK_NOTYPE),
     (match_lit ''+'', TK_CHAR (CHR ''+'')),
     (match_lit ''=='', TK_EQ),
     (match_lit ''!='', TK_NEQ),
     (match_lit ''&&'', TK_AND),
     (match_many is_digit, TK_NUM),
     (match_lit ''-'', TK_CHAR (CHR ''-'')),
     (match_lit ''*'', TK_CHAR (CHR ''*'')),
     (match_lit ''/'', TK_CHAR (CHR ''/'')),
     (match_lit ''('', TK_CHAR (CHR ''('')),
     (match_lit '')'', TK_CHAR (CHR '')''))]"

fun find_rule :: "((string \<Rightarrow> nat option) \<times> tk) list \<Rightarrow> string \<Rightarrow> (tk \<times> nat) option" where
  "find_rule [] e = None"
| "find_rule ((re, ty) # rs) e =
     (case re e of Some n \<Rightarrow> Some (ty, n) | None \<Rightarrow> find_rule rs e)"

lemma match_bounds:
  "match_class P mx s = Some n \<Longrightarrow> 1 \<le> n \<and> n \<le> length s"
  "match_many P s = Some n \<Longrightarrow> 1 \<le> n \<and> n \<le> length s"
  "match_lit l s = Some n \<Longrightarrow> n = length l \<and> n \<le> length s"
  using length_takeWhile_le [of P s] arg_cong [of "take (length l) s" l length]
  by (auto simp: match_class_def match_many_def match_lit_def Let_def split: if_splits)

lemma rules_bounds:
  "(re, ty) \<in> set rules \<Longrightarrow> re e = Some n \<Longrightarrow> 1 \<le> n \<and> n \<le> length e"
  by (auto simp: rules_def match_hex_def match_reg_def split: list.splits if_splits
      dest!: match_bounds)

lemma find_rule_Some: "find_rule rs e = Some (ty, n) \<Longrightarrow> \<exists>re. (re, ty) \<in> set rs \<and> re e = Some n"
  by (induction rs e rule: find_rule.induct) (auto split: option.splits)

lemma find_rule_bounds: "find_rule rules e = Some (ty, n) \<Longrightarrow> 1 \<le> n \<and> n \<le> length e"
  using find_rule_Some rules_bounds by blast

text \<open>
  The loop of \<open>make_token\<close>. \<open>Inr None\<close> is \<open>return false\<close>. The arrays hold 32 tokens of 32
  characters: a 33rd token, or one of 32 or more characters, runs over them.
\<close>

function make_token_loop :: "token list \<Rightarrow> string \<Rightarrow> token list option res" where
  "make_token_loop toks e =
     (if e = [] then Inr (Some toks)
      else case find_rule rules e of
             None \<Rightarrow> Inr None
           | Some (ty, substr_len) \<Rightarrow>
               if ty = TK_NOTYPE then make_token_loop toks (drop substr_len e)
               else if length toks \<ge> 32 \<or> substr_len \<ge> 32 then Inl Out_of_bounds
               else make_token_loop (toks @ [(ty, take substr_len e)]) (drop substr_len e))"
  by pat_completeness auto
termination
  by (relation "measure (\<lambda>(toks, e). length e)") (auto dest!: find_rule_bounds)

declare make_token_loop.simps [simp del]

definition make_token :: "string \<Rightarrow> token list option res" where
  "make_token e = make_token_loop [] e"

section \<open>The evaluator\<close>

definition first_char :: "string \<Rightarrow> char" where
  "first_char s = (case s of [] \<Rightarrow> CHR 0x00 | c # _ \<Rightarrow> c)"

fun paren_count :: "int \<Rightarrow> string list \<Rightarrow> int" where
  "paren_count n [] = n"
| "paren_count n (t # ts) =
     paren_count (if first_char t = CHR ''('' then n + 1
                  else if first_char t = CHR '')'' \<and> n \<noteq> 0 then n - 1 else n) ts"

definition strs_between :: "string list \<Rightarrow> int \<Rightarrow> int \<Rightarrow> string list" where
  "strs_between strs p q = map (\<lambda>i. strs ! nat i) [p..q]"

definition check_parentheses :: "string list \<Rightarrow> int \<Rightarrow> int \<Rightarrow> bool" where
  "check_parentheses strs p q =
     (first_char (strs ! nat p) = CHR ''('' \<and> first_char (strs ! nat q) = CHR '')''
      \<and> paren_count 0 (strs_between strs (p + 1) (q - 1)) = 0)"

record ops =
  ops_n :: int
  op1 :: int
  op2 :: int
  op3 :: int
  op4 :: int

definition scan_step :: "char \<Rightarrow> string list \<Rightarrow> int \<Rightarrow> ops \<Rightarrow> ops" where
  "scan_step below strs i s =
     (let t = strs ! nat i; c = first_char t;
          prev = (if i \<ge> 1 then first_char (strs ! nat (i - 1)) else below)
      in if c = CHR ''('' then s\<lparr>ops_n := ops_n s + 1\<rparr>
         else if c = CHR '')'' then s\<lparr>ops_n := ops_n s - 1\<rparr>
         else if ops_n s = 0 then
           if t = ''&&'' then s\<lparr>op1 := i\<rparr>
           else if t = ''=='' \<or> t = ''!='' then s\<lparr>op2 := i\<rparr>
           else if c = CHR ''+'' \<or> c = CHR ''-'' then s\<lparr>op3 := i\<rparr>
           else if (prev \<noteq> CHR ''*'' \<or> prev \<noteq> CHR ''/'') \<and> (c = CHR ''*'' \<or> c = CHR ''/'')
             then s\<lparr>op4 := i\<rparr>
           else s
         else s)"

definition scan_ops :: "char \<Rightarrow> string list \<Rightarrow> int \<Rightarrow> int \<Rightarrow> ops" where
  "scan_ops below strs p q =
     fold (scan_step below strs) [p..q - 1] \<lparr>ops_n = 0, op1 = p, op2 = p, op3 = p, op4 = p\<rparr>"

definition choose_op :: "int \<Rightarrow> ops \<Rightarrow> int" where
  "choose_op p s = (if op1 s \<noteq> p then op1 s else if op2 s \<noteq> p then op2 s
                    else if op3 s \<noteq> p then op3 s else op4 s)"

definition trunc_div :: "int \<Rightarrow> int \<Rightarrow> int" where
  "trunc_div a b = sgn a * sgn b * (\<bar>a\<bar> div \<bar>b\<bar>)"

definition apply_op :: "char \<Rightarrow> u32 \<Rightarrow> u32 \<Rightarrow> u32 res" where
  "apply_op c val1 val2 =
     (if c = CHR ''+'' then Inr (val1 + val2)
      else if c = CHR ''-'' then Inr (val1 - val2)
      else if c = CHR ''*'' then Inr (val1 * val2)
      else if c = CHR ''/'' then
        if val2 = 0 then Inr 0
        else if sint val1 = - (2 ^ 31) \<and> sint val2 = - 1 then Inl Div_trap
        else Inr (word_of_int (trunc_div (sint val1) (sint val2)))
      else if c = CHR ''='' then Inr (b2w (val1 = val2))
      else if c = CHR ''!'' then Inr (b2w (val1 \<noteq> val2))
      else if c = CHR ''&'' then Inr (b2w (val1 \<noteq> 0 \<and> val2 \<noteq> 0))
      else Inr 0)"

lemma scan_fold_bounds:
  assumes "\<forall>i\<in>set is. p \<le> i \<and> i < q" "p < q"
    "{op1 s, op2 s, op3 s, op4 s} \<subseteq> {p..<q}"
  shows "{op1 (fold (scan_step b strs) is s), op2 (fold (scan_step b strs) is s),
          op3 (fold (scan_step b strs) is s), op4 (fold (scan_step b strs) is s)} \<subseteq> {p..<q}"
  using assms
proof (induction "is" arbitrary: s)
  case (Cons i "is")
  have "{op1 (scan_step b strs i s), op2 (scan_step b strs i s), op3 (scan_step b strs i s),
         op4 (scan_step b strs i s)} \<subseteq> {p..<q}"
    using Cons.prems by (auto simp: scan_step_def Let_def)
  with Cons show ?case by simp
qed simp

lemma choose_op_bounds:
  assumes "p < q"
  shows "p \<le> choose_op p (scan_ops b strs p q) \<and> choose_op p (scan_ops b strs p q) < q"
  using assms scan_fold_bounds [of "[p..q - 1]" p q "\<lparr>ops_n = 0, op1 = p, op2 = p, op3 = p, op4 = p\<rparr>" b strs]
  by (auto simp: choose_op_def scan_ops_def)

lemma choose_op_le: "p \<le> q \<Longrightarrow> p \<noteq> q \<Longrightarrow> choose_op p (scan_ops b strs p q) \<le> q"
  and choose_op_ge: "p \<le> q \<Longrightarrow> p \<noteq> q \<Longrightarrow> p \<le> choose_op p (scan_ops b strs p q)"
  using choose_op_bounds [of p q b strs] by simp_all

function eval :: "pmem \<Rightarrow> char \<Rightarrow> string list \<Rightarrow> int \<Rightarrow> int \<Rightarrow> u32 res" where
  "eval m below strs p q =
     (if p > q then Inr 0
      else if p = q then Inr (ucast (strtoul0 (strs ! nat p)))
      else if check_parentheses strs p q then eval m below strs (p + 1) (q - 1)
      else
        let op = choose_op p (scan_ops below strs p q) in
        if op = p \<and> first_char (strs ! nat p) = CHR ''*'' then
          bindR (eval m below strs (p + 1) q) (\<lambda>a. map_sum id ucast (paddr_read m (ucast a) 4))
        else
          bindR (eval m below strs p (op - 1)) (\<lambda>val1.
          bindR (eval m below strs (op + 1) q) (\<lambda>val2.
            apply_op (first_char (strs ! nat op)) val1 val2)))"
  by pat_completeness auto
termination
  by (relation "measure (\<lambda>(m, below, strs, p, q). nat (q - p + 1))")
     (auto simp: not_less choose_op_le choose_op_ge intro: le_imp_less_Suc)

declare eval.simps [simp del]

section \<open>From text to value\<close>

datatype sptr = P_null | P_tok nat | P_s1 | P_s2

record expr_state =
  es_str :: "sptr list"
  es_s1 :: string
  es_s2 :: string

definition expr_state_init :: expr_state where
  "expr_state_init = \<lparr>es_str = replicate 32 P_null, es_s1 = [], es_s2 = []\<rparr>"

text \<open>One iteration of the conversion loop of \<open>expr\<close> (the counter \<open>a\<close> always equals \<open>i\<close>).\<close>

definition convert_step :: "u64 list \<Rightarrow> u64 \<Rightarrow> nat \<Rightarrow> token \<Rightarrow> expr_state \<Rightarrow> expr_state" where
  "convert_step gpr wb_pc i tok s =
     (case fst tok of
        TK_H \<Rightarrow> s\<lparr>es_s1 := dec (unat (word_of_int (strtol0 (snd tok)) :: u32)),
                 es_str := (es_str s)[i := P_s1]\<rparr>
      | TK_REG \<Rightarrow>
          (case isa_reg_str2val gpr wb_pc (tl (snd tok)) of
             Some v \<Rightarrow> s\<lparr>es_s2 := dec (unat (ucast v :: u32)), es_str := (es_str s)[i := P_s2]\<rparr>
           | None \<Rightarrow> s)
      | _ \<Rightarrow> s\<lparr>es_str := (es_str s)[i := P_tok i]\<rparr>)"

fun convert_loop :: "u64 list \<Rightarrow> u64 \<Rightarrow> nat \<Rightarrow> token list \<Rightarrow> expr_state \<Rightarrow> expr_state" where
  "convert_loop gpr wb_pc i [] s = s"
| "convert_loop gpr wb_pc i (t # ts) s = convert_loop gpr wb_pc (Suc i) ts (convert_step gpr wb_pc i t s)"

definition deref_str :: "token list \<Rightarrow> expr_state \<Rightarrow> sptr \<Rightarrow> string option" where
  "deref_str toks s p =
     (case p of
        P_null \<Rightarrow> None
      | P_tok i \<Rightarrow> Some (if i < length toks then snd (toks ! i) else [])
      | P_s1 \<Rightarrow> Some (es_s1 s)
      | P_s2 \<Rightarrow> Some (es_s2 s))"

text \<open>
  \<open>expr\<close>: \<open>Inr (s, None)\<close> is the failure of \<open>make_token\<close> (\<open>*success = false\<close>, result 0). Every
  string of the range is dereferenced by \<open>eval\<close>, so a null pointer among them ends the run.
\<close>

definition expr :: "pmem \<Rightarrow> char \<Rightarrow> u64 list \<Rightarrow> u64 \<Rightarrow> expr_state \<Rightarrow> string \<Rightarrow> (expr_state \<times> u32 option) res" where
  "expr m below gpr wb_pc s e =
     bindR (make_token e) (\<lambda>r.
       case r of
         None \<Rightarrow> Inr (s, None)
       | Some toks \<Rightarrow>
           let s' = convert_loop gpr wb_pc 0 toks s;
               strs = map (deref_str toks s') (take (length toks) (es_str s'))
           in if None \<in> set strs then Inl Null_deref
              else bindR (eval m below (map the strs) 0 (int (length toks) - 1))
                     (\<lambda>v. Inr (s', Some v)))"

end
