(* ===== verification/Expr_Correct.thy ===== *)
theory Expr_Correct
  imports Expr_Eval
begin

text \<open>
  Correctness of the expression evaluator against a reference syntax: an abstract syntax tree with
  its meaning \<open>sem\<close>, a printer \<open>pr\<close> that writes a tree as tokens with the precedence levels of the
  comment in \<open>expr.cpp\<close> (\<open>&&\<close> lowest, then \<open>== !=\<close>, then \<open>+ -\<close>, then \<open>* /\<close>), left-associative, with
  parentheses only where a level requires them. \<open>eval\<close> on the printed tokens computes the meaning.
\<close>

section \<open>Reference syntax and meaning\<close>

datatype bop = B_add | B_sub | B_mul | B_div | B_eq | B_neq | B_and

datatype ast = Num u32 | Neg ast | Deref ast | Bin bop ast ast

primrec bop_str :: "bop \<Rightarrow> string" where
  "bop_str B_add = ''+''" | "bop_str B_sub = ''-''" | "bop_str B_mul = ''*''" | "bop_str B_div = ''/''"
| "bop_str B_eq = ''==''" | "bop_str B_neq = ''!=''" | "bop_str B_and = ''&&''"

primrec bop_prec :: "bop \<Rightarrow> nat" where
  "bop_prec B_and = 1" | "bop_prec B_eq = 2" | "bop_prec B_neq = 2" | "bop_prec B_add = 3"
| "bop_prec B_sub = 3" | "bop_prec B_mul = 4" | "bop_prec B_div = 4"

primrec bop_sem :: "bop \<Rightarrow> u32 \<Rightarrow> u32 \<Rightarrow> u32 res" where
  "bop_sem B_add a b = Inr (a + b)"
| "bop_sem B_sub a b = Inr (a - b)"
| "bop_sem B_mul a b = Inr (a * b)"
| "bop_sem B_div a b =
     (if b = 0 then Inr 0 else if sint a = - (2 ^ 31) \<and> sint b = - 1 then Inl Div_trap
      else Inr (word_of_int (trunc_div (sint a) (sint b))))"
| "bop_sem B_eq a b = Inr (if a = b then 1 else 0)"
| "bop_sem B_neq a b = Inr (if a \<noteq> b then 1 else 0)"
| "bop_sem B_and a b = Inr (if a \<noteq> 0 \<and> b \<noteq> 0 then 1 else 0)"

primrec sem :: "pmem \<Rightarrow> ast \<Rightarrow> u32 res" where
  "sem m (Num n) = Inr n"
| "sem m (Neg e) = bindR (sem m e) (\<lambda>v. Inr (- v))"
| "sem m (Deref e) = bindR (sem m e) (\<lambda>a. map_sum id ucast (paddr_read m (ucast a) 4))"
| "sem m (Bin b x y) = bindR (sem m x) (\<lambda>v. bindR (sem m y) (\<lambda>w. bop_sem b v w))"

primrec prec :: "ast \<Rightarrow> nat" where
  "prec (Num n) = 5" | "prec (Neg e) = 3" | "prec (Deref e) = 4" | "prec (Bin b x y) = bop_prec b"

definition paren :: "bool \<Rightarrow> string list \<Rightarrow> string list" where
  "paren b ts = (if b then [''(''] @ ts @ ['')''] else ts)"

primrec pr :: "nat \<Rightarrow> ast \<Rightarrow> string list" where
  "pr l (Num n) = [dec (unat n)]"
| "pr l (Neg e) = paren (l > 3) (''-'' # pr 5 e)"
| "pr l (Deref e) = paren (l > 4) (''*'' # pr 5 e)"
| "pr l (Bin b x y) = paren (l > bop_prec b) (pr (bop_prec b) x @ bop_str b # pr (Suc (bop_prec b)) y)"

section \<open>Scanning a list of tokens\<close>

definition is_open :: "string \<Rightarrow> bool" where "is_open t \<longleftrightarrow> first_char t = CHR ''(''"
definition is_close :: "string \<Rightarrow> bool" where "is_close t \<longleftrightarrow> first_char t = CHR '')''"

definition tok_step :: "int \<Rightarrow> string \<Rightarrow> ops \<Rightarrow> ops" where
  "tok_step i t s =
     (if is_open t then s\<lparr>ops_n := ops_n s + 1\<rparr>
      else if is_close t then s\<lparr>ops_n := ops_n s - 1\<rparr>
      else if ops_n s = 0 then
        if t = ''&&'' then s\<lparr>op1 := i\<rparr>
        else if t = ''=='' \<or> t = ''!='' then s\<lparr>op2 := i\<rparr>
        else if first_char t = CHR ''+'' \<or> first_char t = CHR ''-'' then s\<lparr>op3 := i\<rparr>
        else if first_char t = CHR ''*'' \<or> first_char t = CHR ''/'' then s\<lparr>op4 := i\<rparr>
        else s
      else s)"

text \<open>
  The disjunction \<open>**(i-1) != '*' || **(i-1) != '/'\<close> of the source holds for every byte, so the byte
  before the token, and with it the byte before the array, has no influence.
\<close>

lemma scan_step_eq: "scan_step below strs i s = tok_step i (strs ! nat i) s"
  by (auto simp: scan_step_def tok_step_def is_open_def is_close_def Let_def)

fun scanl :: "int \<Rightarrow> ops \<Rightarrow> string list \<Rightarrow> ops" where
  "scanl i s [] = s"
| "scanl i s (t # ts) = scanl (i + 1) (tok_step i t s) ts"

lemma scanl_append: "scanl i s (xs @ ys) = scanl (i + int (length xs)) (scanl i s xs) ys"
  by (induction xs arbitrary: i s) (simp_all add: algebra_simps)

lemma length_strs_between [simp]: "length (strs_between strs p q) = nat (q - p + 1)"
  by (simp add: strs_between_def)

lemma strs_between_Cons: "p \<le> q \<Longrightarrow> strs_between strs p q = strs ! nat p # strs_between strs (p + 1) q"
  by (simp add: strs_between_def upto_rec1)

lemma strs_between_snoc: "p \<le> q \<Longrightarrow> strs_between strs p q = strs_between strs p (q - 1) @ [strs ! nat q]"
  by (simp add: strs_between_def upto_rec2)

lemma strs_between_ends:
  "p < q \<Longrightarrow> strs_between strs p q = strs ! nat p # strs_between strs (p + 1) (q - 1) @ [strs ! nat q]"
  using strs_between_Cons [of p q strs] strs_between_snoc [of "p + 1" q strs] by simp

lemma fold_scan_step:
  "fold (scan_step below strs) [p..q] s = scanl p s (strs_between strs p q)"
proof (induction "nat (q - p + 1)" arbitrary: p s)
  case 0
  then show ?case by (simp add: strs_between_def)
next
  case (Suc n)
  then show ?case by (simp add: upto_rec1 strs_between_Cons scan_step_eq)
qed

lemma strs_between_appendD:
  assumes "strs_between strs p q = xs @ ys"
  shows "strs_between strs p (p + int (length xs) - 1) = xs"
    and "strs_between strs (p + int (length xs)) q = ys"
  using assms
proof (induction xs arbitrary: p)
  case Nil
  {
    case 1
    show ?case by (simp add: strs_between_def)
  next
    case 2
    then show ?case by simp
  }
next
  case (Cons x xs)
  {
    case 1
    then have pq: "p \<le> q" by (cases "p \<le> q") (simp_all add: strs_between_def)
    from 1 have "strs_between strs (p + 1) q = xs @ ys" "strs ! nat p = x"
      by (simp_all add: strs_between_Cons [OF pq])
    with Cons.IH(1) [of "p + 1"] show ?case
      by (subst strs_between_Cons) (auto simp: algebra_simps)
  next
    case 2
    then have pq: "p \<le> q" by (cases "p \<le> q") (simp_all add: strs_between_def)
    from 2 have "strs_between strs (p + 1) q = xs @ ys"
      by (simp_all add: strs_between_Cons [OF pq])
    with Cons.IH(2) [of "p + 1"] show ?case by (simp add: algebra_simps)
  }
qed

section \<open>Nesting depth\<close>

definition dep1 :: "string \<Rightarrow> int" where
  "dep1 t = (if is_open t then 1 else if is_close t then - 1 else 0)"

fun depth :: "string list \<Rightarrow> int" where
  "depth [] = 0"
| "depth (t # ts) = dep1 t + depth ts"

lemma depth_append [simp]: "depth (xs @ ys) = depth xs + depth ys"
  by (induction xs) simp_all

lemma ops_n_scanl: "ops_n (scanl i s ts) = ops_n s + depth ts"
  by (induction ts arbitrary: i s) (auto simp: tok_step_def dep1_def)

lemma paren_count_ge:
  "0 \<le> c \<Longrightarrow> c + depth ts \<le> paren_count c ts \<and> 0 \<le> paren_count c ts"
proof (induction ts arbitrary: c)
  case (Cons t ts)
  let ?c = "if first_char t = CHR ''('' then c + 1
            else if first_char t = CHR '')'' \<and> c \<noteq> 0 then c - 1 else c"
  have "0 \<le> ?c" "c + dep1 t \<le> ?c"
    using Cons.prems by (auto simp: dep1_def is_open_def is_close_def)
  with Cons.IH [of ?c] show ?case by simp
qed simp

lemma paren_count_append: "paren_count c (xs @ ys) = paren_count (paren_count c xs) ys"
  by (induction xs arbitrary: c) simp_all

lemma paren_count_nested:
  assumes "\<forall>m\<le>length ts. 0 \<le> c + depth (take m ts)"
  shows "paren_count c ts = c + depth ts"
  using assms
proof (induction ts arbitrary: c)
  case (Cons t ts)
  let ?c = "if first_char t = CHR ''('' then c + 1
            else if first_char t = CHR '')'' \<and> c \<noteq> 0 then c - 1 else c"
  from Cons.prems [rule_format, of 1] have c: "?c = c + dep1 t"
    by (auto simp: dep1_def is_open_def is_close_def)
  have "\<forall>m\<le>length ts. 0 \<le> ?c + depth (take m ts)"
  proof (intro allI impI)
    fix m
    assume "m \<le> length ts"
    with Cons.prems [rule_format, of "Suc m"] c show "0 \<le> ?c + depth (take m ts)" by simp
  qed
  from Cons.IH [OF this] c show ?case by simp
qed simp

section \<open>Balanced token lists\<close>

text \<open>\<open>keep l s s'\<close>: the operator positions of levels below \<open>l\<close> are the same in \<open>s\<close> and \<open>s'\<close>.\<close>

definition keep :: "nat \<Rightarrow> ops \<Rightarrow> ops \<Rightarrow> bool" where
  "keep l s s' \<longleftrightarrow> (1 < l \<longrightarrow> op1 s' = op1 s) \<and> (2 < l \<longrightarrow> op2 s' = op2 s)
     \<and> (3 < l \<longrightarrow> op3 s' = op3 s) \<and> (4 < l \<longrightarrow> op4 s' = op4 s)"

lemma keep_refl [simp]: "keep l s s"
  by (simp add: keep_def)

lemma keep_trans: "keep l s t \<Longrightarrow> keep l t u \<Longrightarrow> keep l s u"
  by (simp add: keep_def)

lemma keep_all: "keep 5 s t \<Longrightarrow> keep l s t"
  by (auto simp: keep_def)

lemma keep_mono: "keep l s t \<Longrightarrow> k \<le> l \<Longrightarrow> keep k s t"
  by (auto simp: keep_def)

definition bal :: "nat \<Rightarrow> string list \<Rightarrow> bool" where
  "bal l ts \<longleftrightarrow> depth ts = 0 \<and> (\<forall>m\<le>length ts. 0 \<le> depth (take m ts)) \<and>
     (\<forall>i s m. 0 \<le> ops_n s \<longrightarrow> keep (if ops_n s = 0 then l else 5) s (scanl i s (take m ts)))"

lemma balD:
  assumes "bal l ts"
  shows "depth ts = 0" "m \<le> length ts \<Longrightarrow> 0 \<le> depth (take m ts)"
    "0 \<le> ops_n s \<Longrightarrow> keep (if ops_n s = 0 then l else 5) s (scanl i s (take m ts))"
  using assms by (auto simp: bal_def)

lemma bal_all: "bal l ts \<Longrightarrow> 0 \<le> ops_n s \<Longrightarrow> keep (if ops_n s = 0 then l else 5) s (scanl i s ts)"
  using balD(3) [of l ts s i "length ts"] by simp

lemma bal_prefix: "bal l ts \<Longrightarrow> 0 \<le> depth (take m ts)"
  using balD(1) [of l ts] balD(2) [of l ts m] by (cases "m \<le> length ts") auto

lemma bal_mono:
  assumes "bal l ts" "k \<le> l"
  shows "bal k ts"
proof -
  have "keep (if ops_n s = 0 then k else 5) s (scanl i s (take m ts))" if "0 \<le> ops_n s" for i s m
    using balD(3) [OF assms(1) that, of i m] keep_mono [OF _ assms(2)]
    by (cases "ops_n s = 0") simp_all
  with assms(1) show ?thesis by (simp add: bal_def)
qed

lemma bal_append:
  assumes "bal l xs" "bal l ys"
  shows "bal l (xs @ ys)"
proof -
  have "keep (if ops_n s = 0 then l else 5) s (scanl i s (take m (xs @ ys)))"
    if "0 \<le> ops_n s" for i s m
  proof -
    have n: "ops_n (scanl i s xs) = ops_n s" by (simp add: ops_n_scanl balD(1) [OF assms(1)])
    show ?thesis
    proof (cases "m \<le> length xs")
      case True
      with balD(3) [OF assms(1) that] show ?thesis by simp
    next
      case False
      have "keep (if ops_n s = 0 then l else 5) s (scanl i s xs)"
        by (rule bal_all [OF assms(1) that])
      moreover have "keep (if ops_n s = 0 then l else 5) (scanl i s xs)
          (scanl (i + int (length xs)) (scanl i s xs) (take (m - length xs) ys))"
        using balD(3) [OF assms(2), of "scanl i s xs"] that n by simp
      ultimately show ?thesis
        using False by (auto simp: scanl_append intro: keep_trans)
    qed
  qed
  then show ?thesis
    using assms by (auto simp: bal_def)
       (metis add_nonneg_nonneg bal_prefix assms)
qed

lemma bal_single:
  assumes "\<not> is_open t" "\<not> is_close t" "\<And>i s. ops_n s = 0 \<Longrightarrow> keep l s (tok_step i t s)"
  shows "bal l [t]"
proof -
  have "keep (if ops_n s = 0 then l else 5) s (scanl i s (take m [t]))" for i s m
    using assms by (cases m) (auto simp: tok_step_def)
  moreover have "0 \<le> depth (take m [t])" for m
    using assms by (cases m) (auto simp: dep1_def)
  ultimately show ?thesis using assms by (simp add: bal_def dep1_def)
qed

lemma bal_paren:
  assumes "bal k ts"
  shows "bal l ([''(''] @ ts @ ['')''])"
proof -
  have o: "is_open ''(''" "\<not> is_open '')''" "is_close '')''"
    by (simp_all add: is_open_def is_close_def first_char_def)
  have "keep 5 s (scanl i s (take m ([''(''] @ ts @ ['')''])))" if "0 \<le> ops_n s" for i s m
  proof (cases m)
    case (Suc j)
    let ?s = "s\<lparr>ops_n := ops_n s + 1\<rparr>"
    have k: "keep 5 s (scanl (i + 1) ?s (take j ts))"
      using balD(3) [OF assms, of ?s] that by (simp add: keep_def)
    have n: "ops_n (scanl (i + 1) ?s (take j ts)) = ops_n s + 1 + depth (take j ts)"
      by (simp add: ops_n_scanl)
    show ?thesis
    proof (cases "j \<le> length ts")
      case True
      with k Suc o show ?thesis by (simp add: tok_step_def)
    next
      case False
      with k Suc o show ?thesis
        by (simp add: tok_step_def scanl_append keep_def split: nat.splits)
    qed
  qed simp
  moreover have "0 \<le> depth (take m ([''(''] @ ts @ ['')'']))" for m
  proof (cases m)
    case (Suc j)
    with bal_prefix [OF assms, of j] balD(1) [OF assms] o show ?thesis
      by (cases "j \<le> length ts"; cases "j - length ts") (auto simp: dep1_def)
  qed simp
  ultimately show ?thesis
    using balD(1) [OF assms] o by (auto simp: bal_def dep1_def intro: keep_all)
qed

section \<open>Printed expressions are balanced\<close>

lemma bop_str_props [simp]:
  "\<not> is_open (bop_str b)" "\<not> is_close (bop_str b)"
  by (cases b; simp add: is_open_def is_close_def first_char_def)+

lemma is_digit_first_dec: "is_digit (first_char (dec n))"
  using dec_digit [of "hd (dec n)" n] by (cases "dec n") (auto simp: first_char_def)

lemma is_digit_other:
  assumes "is_digit (first_char t)"
  shows "first_char t \<noteq> CHR ''(''" "first_char t \<noteq> CHR '')''" "first_char t \<noteq> CHR ''+''"
    "first_char t \<noteq> CHR ''-''" "first_char t \<noteq> CHR ''*''" "first_char t \<noteq> CHR ''/''"
    "t \<noteq> ''&&''" "t \<noteq> ''==''" "t \<noteq> ''!=''"
  using assms by (auto simp: is_digit_def first_char_def)

lemmas dec_other = is_digit_other [OF is_digit_first_dec]

lemma dec_props [simp]: "\<not> is_open (dec n)" "\<not> is_close (dec n)"
  by (simp_all add: is_open_def is_close_def dec_other)

lemma tok_step_dec: "tok_step i (dec n) s = s"
  by (simp add: tok_step_def dec_other)

lemma bal_dec: "bal l [dec n]"
  by (rule bal_single) (simp_all add: tok_step_dec)

lemma bal_bop: "bal (bop_prec b) [bop_str b]"
  by (rule bal_single) (cases b; simp add: tok_step_def keep_def first_char_def is_open_def is_close_def)+

lemma bal_prefix_op: "bal 3 [''-'']" "bal 4 [''*'']"
  by (rule bal_single; simp add: tok_step_def keep_def first_char_def is_open_def is_close_def)+

lemma bal_if_paren: "bal k ts \<Longrightarrow> bal l (paren (l > k) ts)"
  using bal_paren [of k ts l] bal_mono [of k ts l] by (auto simp: paren_def)

lemma bop_prec_bounds: "1 \<le> bop_prec b" "bop_prec b \<le> 4"
  by (cases b; simp)+

lemma bal_Bin:
  assumes "bal (bop_prec b) xs" "bal (Suc (bop_prec b)) ys"
  shows "bal (bop_prec b) (xs @ bop_str b # ys)"
proof -
  have "bal (bop_prec b) ys"
    using assms(2) bop_prec_bounds [of b] by (intro bal_mono [OF assms(2)]) simp_all
  with bal_append [OF assms(1) bal_append [OF bal_bop]] show ?thesis by simp
qed

lemma bal_pr: "l \<le> 5 \<Longrightarrow> bal l (pr l e)"
proof (induction e arbitrary: l)
  case (Num n)
  show ?case by (simp add: bal_dec)
next
  case (Neg e)
  have "bal 3 (''-'' # pr 5 e)"
    using bal_append [OF bal_prefix_op(1) bal_mono [OF Neg.IH, of 5 3]] by simp
  then show ?case using bal_if_paren [of 3] by simp
next
  case (Deref e)
  have "bal 4 (''*'' # pr 5 e)"
    using bal_append [OF bal_prefix_op(2) bal_mono [OF Deref.IH, of 5 4]] by simp
  then show ?case using bal_if_paren [of 4] by simp
next
  case (Bin b x y)
  have "bal (bop_prec b) (pr (bop_prec b) x @ bop_str b # pr (Suc (bop_prec b)) y)"
    using Bin.IH bop_prec_bounds [of b] by (intro bal_Bin) simp_all
  then show ?case
    using bal_if_paren [of "bop_prec b"] bop_prec_bounds [of b] by simp
qed

lemma pr_nonempty [simp]: "pr l e \<noteq> []"
  by (cases e) (simp_all add: paren_def)

lemma pr_paren: "l \<le> 5 \<Longrightarrow> pr l e = paren (l > prec e) (pr 0 e)"
  by (cases e) (simp_all add: paren_def)

section \<open>The evaluator on printed expressions\<close>

definition ops_init :: "int \<Rightarrow> ops" where
  "ops_init p = \<lparr>ops_n = 0, op1 = p, op2 = p, op3 = p, op4 = p\<rparr>"

lemma scan_ops_eq: "scan_ops below strs p q = scanl p (ops_init p) (strs_between strs p (q - 1))"
  by (simp add: scan_ops_def fold_scan_step ops_init_def)

lemma check_parentheses_wrapped:
  assumes "strs_between strs p q = [''(''] @ ts @ ['')'']" "bal k ts"
  shows "check_parentheses strs p q" "strs_between strs (p + 1) (q - 1) = ts" "p < q"
proof -
  have "nat (q - p + 1) = length ts + 2"
    using arg_cong [OF assms(1), of length] by simp
  then have pq: "p < q" "q - p = int (length ts) + 1" by simp_all
  have "strs_between strs p q = strs ! nat p # strs_between strs (p + 1) (q - 1) @ [strs ! nat q]"
    by (rule strs_between_ends [OF pq(1)])
  with assms(1) have "strs ! nat p = ''(''" "strs ! nat q = '')''"
    and inner: "strs_between strs (p + 1) (q - 1) = ts"
    by auto
  moreover have "paren_count 0 ts = 0"
    using paren_count_nested [of ts 0] bal_prefix [OF assms(2)] balD(1) [OF assms(2)] by simp
  ultimately show "check_parentheses strs p q" "strs_between strs (p + 1) (q - 1) = ts" "p < q"
    using pq(1) by (simp_all add: check_parentheses_def first_char_def)
qed

text \<open>Two balanced parts around an operator are never taken for one parenthesised expression.\<close>

lemma check_parentheses_binary:
  assumes "strs_between strs p q = xs @ t # ys" "bal j xs" "bal k ys" "xs \<noteq> []" "ys \<noteq> []" "dep1 t = 0"
  shows "\<not> check_parentheses strs p q"
proof
  assume chk: "check_parentheses strs p q"
  have "nat (q - p + 1) = length xs + length ys + 1" "0 < length xs" "0 < length ys"
    using arg_cong [OF assms(1), of length] assms(4,5) by simp_all
  then have pq: "p < q" by linarith
  obtain x xs' where x: "xs = x # xs'" using assms(4) by (cases xs) auto
  obtain ys' y where y: "ys = ys' @ [y]" using assms(5) by (cases ys rule: rev_cases) auto
  have "strs_between strs p q = strs ! nat p # strs_between strs (p + 1) (q - 1) @ [strs ! nat q]"
    by (rule strs_between_ends [OF pq])
  with assms(1) x y have inner: "strs_between strs (p + 1) (q - 1) = xs' @ t # ys'"
    and ends: "strs ! nat p = x" "strs ! nat q = y"
    by auto
  from chk ends have "is_open x" "is_close y"
    by (simp_all add: check_parentheses_def is_open_def is_close_def)
  moreover from \<open>is_close y\<close> have "\<not> is_open y" by (simp add: is_open_def is_close_def)
  ultimately have "dep1 x = 1" "dep1 y = - 1" by (simp_all add: dep1_def)
  with x y assms(6) balD(1) [OF assms(2)] balD(1) [OF assms(3)]
  have "depth (t # ys') = 1" by simp
  with paren_count_ge [of "paren_count 0 xs'" "t # ys'"] paren_count_ge [of 0 xs']
  have "1 \<le> paren_count 0 (xs' @ t # ys')" by (simp add: paren_count_append)
  with chk inner show False by (simp add: check_parentheses_def)
qed

lemma strs_between_butlast: "strs_between strs p q = xs \<Longrightarrow> p \<le> q \<Longrightarrow> strs_between strs p (q - 1) = butlast xs"
  using strs_between_snoc [of p q strs] by auto

lemma choose_op_binary:
  assumes "strs_between strs p q = xs @ bop_str b # ys" "bal (bop_prec b) xs"
    "bal (Suc (bop_prec b)) ys" "xs \<noteq> []" "ys \<noteq> []"
  shows "choose_op p (scan_ops below strs p q) = p + int (length xs)"
proof -
  let ?s1 = "scanl p (ops_init p) xs"
  let ?i = "p + int (length xs)"
  have "p \<le> q"
    using arg_cong [OF assms(1), of length] assms(4) by (cases xs) auto
  then have "strs_between strs p (q - 1) = xs @ bop_str b # butlast ys"
    using strs_between_butlast [OF assms(1)] assms(5) by (simp add: butlast_append)
  then have scan: "scan_ops below strs p q =
      scanl (?i + 1) (tok_step ?i (bop_str b) ?s1) (take (length ys - 1) ys)"
    by (simp add: scan_ops_eq scanl_append butlast_conv_take)
  have n: "ops_n ?s1 = 0"
    by (simp add: ops_n_scanl balD(1) [OF assms(2)] ops_init_def)
  have k1: "keep (bop_prec b) (ops_init p) ?s1"
    using bal_all [OF assms(2), of "ops_init p" p] by (simp add: ops_init_def)
  let ?s2 = "tok_step ?i (bop_str b) ?s1"
  have "ops_n ?s2 = 0"
    using n by (simp add: tok_step_def)
  then have k2: "keep (Suc (bop_prec b)) ?s2 (scan_ops below strs p q)"
    using balD(3) [OF assms(3), of ?s2] scan by simp
  have "0 < length xs" using assms(4) by simp
  with k1 k2 n show ?thesis
    by (cases b) (auto simp: keep_def tok_step_def ops_init_def choose_op_def first_char_def
        is_open_def is_close_def)
qed

lemma choose_op_prefix:
  assumes "strs_between strs p q = t # ys" "bal 5 ys" "ys \<noteq> []" "t = ''-'' \<or> t = ''*''"
  shows "choose_op p (scan_ops below strs p q) = p"
proof -
  have "p \<le> q"
    using arg_cong [OF assms(1), of length] by auto
  then have "strs_between strs p (q - 1) = t # butlast ys"
    using strs_between_butlast [OF assms(1)] assms(3) by simp
  then have scan: "scan_ops below strs p q =
      scanl (p + 1) (tok_step p t (ops_init p)) (take (length ys - 1) ys)"
    by (simp add: scan_ops_eq butlast_conv_take)
  have "ops_n (tok_step p t (ops_init p)) = 0"
    using assms(4) by (auto simp: tok_step_def ops_init_def first_char_def is_open_def is_close_def)
  then have "keep 5 (tok_step p t (ops_init p)) (scan_ops below strs p q)"
    using balD(3) [OF assms(2), of "tok_step p t (ops_init p)"] scan by simp
  with assms(4) show ?thesis
    by (auto simp: keep_def tok_step_def ops_init_def choose_op_def first_char_def is_open_def is_close_def)
qed

lemma apply_op_bop: "apply_op (first_char (bop_str b)) = bop_sem b"
  by (intro ext) (cases b; simp add: apply_op_def first_char_def b2w_def)

lemma apply_op_negate: "apply_op (CHR ''-'') 0 = (\<lambda>v. Inr (- v))"
  by (intro ext) (simp add: apply_op_def)

lemma strs_between_nth: "strs_between strs p q = t # ys \<Longrightarrow> strs ! nat p = t"
  by (cases "p \<le> q") (simp_all add: strs_between_Cons, simp add: strs_between_def)

lemma eval_binary:
  assumes "strs_between strs p q = xs @ bop_str b # ys" "bal (bop_prec b) xs"
    "bal (Suc (bop_prec b)) ys" "xs \<noteq> []" "ys \<noteq> []"
  shows "eval m below strs p q =
    bindR (eval m below strs p (p + int (length xs) - 1)) (\<lambda>v.
    bindR (eval m below strs (p + int (length xs) + 1) q) (bop_sem b v))"
proof -
  have len: "0 < length xs" "0 < length ys" using assms(4,5) by simp_all
  have "nat (q - p + 1) = length xs + length ys + 1"
    using arg_cong [OF assms(1), of length] by simp
  with len have "p < q" by linarith
  moreover have "\<not> check_parentheses strs p q"
    using check_parentheses_binary [OF assms(1,2,3,4,5)] by (simp add: dep1_def)
  moreover have "strs ! nat (p + int (length xs)) = bop_str b"
    using strs_between_nth [OF strs_between_appendD(2) [OF assms(1)]] .
  ultimately show ?thesis
    using choose_op_binary [OF assms, of below] len
    by (subst eval.simps) (simp add: Let_def apply_op_bop)
qed

lemma eval_Nil: "q < p \<Longrightarrow> eval m below strs p q = Inr 0"
  by (subst eval.simps) simp

lemma eval_prefix:
  assumes "strs_between strs p q = t # ys" "bal 5 ys" "ys \<noteq> []" "t = ''-'' \<or> t = ''*''"
  shows "eval m below strs p q =
    (if t = ''*'' then bindR (eval m below strs (p + 1) q)
         (\<lambda>a. map_sum id ucast (paddr_read m (ucast a) 4))
     else bindR (eval m below strs (p + 1) q) (\<lambda>v. Inr (- v)))"
proof -
  have len: "0 < length ys" "nat (q - p + 1) = Suc (length ys)"
    using assms(3) arg_cong [OF assms(1), of length] by simp_all
  then have "p < q" by linarith
  moreover have "strs ! nat p = t" by (rule strs_between_nth [OF assms(1)])
  moreover from this have "\<not> check_parentheses strs p q"
    using assms(4) by (auto simp: check_parentheses_def first_char_def)
  ultimately show ?thesis
    using assms(4) choose_op_prefix [OF assms, of below]
    by (subst eval.simps) (auto simp: Let_def first_char_def eval_Nil apply_op_negate)
qed

lemma eval_paren_lift:
  assumes "\<And>p q. strs_between strs p q = pr 0 e \<Longrightarrow> eval m below strs p q = sem m e"
    "strs_between strs p q = pr l e" "l \<le> 5"
  shows "eval m below strs p q = sem m e"
proof (cases "l > prec e")
  case True
  with assms(2,3) have wrap: "strs_between strs p q = [''(''] @ pr 0 e @ ['')'']"
    by (simp add: pr_paren [of l] paren_def)
  have "bal 0 (pr 0 e)" by (simp add: bal_pr)
  note chk = check_parentheses_wrapped [OF wrap this]
  from assms(1) [OF chk(2)] chk(1,3) show ?thesis
    by (subst eval.simps) simp
next
  case False
  with assms(2,3) have "strs_between strs p q = pr 0 e"
    by (simp add: pr_paren [of l] paren_def)
  then show ?thesis by (rule assms(1))
qed

text \<open>One step of the induction below, for a sign or a dereference and for a binary operator.\<close>

lemma eval_pr_prefix:
  assumes "\<And>p q. strs_between strs p q = pr 5 e \<Longrightarrow> eval m below strs p q = sem m e"
    "strs_between strs p q = t # pr 5 e" "t = ''-'' \<or> t = ''*''"
  shows "eval m below strs p q = sem m (if t = ''-'' then Neg e else Deref e)"
proof -
  have "strs_between strs (p + 1) q = pr 5 e" using strs_between_appendD(2) [of strs p q "[t]"] assms(2) by simp
  from assms(1) [OF this] show ?thesis using eval_prefix [OF assms(2) bal_pr _ assms(3)] assms(3) by auto
qed

lemma eval_pr_binary:
  assumes "\<And>p q. strs_between strs p q = pr (bop_prec b) x \<Longrightarrow> eval m below strs p q = sem m x"
    "\<And>p q. strs_between strs p q = pr (Suc (bop_prec b)) y \<Longrightarrow> eval m below strs p q = sem m y"
    "strs_between strs p q = pr 0 (Bin b x y)"
  shows "eval m below strs p q = sem m (Bin b x y)"
proof -
  let ?xs = "pr (bop_prec b) x" and ?ys = "pr (Suc (bop_prec b)) y"
  have lv: "bop_prec b \<le> 5" "Suc (bop_prec b) \<le> 5" using bop_prec_bounds [of b] by simp_all
  have s: "strs_between strs p q = ?xs @ bop_str b # ?ys"
    using assms(3) bop_prec_bounds [of b] by (simp add: paren_def)
  have "eval m below strs p (p + int (length ?xs) - 1) = sem m x"
    using assms(1) strs_between_appendD(1) [OF s] by blast
  moreover have "strs_between strs (p + int (length ?xs) + 1) q = ?ys"
    using strs_between_appendD(2) [of strs p q "?xs @ [bop_str b]" ?ys] s by (simp add: algebra_simps)
  then have "eval m below strs (p + int (length ?xs) + 1) q = sem m y" by (rule assms(2))
  ultimately show ?thesis using eval_binary [OF s bal_pr [OF lv(1)] bal_pr [OF lv(2)]] by simp
qed

lemma eval_pr:
  "l \<le> 5 \<Longrightarrow> strs_between strs p q = pr l e \<Longrightarrow> eval m below strs p q = sem m e"
proof (induction e arbitrary: l p q)
  case (Num n)
  have "unat n < 2 ^ 64" using unsigned_less [of n, where 'a = nat] by simp
  moreover have "p = q"
    using arg_cong [OF Num(2), of length] by simp
  ultimately show ?case
    using strs_between_nth [of strs p q] Num(2)
    by (subst eval.simps) (simp add: strtoul0_dec ucast_ucast_id)
next
  case (Neg e)
  have ih: "strs_between strs p q = pr 5 e \<Longrightarrow> eval m below strs p q = sem m e" for p q by (rule Neg.IH [of 5]) simp
  have "eval m below strs p q = sem m (Neg e)" if "strs_between strs p q = pr 0 (Neg e)" for p q
    using eval_pr_prefix [OF ih, of p q "''-''"] that by (simp add: paren_def)
  then show ?case by (rule eval_paren_lift [OF _ Neg.prems(2,1)])
next
  case (Deref e)
  have ih: "strs_between strs p q = pr 5 e \<Longrightarrow> eval m below strs p q = sem m e" for p q by (rule Deref.IH [of 5]) simp
  have "eval m below strs p q = sem m (Deref e)" if "strs_between strs p q = pr 0 (Deref e)" for p q
    using eval_pr_prefix [OF ih, of p q "''*''"] that by (simp add: paren_def)
  then show ?case by (rule eval_paren_lift [OF _ Deref.prems(2,1)])
next
  case (Bin b x y)
  have lv: "bop_prec b \<le> 5" "Suc (bop_prec b) \<le> 5" using bop_prec_bounds [of b] by simp_all
  have "eval m below strs p q = sem m (Bin b x y)" if "strs_between strs p q = pr 0 (Bin b x y)" for p q
    by (rule eval_pr_binary [OF Bin.IH(1) [OF lv(1)] Bin.IH(2) [OF lv(2)] that])
  then show ?case by (rule eval_paren_lift [OF _ Bin.prems(2,1)])
qed

section \<open>The tokenizer on printed expressions\<close>

text \<open>The text of a token list: every token followed by one blank.\<close>

definition spaced :: "string list \<Rightarrow> string" where
  "spaced ts = concat (map (\<lambda>t. t @ '' '') ts)"

lemma spaced_simps [simp]: "spaced [] = []" "spaced (t # ts) = t @ CHR '' '' # spaced ts"
  by (simp_all add: spaced_def)

definition tok_ty :: "string \<Rightarrow> tk" where
  "tok_ty t = (if t = ''=='' then TK_EQ else if t = ''!='' then TK_NEQ else if t = ''&&'' then TK_AND
               else if is_digit (first_char t) then TK_NUM else TK_CHAR (first_char t))"

definition printable :: "string \<Rightarrow> bool" where
  "printable t \<longleftrightarrow> t \<in> {''('', '')'', ''+'', ''-'', ''*'', ''/'', ''=='', ''!='', ''&&''}
     \<or> (\<exists>n :: u32. t = dec (unat n))"

lemma length_dec: "n < 10 ^ k \<Longrightarrow> 0 < k \<Longrightarrow> length (dec n) \<le> k"
proof (induction k arbitrary: n)
  case (Suc k)
  show ?case
  proof (cases "n < 10")
    case True
    then show ?thesis by (subst digits_of.simps) simp
  next
    case False
    with Suc.prems have "n div 10 < 10 ^ k" "0 < k" by (auto intro!: gr0I)
    with Suc.IH False show ?thesis by (subst digits_of.simps) simp
  qed
qed simp

lemma length_dec_u32: "length (dec (unat (n :: u32))) \<le> 10"
  using unsigned_less [of n, where 'a = nat] by (intro length_dec) simp_all

lemma printable_length: "printable t \<Longrightarrow> length t < 32"
  by (auto simp: printable_def intro: order.strict_trans1 [OF length_dec_u32])

lemma printable_symbol [simp]:
  "printable ''(''" "printable '')''" "printable ''-''" "printable ''*''" "printable (bop_str b)"
  by (simp_all add: printable_def) (cases b; simp)

lemma printable_dec [simp]: "printable (dec (unat (n :: u32)))"
  by (auto simp: printable_def)

lemma printable_paren: "(\<And>t. t \<in> set ts \<Longrightarrow> printable t) \<Longrightarrow> t \<in> set (paren c ts) \<Longrightarrow> printable t"
  by (auto simp: paren_def split: if_splits)

lemma printable_pr: "t \<in> set (pr l e) \<Longrightarrow> printable t"
proof (induction e arbitrary: l t)
  case (Num n)
  then show ?case by simp
next
  case (Neg e)
  from Neg.prems show ?case unfolding pr.simps by (rule printable_paren [rotated]) (auto dest: Neg.IH)
next
  case (Deref e)
  from Deref.prems show ?case unfolding pr.simps by (rule printable_paren [rotated]) (auto dest: Deref.IH)
next
  case (Bin b x y)
  from Bin.prems show ?case unfolding pr.simps by (rule printable_paren [rotated]) (auto dest: Bin.IH)
qed

lemma match_simps:
  "match_lit (c # cs) (x # xs) = (if c = x then map_option Suc (match_lit cs xs) else None)"
  "match_lit [] xs = Some 0"
  "match_many P (x # xs) = (if P x then Some (Suc (length (takeWhile P xs))) else None)"
  by (auto simp: match_lit_def match_many_def Let_def)

lemma find_rule_symbol:
  assumes "t \<in> {''('', '')'', ''+'', ''-'', ''*'', ''/'', ''=='', ''!='', ''&&''}"
  shows "find_rule rules (t @ CHR '' '' # rest) = Some (tok_ty t, length t)"
  using assms
  by (elim insertE emptyE)
     (simp_all add: rules_def match_simps match_hex_def match_reg_def tok_ty_def first_char_def
        is_digit_def split: list.splits)

lemma digit_char_0: "digit_char 0 = CHR ''0''"
  by code_simp

lemma find_rule_number: "find_rule rules (dec n @ CHR '' '' # rest) = Some (TK_NUM, length (dec n))"
proof -
  obtain c cs where c: "dec n = c # cs" by (cases "dec n") auto
  have dig: "is_digit c" using dec_digit [of c n] c by simp
  have "match_hex (dec n @ CHR '' '' # rest) = None"
  proof (cases "c = CHR ''0''")
    case True
    with dec_first [of n] c have "n = 0" by auto
    then have "dec n = ''0''" by (simp add: digits_of.simps digit_char_0)
    then show ?thesis by (simp add: match_hex_def)
  next
    case False
    with c show ?thesis by (simp add: match_hex_def split: list.splits)
  qed
  moreover have "takeWhile is_digit (cs @ CHR '' '' # rest) = cs"
    using dec_digit [of _ n] c by (subst takeWhile_append2) (auto simp: is_digit_def)
  moreover have "match_reg (c # r) = None" for r
    using dig by (auto simp: match_reg_def is_digit_def split: list.splits)
  moreover have "c \<noteq> CHR '' ''" using dig by (auto simp: is_digit_def)
  moreover have "\<forall>x\<in>set ''+-*/()=!&''. x \<noteq> c" using dig by (auto simp: is_digit_def)
  ultimately show ?thesis
    using dig by (simp add: c rules_def match_simps)
qed

lemma find_rule_printable:
  assumes "printable t"
  shows "find_rule rules (t @ CHR '' '' # rest) = Some (tok_ty t, length t)"
proof (cases "t \<in> {''('', '')'', ''+'', ''-'', ''*'', ''/'', ''=='', ''!='', ''&&''}")
  case True
  then show ?thesis by (rule find_rule_symbol)
next
  case False
  with assms obtain n :: u32 where n: "t = dec (unat n)" by (auto simp: printable_def)
  then have "tok_ty t = TK_NUM" by (simp add: tok_ty_def dec_other is_digit_first_dec)
  with n find_rule_number show ?thesis by simp
qed

lemma printable_first: "printable t \<Longrightarrow> \<exists>c cs. t = c # cs \<and> c \<noteq> CHR '' ''"
proof (cases "t \<in> {''('', '')'', ''+'', ''-'', ''*'', ''/'', ''=='', ''!='', ''&&''}")
  case False
  assume "printable t"
  with False obtain n :: u32 where n: "t = dec (unat n)" by (auto simp: printable_def)
  obtain c cs where c: "dec (unat n) = c # cs" by (cases "dec (unat n)") auto
  with is_digit_first_dec [of "unat n"] have "c \<noteq> CHR '' ''"
    by (auto simp: first_char_def is_digit_def)
  with n c show ?thesis by blast
qed auto

lemma find_rule_blank:
  assumes "\<forall>t\<in>set ts. printable t"
  shows "find_rule rules (CHR '' '' # spaced ts) = Some (TK_NOTYPE, 1)"
proof -
  have "\<forall>xs. spaced ts \<noteq> CHR '' '' # xs"
    using assms printable_first by (cases ts) fastforce+
  then show ?thesis
    by (simp add: rules_def match_simps match_hex_def match_reg_def split: list.splits)
qed

lemma tok_ty_not_notype: "tok_ty t \<noteq> TK_NOTYPE" "tok_ty t \<noteq> TK_H" "tok_ty t \<noteq> TK_REG"
  by (simp_all add: tok_ty_def)

lemma make_token_loop_spaced:
  assumes "\<forall>t\<in>set ts. printable t" "length acc + length ts \<le> 32"
  shows "make_token_loop acc (spaced ts) = Inr (Some (acc @ map (\<lambda>t. (tok_ty t, t)) ts))"
  using assms
proof (induction ts arbitrary: acc)
  case Nil
  show ?case by (subst make_token_loop.simps) simp
next
  case (Cons t ts)
  let ?acc = "acc @ [(tok_ty t, t)]"
  have pt: "printable t" using Cons.prems by simp
  have "make_token_loop acc (spaced (t # ts)) = make_token_loop ?acc (CHR '' '' # spaced ts)"
    using Cons.prems find_rule_printable [OF pt, of "spaced ts"] printable_length [OF pt]
    by (subst make_token_loop.simps) (simp add: tok_ty_not_notype)
  also have "\<dots> = make_token_loop ?acc (spaced ts)"
    using Cons.prems find_rule_blank [of ts] by (subst make_token_loop.simps) simp
  also have "\<dots> = Inr (Some (?acc @ map (\<lambda>t. (tok_ty t, t)) ts))"
    using Cons by simp
  finally show ?case by simp
qed

section \<open>From text to value\<close>

definition es_wf :: "expr_state \<Rightarrow> bool" where
  "es_wf s \<longleftrightarrow> length (es_str s) = 32"

lemma convert_step_plain:
  assumes "fst t \<noteq> TK_H" "fst t \<noteq> TK_REG"
  shows "convert_step gpr pc i t s = s\<lparr>es_str := (es_str s)[i := P_tok i]\<rparr>"
  using assms by (auto simp: convert_step_def split: tk.splits)

lemma convert_loop_plain:
  assumes "\<forall>t\<in>set toks. fst t \<noteq> TK_H \<and> fst t \<noteq> TK_REG" "i + length toks \<le> length (es_str s)"
    "take i (es_str s) = map P_tok [0..<i]"
  shows "length (es_str (convert_loop gpr pc i toks s)) = length (es_str s)
    \<and> take (i + length toks) (es_str (convert_loop gpr pc i toks s)) = map P_tok [0..<i + length toks]"
  using assms
proof (induction toks arbitrary: i s)
  case (Cons t toks)
  let ?s = "s\<lparr>es_str := (es_str s)[i := P_tok i]\<rparr>"
  have "take (Suc i) (es_str ?s) = map P_tok [0..<Suc i]"
    using Cons.prems by (simp add: take_Suc_conv_app_nth)
  with Cons.prems Cons.IH [of "Suc i" ?s] show ?case
    by (simp add: convert_step_plain)
qed simp

lemma strs_between_all: "strs_between ts 0 (int (length ts) - 1) = ts"
  by (rule nth_equalityI) (auto simp: strs_between_def nth_upto)

lemma expr_printed:
  assumes "es_wf s" "length (pr 0 e) \<le> 32"
  shows "\<exists>s'. es_wf s' \<and>
    expr m below gpr pc s (spaced (pr 0 e)) = bindR (sem m e) (\<lambda>v. Inr (s', Some v))"
proof -
  let ?ts = "pr 0 e"
  let ?toks = "map (\<lambda>t. (tok_ty t, t)) ?ts"
  let ?s' = "convert_loop gpr pc 0 ?toks s"
  have tok: "make_token (spaced ?ts) = Inr (Some ?toks)"
    using make_token_loop_spaced [of ?ts "[]"] printable_pr assms(2) by (auto simp: make_token_def)
  have conv: "length (es_str ?s') = 32" "take (length ?ts) (es_str ?s') = map P_tok [0..<length ?ts]"
    using convert_loop_plain [of ?toks 0 s gpr pc] assms by (auto simp: es_wf_def tok_ty_not_notype)
  have strs: "map (deref_str ?toks ?s') (take (length ?toks) (es_str ?s')) = map Some ?ts"
    using conv(2) by (auto simp: deref_str_def intro!: nth_equalityI)
  have "eval m below ?ts 0 (int (length ?ts) - 1) = sem m e"
    using eval_pr [of 0 ?ts 0 "int (length ?ts) - 1" e m below] strs_between_all by simp
  with tok strs conv(1) show ?thesis
    by (intro exI [of _ ?s'])
       (simp only: expr_def es_wf_def Let_def bindR_simps option.case strs, simp add: comp_def image_iff)
qed

section \<open>The shared conversion buffers\<close>

definition hex_text :: "token \<Rightarrow> string" where
  "hex_text t = dec (unat (word_of_int (strtol0 (snd t)) :: u32))"

lemma convert_step_frame:
  "length (es_str (convert_step gpr pc i t s)) = length (es_str s)"
  "j \<noteq> i \<Longrightarrow> es_str (convert_step gpr pc i t s) ! j = es_str s ! j"
  "es_s1 (convert_step gpr pc i t s) = (if fst t = TK_H then hex_text t else es_s1 s)"
  by (simp_all add: convert_step_def hex_text_def split: tk.splits option.splits)

lemma convert_loop_frame:
  "length (es_str (convert_loop gpr pc i toks s)) = length (es_str s)
   \<and> (\<forall>j<i. es_str (convert_loop gpr pc i toks s) ! j = es_str s ! j)"
  by (induction toks arbitrary: i s) (simp_all add: convert_step_frame)

lemma convert_loop_hex_pointer:
  assumes "k < length toks" "fst (toks ! k) = TK_H" "i + length toks \<le> length (es_str s)"
  shows "es_str (convert_loop gpr pc i toks s) ! (i + k) = P_s1"
  using assms
proof (induction toks arbitrary: i s k)
  case (Cons t toks)
  show ?case
  proof (cases k)
    case 0
    with Cons.prems convert_loop_frame [of gpr pc "Suc i" toks "convert_step gpr pc i t s"] show ?thesis
      by (simp add: convert_step_def)
  next
    case (Suc k')
    with Cons.prems Cons.IH [of k' "Suc i" "convert_step gpr pc i t s"] show ?thesis
      by (simp add: convert_step_frame)
  qed
qed simp

lemma convert_loop_s1:
  "es_s1 (convert_loop gpr pc i toks s) =
     (let hs = filter (\<lambda>t. fst t = TK_H) toks in if hs = [] then es_s1 s else hex_text (last hs))"
  by (induction toks arbitrary: i s) (simp_all add: convert_step_frame Let_def)

section \<open>Properties\<close>

text \<open>
  C1. The expression evaluator is correct on printed expressions: for every expression tree of
  decimal literals, unary minus, dereference and the binary operators whose fully printed form (with
  the minimal parentheses of the source's precedence) has at most 32 tokens, tokenizing, converting
  and evaluating the text returns what the tree means: left-associative operators, 32-bit
  wrap-around, and the memory fault or division trap of the tree when it has one.
\<close>

theorem expr_correct:
  assumes "es_wf s" and "length (pr 0 e) \<le> 32"
  shows "\<exists>s'. es_wf s' \<and>
    expr m below gpr pc s (spaced (pr 0 e)) = bindR (sem m e) (\<lambda>v. Inr (s', Some v))"
  using assms by (rule expr_printed)

theorem expr_correct_witness:
  "\<exists>s'. es_wf s' \<and> expr pmem_init CHR ''x'' (replicate 33 0) 0 expr_state_init
     (spaced (pr 0 (Bin B_sub (Bin B_sub (Num 9) (Num 4)) (Bin B_mul (Num 2) (Bin B_add (Num 1) (Num 3))))))
   = Inr (s', Some (- 3))"
proof -
  let ?e = "Bin B_sub (Bin B_sub (Num 9) (Num 4)) (Bin B_mul (Num 2) (Bin B_add (Num 1) (Num 3)))"
  have "es_wf expr_state_init" by (simp add: es_wf_def expr_state_init_def)
  moreover have "length (pr 0 ?e) \<le> 32" by (simp add: paren_def)
  moreover have "sem pmem_init ?e = Inr (- 3)" by (simp add: apply_op_def)
  ultimately show ?thesis using expr_correct [of expr_state_init ?e pmem_init "CHR ''x''" "replicate 33 0" 0] by simp
qed

text \<open>
  Every hexadecimal literal of an expression is evaluated as the last hexadecimal literal of that
  expression: \<open>expr\<close> keeps only a pointer to its one static buffer per literal, and the buffer holds
  the value converted last.
\<close>

theorem hex_literals_share_buffer:
  assumes "k < length toks" and "fst (toks ! k) = TK_H" and "length toks \<le> length (es_str s)"
  shows "let s' = convert_loop gpr pc 0 toks s
         in deref_str toks s' (es_str s' ! k)
            = Some (hex_text (last (filter (\<lambda>t. fst t = TK_H) toks)))"
proof -
  have "filter (\<lambda>t. fst t = TK_H) toks \<noteq> []"
    using assms(1,2) nth_mem by (fastforce simp: filter_empty_conv)
  with assms convert_loop_hex_pointer [of k toks 0 s gpr pc] show ?thesis
    by (simp add: deref_str_def convert_loop_s1 Let_def)
qed

theorem hex_literals_share_buffer_witness:
  "let toks = [(TK_H, ''0x10''), (TK_CHAR CHR ''+'', ''+''), (TK_H, ''0x20'')];
       s' = convert_loop (replicate 33 0) 0 0 toks expr_state_init
   in deref_str toks s' (es_str s' ! 0) = Some (hex_text (TK_H, ''0x20''))"
  using hex_literals_share_buffer [of 0 "[(TK_H, ''0x10''), (TK_CHAR CHR ''+'', ''+''), (TK_H, ''0x20'')]"
    expr_state_init "replicate 33 0" 0]
  by (simp add: expr_state_init_def)

text \<open>
  Looking up a register by its name in the debugger's table returns that register's value, and
  \<open>pc\<close> the program counter, for every entry of the table except two: the name of the zero register
  as the table spells it, and the last register \<open>t6\<close>, which the search loop never reaches.
\<close>

theorem register_lookup:
  assumes "i < 33"
  shows "isa_reg_str2val gpr pc (regs ! i) =
    (if i = 0 \<or> i = 31 then None else if i = 32 then Some pc else Some (gpr ! i))"
proof -
  have "(regs ! i = ''pc'') = (i = 32)"
    using nth_eq_iff_index_eq [OF distinct_regs, of i 32] assms by (simp add: regs_def)
  moreover have "''0'' \<notin> set regs" by (simp add: regs_def)
  with assms have "regs ! i \<noteq> ''0''" using nth_mem [of i regs] by (metis length_regs)
  moreover have "reg_search (regs ! i) gpr [1..<31] = (if 1 \<le> i \<and> i < 31 then Some (gpr ! i) else None)"
    using assms by (subst reg_search_nth) auto
  ultimately have "isa_reg_str2val gpr pc (regs ! i) =
      (if i = 32 then Some pc else if 1 \<le> i \<and> i < 31 then Some (gpr ! i) else None)"
    by (simp only: isa_reg_str2val_def if_False)
  with assms show ?thesis by simp
qed

theorem register_lookup_witness:
  "isa_reg_str2val (map of_nat [0..<33]) 7 ''a0'' = Some 10
   \<and> isa_reg_str2val (map of_nat [0..<33]) 7 ''t6'' = None"
  using register_lookup [of 10 "map of_nat [0..<33]" 7] register_lookup [of 31 "map of_nat [0..<33]" 7]
  by (simp add: regs_def)

end
