(* ===== verification/Regex_Rules.thy ===== *)
theory Regex_Rules
  imports Expr_Eval
begin

text \<open>
  The rule table of \<open>src/sim/csrc/expr.cpp\<close> as it is written, a list of POSIX extended regular expressions,
  and \<open>init_regex\<close>, which compiles them. The library functions \<open>regcomp\<close> and \<open>regexec\<close> are modelled for the
  syntax the table uses: ordinary and escaped characters, bracket expressions of ranges, \<open>+\<close> and bounds. A
  closing parenthesis without an opening one is an ordinary character. The property shows that the matchers
  the tokenizer is modelled with are the longest matches of these expressions.
\<close>

section \<open>Regular expressions\<close>

text \<open>An atom is a list of character ranges; a piece is an atom with the least and the greatest number of
  repetitions, where no greatest number means no bound.\<close>

type_synonym atom = "(char \<times> char) list"
type_synonym piece = "atom \<times> nat \<times> nat option"

definition in_atom :: "atom \<Rightarrow> char \<Rightarrow> bool" where
  "in_atom a c \<longleftrightarrow> list_ex (\<lambda>(l, h). (of_char l :: nat) \<le> of_char c \<and> (of_char c :: nat) \<le> of_char h) a"

definition within :: "nat option \<Rightarrow> nat \<Rightarrow> bool" where
  "within hi k \<longleftrightarrow> (case hi of None \<Rightarrow> True | Some h \<Rightarrow> k \<le> h)"

text \<open>All lengths of a prefix that the pieces match, and the longest of them.\<close>

primrec re_lens :: "piece list \<Rightarrow> string \<Rightarrow> nat list" where
  "re_lens [] s = [0]"
| "re_lens (p # ps) s =
     (case p of (a, lo, hi) \<Rightarrow>
      concat (map (\<lambda>k. map ((+) k) (re_lens ps (drop k s)))
        (filter (\<lambda>k. lo \<le> k \<and> within hi k) [0..<Suc (length (takeWhile (in_atom a) s))])))"

definition regexec :: "piece list \<Rightarrow> string \<Rightarrow> nat option" where
  "regexec ps s = (let ls = re_lens ps s in if ls = [] then None else Some (Max (set ls)))"

text \<open>The language of the pieces, and that \<open>regexec\<close> finds the longest prefix in it.\<close>

inductive in_lang :: "piece list \<Rightarrow> string \<Rightarrow> bool" where
  lang_end: "in_lang [] []"
| lang_piece: "list_all (in_atom a) u \<Longrightarrow> lo \<le> length u \<Longrightarrow> within hi (length u) \<Longrightarrow> in_lang ps v \<Longrightarrow>
     in_lang ((a, lo, hi) # ps) (u @ v)"

inductive_simps in_lang_end [simp]: "in_lang [] w"
inductive_simps in_lang_piece: "in_lang ((a, lo, hi) # ps) w"

lemma le_takeWhile: "k \<le> length (takeWhile P s) \<longleftrightarrow> k \<le> length s \<and> list_all P (take k s)"
proof (induction s arbitrary: k)
  case (Cons c s) then show ?case by (cases k) auto
qed simp

lemma re_lens_lang: "k \<in> set (re_lens ps s) \<longleftrightarrow> k \<le> length s \<and> in_lang ps (take k s)"
proof (induction ps arbitrary: s k)
  case (Cons p ps)
  obtain a lo hi where p: "p = (a, lo, hi)" by (cases p)
  have "k \<in> set (re_lens (p # ps) s) \<longleftrightarrow> (\<exists>j m. k = j + m \<and> j \<le> length s \<and> list_all (in_atom a) (take j s) \<and>
      lo \<le> j \<and> within hi j \<and> m \<le> length s - j \<and> in_lang ps (take m (drop j s)))"
    by (auto simp: p Cons.IH less_Suc_eq_le le_takeWhile simp del: upt_Suc) blast
  also have "\<dots> \<longleftrightarrow> k \<le> length s \<and> in_lang (p # ps) (take k s)" (is "?L \<longleftrightarrow> ?R")
  proof
    assume ?L
    then obtain j m where jm: "k = j + m" "j \<le> length s" "list_all (in_atom a) (take j s)" "lo \<le> j"
      "within hi j" "m \<le> length s - j" "in_lang ps (take m (drop j s))" by blast
    then show ?R using lang_piece [of a "take j s" lo hi ps "take m (drop j s)"] by (simp add: p take_add)
  next
    assume ?R
    then obtain u v where uv: "take k s = u @ v" "list_all (in_atom a) u" "lo \<le> length u"
      "within hi (length u)" "in_lang ps v" and k: "k \<le> length s" by (auto simp: p in_lang_piece)
    have len: "k = length u + length v" using uv(1) k by (metis length_append length_take min.absorb2)
    have "s = u @ v @ drop k s" using uv(1) by (metis append.assoc append_take_drop_id)
    then have "take (length u) s = u" "take (length v) (drop (length u) s) = v"
      by (metis append_eq_conv_conj)+
    then show ?L using uv len k by (intro exI [of _ "length u"] exI [of _ "length v"]) simp
  qed
  finally show ?case .
qed auto

definition longest_prefix :: "piece list \<Rightarrow> string \<Rightarrow> nat \<Rightarrow> bool" where
  "longest_prefix ps s n \<longleftrightarrow>
     n \<le> length s \<and> in_lang ps (take n s) \<and> (\<forall>m \<le> length s. in_lang ps (take m s) \<longrightarrow> m \<le> n)"

theorem regexec_longest: "regexec ps s = Some n \<longleftrightarrow> longest_prefix ps s n"
proof -
  have "regexec ps s = Some n \<longleftrightarrow> n \<in> set (re_lens ps s) \<and> (\<forall>m \<in> set (re_lens ps s). m \<le> n)"
    using Max_eq_iff [of "set (re_lens ps s)" n] by (auto simp: regexec_def Let_def)
  then show ?thesis by (auto simp: re_lens_lang longest_prefix_def)
qed

theorem regexec_none: "regexec ps s = None \<longleftrightarrow> (\<forall>m \<le> length s. \<not> in_lang ps (take m s))"
  using re_lens_lang [of _ ps s] by (auto simp: regexec_def Let_def) (metis list.set_sel(1))

section \<open>Compiling\<close>

fun parse_ranges :: "string \<Rightarrow> (atom \<times> string) option" where
  "parse_ranges (l # m # h # s) =
     (if l = CHR '']'' then Some ([], m # h # s)
      else if m = CHR ''-'' then map_option (\<lambda>(a, r). ((l, h) # a, r)) (parse_ranges s)
      else map_option (\<lambda>(a, r). ((l, l) # a, r)) (parse_ranges (m # h # s)))"
| "parse_ranges (l # s) =
     (if l = CHR '']'' then Some ([], s) else map_option (\<lambda>(a, r). ((l, l) # a, r)) (parse_ranges s))"
| "parse_ranges [] = None"

definition parse_atom :: "string \<Rightarrow> (atom \<times> string) option" where
  "parse_atom s = (case s of
      [] \<Rightarrow> None
    | c # r \<Rightarrow>
        if c = CHR 0x5C then (case r of e # r' \<Rightarrow> Some ([(e, e)], r') | [] \<Rightarrow> None)
        else if c = CHR ''['' then parse_ranges r
        else if c \<in> set ''.^$*+?{|('' then None
        else Some ([(c, c)], r))"

text \<open>The repetition after an atom: \<open>+\<close>, a bound with two numbers, or none.\<close>

definition parse_bound :: "string \<Rightarrow> (nat \<times> nat option) \<times> string" where
  "parse_bound s = (case s of
      c # r \<Rightarrow>
        if c = CHR ''+'' then ((1, None), r)
        else if c = CHR ''{'' then
          (let lo = takeWhile is_digit r; r1 = drop (Suc (length lo)) r; hi = takeWhile is_digit r1 in
           ((digits_value 10 0 lo, Some (digits_value 10 0 hi)), drop (Suc (length hi)) r1))
        else ((1, Some 1), s)
    | [] \<Rightarrow> ((1, Some 1), s))"

lemma parse_ranges_length: "parse_ranges s = Some (a, r) \<Longrightarrow> length r < length s"
  by (induction s arbitrary: a r rule: parse_ranges.induct) (fastforce split: if_splits)+

lemma parse_atom_length: "parse_atom s = Some (a, r) \<Longrightarrow> length r < length s"
  by (auto simp: parse_atom_def split: list.splits if_splits dest: parse_ranges_length)

lemma parse_bound_length: "length (snd (parse_bound s)) \<le> length s"
  by (auto simp: parse_bound_def Let_def split: list.splits)

function regcomp :: "string \<Rightarrow> piece list option" where
  "regcomp s =
     (if s = [] then Some []
      else case parse_atom s of
             None \<Rightarrow> None
           | Some (a, r) \<Rightarrow> (case parse_bound r of (b, r') \<Rightarrow> map_option (\<lambda>ps. (a, b) # ps) (regcomp r')))"
  by pat_completeness auto
termination
proof (relation "measure length")
  fix s p a r q b r'
  assume "s \<noteq> []" "parse_atom s = Some p" "(a, r) = p" "(b, r') = parse_bound r"
  then show "(r', s) \<in> measure length"
    using parse_atom_length [of s a r] parse_bound_length [of r] by (auto dest: sym)
qed simp

declare regcomp.simps [simp del]

section \<open>The rule table\<close>

definition rule_table :: "(string \<times> tk) list" where
  "rule_table =
    [(''0[xX][A-Za-z0-9]{1,8}'', TK_H),
     (CHR 0x5C # ''$[a-z0-9]{1,2}'', TK_REG),
     ('' +'', TK_NOTYPE),
     (CHR 0x5C # ''+'', TK_CHAR (CHR ''+'')),
     (''=='', TK_EQ),
     (''!='', TK_NEQ),
     (''&&'', TK_AND),
     (''[0-9]+'', TK_NUM),
     (''-'', TK_CHAR (CHR ''-'')),
     (CHR 0x5C # ''*'', TK_CHAR (CHR ''*'')),
     (''/'', TK_CHAR (CHR ''/'')),
     (CHR 0x5C # ''('', TK_CHAR (CHR ''('')),
     ('')'', TK_CHAR (CHR '')''))]"

text \<open>\<open>init_regex\<close>: the compiled expressions, and the patterns that were reported because they did not compile.\<close>

definition init_regex :: "(string \<times> tk) list \<Rightarrow> piece list option list \<times> string list" where
  "init_regex rs = (map (\<lambda>(p, _). regcomp p) rs, map fst (filter (\<lambda>(p, _). regcomp p = None) rs))"

section \<open>Longest matches\<close>

lemma in_atom_char [simp]: "in_atom [(c, c)] x \<longleftrightarrow> x = c"
proof -
  have "(of_char c :: nat) = of_char x \<longleftrightarrow> x = c" by (auto simp: of_char_eq_iff)
  then show ?thesis by (auto simp: in_atom_def)
qed

lemma in_atom_cons: "in_atom (r # rs) x \<longleftrightarrow> in_atom [r] x \<or> in_atom rs x"
  by (simp add: in_atom_def)

lemma filter_once: "filter (\<lambda>k. Suc 0 \<le> k \<and> k \<le> Suc 0) [0..<Suc n] = (if n = 0 then [] else [Suc 0])"
  by (induction n) auto

text \<open>A piece without repetition takes one character.\<close>

lemma re_lens_once:
  "re_lens ((a, Suc 0, Some (Suc 0)) # ps) s =
     (case s of x # r \<Rightarrow> if in_atom a x then map Suc (re_lens ps r) else [] | [] \<Rightarrow> [])"
  by (cases s) (simp_all add: within_def filter_once del: upt_Suc)

lemma regexec_once:
  "regexec ((a, Suc 0, Some (Suc 0)) # ps) s =
     (case s of x # r \<Rightarrow> if in_atom a x then map_option Suc (regexec ps r) else None | [] \<Rightarrow> None)"
proof (cases s)
  case (Cons x r)
  have "Max (Suc ` set (re_lens ps r)) = Suc (Max (set (re_lens ps r)))" if "re_lens ps r \<noteq> []"
    using that mono_Max_commute [OF mono_Suc, of "set (re_lens ps r)"] by simp
  with Cons show ?thesis by (simp add: regexec_def re_lens_once Let_def del: re_lens.simps)
qed (simp add: regexec_def re_lens_once del: re_lens.simps)

lemma regexec_end [simp]: "regexec [] s = Some 0"
  by (simp add: regexec_def)

text \<open>A repeated piece at the end takes as many characters as it can.\<close>

lemma regexec_many:
  "regexec [(a, Suc 0, hi)] s =
     (let n = (case hi of None \<Rightarrow> length (takeWhile (in_atom a) s) | Some h \<Rightarrow> min h (length (takeWhile (in_atom a) s)))
      in if 1 \<le> n then Some n else None)"
proof -
  define n where "n = (case hi of None \<Rightarrow> length (takeWhile (in_atom a) s) | Some h \<Rightarrow> min h (length (takeWhile (in_atom a) s)))"
  define ls where "ls = re_lens [(a, Suc 0, hi)] s"
  have "set ls = {1..n}" by (auto simp: ls_def n_def within_def min_def split: option.splits)
  moreover have "Max {1..n} = n" if "n \<noteq> 0" using that by (intro Max_eqI) auto
  moreover have "ls = [] \<longleftrightarrow> n = 0" using calculation(1) by (metis atLeastatMost_empty_iff2 less_one not_le set_empty)
  ultimately show ?thesis by (simp add: regexec_def ls_def [symmetric] n_def [symmetric] Let_def del: re_lens.simps)
qed

section \<open>The matchers of the tokenizer\<close>

lemma regexec_lit: "regexec (map (\<lambda>c. ([(c, c)], Suc 0, Some (Suc 0))) l) s = match_lit l s"
proof (induction l arbitrary: s)
  case (Cons c l)
  show ?case using Cons.IH by (cases s) (auto simp: regexec_once match_lit_def)
qed (simp add: match_lit_def)

lemma classes:
  "in_atom [(CHR ''A'', CHR ''Z''), (CHR ''a'', CHR ''z''), (CHR ''0'', CHR ''9'')] = is_alnum"
  "in_atom [(CHR ''a'', CHR ''z''), (CHR ''0'', CHR ''9'')] = (\<lambda>c. is_lower c \<or> is_digit c)"
  "in_atom [(CHR ''0'', CHR ''9'')] = is_digit"
  "in_atom [(CHR ''x'', CHR ''x''), (CHR ''X'', CHR ''X'')] = (\<lambda>c. c = CHR ''x'' \<or> c = CHR ''X'')"
  by (auto simp: fun_eq_iff in_atom_cons [of _ "_ # _"]) (auto simp: in_atom_def is_alnum_def is_lower_def is_upper_def is_digit_def)

definition matches_rule :: "string \<times> tk \<Rightarrow> (string \<Rightarrow> nat option) \<times> tk \<Rightarrow> bool" where
  "matches_rule r m \<longleftrightarrow> snd r = snd m \<and>
     (\<exists>ps. regcomp (fst r) = Some ps \<and> (\<forall>s n. fst m s = Some n \<longleftrightarrow> longest_prefix ps s n))"

lemma matches_ruleI: "regcomp p = Some ps \<Longrightarrow> (\<And>s. regexec ps s = f s) \<Longrightarrow> matches_rule (p, t) (f, t)"
  using regexec_longest [of ps] by (auto simp: matches_rule_def)

lemma lit_rule:
  "regcomp p = Some (map (\<lambda>c. ([(c, c)], Suc 0, Some (Suc 0))) l) \<Longrightarrow> matches_rule (p, t) (match_lit l, t)"
  by (erule matches_ruleI) (rule regexec_lit)

lemma many_rule: "regcomp p = Some [(a, Suc 0, None)] \<Longrightarrow> in_atom a = P \<Longrightarrow> matches_rule (p, t) (match_many P, t)"
  by (erule matches_ruleI) (simp add: regexec_many match_many_def Let_def)

lemma hex_rule: "matches_rule (''0[xX][A-Za-z0-9]{1,8}'', t) (match_hex, t)"
proof -
  let ?an = "[(CHR ''A'', CHR ''Z''), (CHR ''a'', CHR ''z''), (CHR ''0'', CHR ''9'')]"
  let ?x = "[(CHR ''x'', CHR ''x''), (CHR ''X'', CHR ''X'')]"
  let ?ps = "[([(CHR ''0'', CHR ''0'')], Suc 0, Some (Suc 0)), (?x, Suc 0, Some (Suc 0)), (?an, Suc 0, Some 8)]"
  have "regcomp ''0[xX][A-Za-z0-9]{1,8}'' = Some ?ps" by code_simp
  moreover have "regexec ?ps s = match_hex s" for s
    unfolding regexec_once regexec_many classes
    by (auto simp: match_hex_def match_class_def Let_def split: list.splits)
  ultimately show ?thesis by (rule matches_ruleI)
qed

lemma reg_rule: "matches_rule (CHR 0x5C # ''$[a-z0-9]{1,2}'', t) (match_reg, t)"
proof -
  let ?an = "[(CHR ''a'', CHR ''z''), (CHR ''0'', CHR ''9'')]"
  let ?ps = "[([(CHR ''$'', CHR ''$'')], Suc 0, Some (Suc 0)), (?an, Suc 0, Some 2)]"
  have "regcomp (CHR 0x5C # ''$[a-z0-9]{1,2}'') = Some ?ps" by code_simp
  moreover have "regexec ?ps s = match_reg s" for s
    unfolding regexec_once regexec_many classes
    by (auto simp: match_reg_def match_class_def Let_def split: list.splits)
  ultimately show ?thesis by (rule matches_ruleI)
qed

text \<open>
  C18. \<open>init_regex\<close> compiles every rule of the table without an error, and for each of them the matcher the
  tokenizer uses finds the longest prefix of the text in the language of the compiled expression, and finds
  nothing when no prefix is in it, with the same token type.
\<close>

theorem rules_are_regexes:
  "snd (init_regex rule_table) = [] \<and> list_all2 matches_rule rule_table rules"
proof
  show "snd (init_regex rule_table) = []" by code_simp
  have l: "matches_rule (CHR 0x5C # ''+'', t) (match_lit ''+'', t)" "matches_rule (''=='', t) (match_lit ''=='', t)"
    "matches_rule (''!='', t) (match_lit ''!='', t)" "matches_rule (''&&'', t) (match_lit ''&&'', t)"
    "matches_rule (''-'', t) (match_lit ''-'', t)" "matches_rule (CHR 0x5C # ''*'', t) (match_lit ''*'', t)"
    "matches_rule (''/'', t) (match_lit ''/'', t)" "matches_rule (CHR 0x5C # ''('', t) (match_lit ''('', t)"
    "matches_rule ('')'', t) (match_lit '')'', t)" for t
    by (rule lit_rule, code_simp)+
  have m: "matches_rule ('' +'', t) (match_many (\<lambda>c. c = CHR '' ''), t)" "matches_rule (''[0-9]+'', t) (match_many is_digit, t)" for t
    by (rule many_rule [where a = "[(CHR '' '', CHR '' '')]"], code_simp, simp add: fun_eq_iff)
       (rule many_rule [where a = "[(CHR ''0'', CHR ''9'')]"], code_simp, rule classes(3))
  show "list_all2 matches_rule rule_table rules"
    unfolding rule_table_def rules_def by (intro list_all2_Cons [THEN iffD2] conjI hex_rule reg_rule l m list.rel_intros)
qed

end
