(* ===== verification/Macros.thy ===== *)
theory Macros
  imports C_Lib "HOL-Library.AList"
begin

text \<open>
  The macros of \<open>src/sim/csrc/include/macro.h\<close> and the configuration \<open>src/sim/csrc/include/config.h\<close>. The
  selection macros (\<open>MUXDEF\<close> and its relatives) work by token pasting and by counting commas, so the
  preprocessor itself is modelled as far as they use it: tokens are strings, an object-like macro is
  replaced by its tokens and these are scanned again without it, an argument list is split at the commas
  outside parentheses. Macros with parameters inside the arguments of a selection are not modelled. The
  arithmetic macros are functions on 64-bit words.
\<close>

section \<open>The preprocessor\<close>

type_synonym token = string
type_synonym defs = "(token \<times> token list) list"

text \<open>Full expansion of object-like macros. A macro is not replaced within its own replacement.\<close>

function expand :: "defs \<Rightarrow> token list \<Rightarrow> token list" where
  "expand D [] = []"
| "expand D (t # ts) =
     (case map_of D t of None \<Rightarrow> [t] | Some body \<Rightarrow> expand (AList.delete t D) body) @ expand D ts"
  by pat_completeness auto
termination
proof (relation "measures [\<lambda>(D, _). length D, \<lambda>(_, ts). length ts]", goal_cases)
  case (2 D t ts body)
  then have "(t, body) \<in> set D" by (rule map_of_SomeD)
  then show ?case using length_filter_less [of "(t, body)" D "\<lambda>(k', _). t \<noteq> k'"] by (simp add: AList.delete_eq)
qed auto

text \<open>
  The arguments of an invocation: commas inside parentheses do not separate. Tokens whose parentheses do not
  match have no arguments here; the preprocessor would look for the end of the invocation elsewhere.
\<close>

fun balanced :: "nat \<Rightarrow> token list \<Rightarrow> bool" where
  "balanced d [] \<longleftrightarrow> d = 0"
| "balanced d (t # ts) \<longleftrightarrow>
     (if t = ''('' then balanced (Suc d) ts else if t = '')'' then d > 0 \<and> balanced (d - 1) ts else balanced d ts)"

definition add_tok :: "token \<Rightarrow> token list list \<Rightarrow> token list list" where
  "add_tok t as = (case as of [] \<Rightarrow> [[t]] | g # gs \<Rightarrow> (t # g) # gs)"

fun split_args :: "nat \<Rightarrow> token list \<Rightarrow> token list list" where
  "split_args d [] = [[]]"
| "split_args d (t # ts) =
     (if t = '','' \<and> d = 0 then [] # split_args 0 ts
      else add_tok t (split_args (if t = ''('' then Suc d else if t = '')'' then d - 1 else d) ts))"

definition call_args :: "token list \<Rightarrow> token list list option" where
  "call_args ts = (if balanced 0 ts then Some (split_args 0 ts) else None)"

text \<open>
  The \<open>##\<close> operator joins the last token of its left and the first token of its right argument; an empty argument
  leaves the other as it is. The join has to be a token: here a name or a number, of letters, digits and
  underscores; other joins (operators, literals with a prefix) are not modelled. Only the joined token is scanned
  again: the arguments are expanded already, and a macro name left in them is one that is not replaced any more.
\<close>

definition word_token :: "token \<Rightarrow> bool" where
  "word_token t \<longleftrightarrow> t \<noteq> [] \<and> list_all (\<lambda>c. is_digit c \<or> is_lower c \<or> is_upper c \<or> c = CHR ''_'') t"

definition concat_temp :: "token list \<Rightarrow> token list \<Rightarrow> (token list \<times> token list \<times> token list) option" where
  "concat_temp x y =
     (if x = [] then Some (y, [], []) else if y = [] then Some (x, [], [])
      else if word_token (last x @ hd y) then Some (butlast x, [last x @ hd y], tl y) else None)"

definition concat_macro :: "defs \<Rightarrow> token list \<Rightarrow> token list \<Rightarrow> token list option" where
  "concat_macro D x y = map_option (\<lambda>(l, m, r). l @ expand D m @ r) (concat_temp x y)"

definition concat3 :: "defs \<Rightarrow> token list \<Rightarrow> token list \<Rightarrow> token list \<Rightarrow> token list option" where
  "concat3 D x y z = Option.bind (concat_macro D x y) (\<lambda>xy. concat_macro D xy z)"

definition concat4 :: "defs \<Rightarrow> token list \<Rightarrow> token list \<Rightarrow> token list \<Rightarrow> token list \<Rightarrow> token list option" where
  "concat4 D x y z w = Option.bind (concat_macro D x y) (\<lambda>xy. concat3 D xy z w)"

definition concat5 :: "defs \<Rightarrow> token list \<Rightarrow> token list \<Rightarrow> token list \<Rightarrow> token list \<Rightarrow> token list \<Rightarrow> token list option" where
  "concat5 D x y z v w = Option.bind (concat_macro D x y) (\<lambda>xy. concat4 D xy z v w)"

lemma concat_token: "word_token (x @ y) \<Longrightarrow> map_of D (x @ y) = None \<Longrightarrow> concat_macro D [x] [y] = Some [x @ y]"
  by (simp add: concat_macro_def concat_temp_def)

lemma concat3_token:
  "word_token (x @ y) \<Longrightarrow> word_token (x @ y @ z) \<Longrightarrow> map_of D (x @ y) = None \<Longrightarrow> map_of D (x @ y @ z) = None \<Longrightarrow>
   concat3 D [x] [y] [z] = Some [x @ y @ z]"
  by (simp add: concat3_def concat_token)

section \<open>Selection\<close>

text \<open>\<open>CHOOSE2nd(a, b, ...)\<close>; fewer than two arguments are an error of the preprocessor.\<close>

definition CHOOSE2nd :: "token list list \<Rightarrow> token list option" where
  "CHOOSE2nd as = (case as of a # b # _ \<Rightarrow> Some b | _ \<Rightarrow> None)"

definition MUX_WITH_COMMA :: "token list \<Rightarrow> token list \<Rightarrow> token list \<Rightarrow> token list option" where
  "MUX_WITH_COMMA contain_comma a b = Option.bind (call_args (contain_comma @ a @ '','' # b)) CHOOSE2nd"

definition MUX_MACRO_PROPERTY :: "defs \<Rightarrow> token list \<Rightarrow> token list \<Rightarrow> token list \<Rightarrow> token list \<Rightarrow> token list option" where
  "MUX_MACRO_PROPERTY D p macro a b = Option.bind (concat_macro D p macro) (\<lambda>c. MUX_WITH_COMMA c a b)"

text \<open>The placeholders of the header.\<close>

definition placeholders :: defs where
  "placeholders = [(''__P_DEF_0'', [''X'', '','']), (''__P_DEF_1'', [''X'', '','']),
     (''__P_ONE_1'', [''X'', '','']), (''__P_ZERO_0'', [''X'', '',''])]"

text \<open>
  The body of a selection macro invokes \<open>MUX_MACRO_PROPERTY\<close> with the fully expanded arguments of the selection.
  The invocation is split into its arguments only then: a comma that an expansion has brought in separates like
  any other, and a number of arguments other than four is an error.
\<close>

definition mux :: "defs \<Rightarrow> token \<Rightarrow> token list \<Rightarrow> token list \<Rightarrow> token list \<Rightarrow> token list option" where
  "mux D p macro a b =
     Option.bind (call_args (p # '','' # expand D macro @ '','' # expand D a @ '','' # expand D b))
       (\<lambda>as. case as of [p, m, x, y] \<Rightarrow> MUX_MACRO_PROPERTY D p m x y | _ \<Rightarrow> None)"

definition MUXDEF :: "defs \<Rightarrow> token \<Rightarrow> token list \<Rightarrow> token list \<Rightarrow> token list option" where
  "MUXDEF D macro x y = mux D ''__P_DEF_'' [macro] x y"

definition MUXNDEF :: "defs \<Rightarrow> token \<Rightarrow> token list \<Rightarrow> token list \<Rightarrow> token list option" where
  "MUXNDEF D macro x y = mux D ''__P_DEF_'' [macro] y x"

definition MUXONE :: "defs \<Rightarrow> token \<Rightarrow> token list \<Rightarrow> token list \<Rightarrow> token list option" where
  "MUXONE D macro x y = mux D ''__P_ONE_'' [macro] x y"

definition MUXZERO :: "defs \<Rightarrow> token \<Rightarrow> token list \<Rightarrow> token list \<Rightarrow> token list option" where
  "MUXZERO D macro x y = mux D ''__P_ZERO_'' [macro] x y"

definition ISDEF :: "defs \<Rightarrow> token \<Rightarrow> token list option" where "ISDEF D macro = MUXDEF D macro [''1''] [''0'']"
definition ISNDEF :: "defs \<Rightarrow> token \<Rightarrow> token list option" where "ISNDEF D macro = MUXNDEF D macro [''1''] [''0'']"
definition ISONE :: "defs \<Rightarrow> token \<Rightarrow> token list option" where "ISONE D macro = MUXONE D macro [''1''] [''0'']"
definition ISZERO :: "defs \<Rightarrow> token \<Rightarrow> token list option" where "ISZERO D macro = MUXZERO D macro [''1''] [''0'']"

text \<open>The conditional macros apply the selected one of \<open>__KEEP\<close> and \<open>__IGNORE\<close> to the expanded code.\<close>

definition keep_or_ignore :: "token list option \<Rightarrow> token list \<Rightarrow> token list option" where
  "keep_or_ignore sel code =
     (if \<not> balanced 0 code then None
      else if sel = Some [''__KEEP''] then Some code else if sel = Some [''__IGNORE''] then Some [] else None)"

definition IFDEF :: "defs \<Rightarrow> token \<Rightarrow> token list \<Rightarrow> token list option" where
  "IFDEF D macro code = keep_or_ignore (MUXDEF D macro [''__KEEP''] [''__IGNORE'']) (expand D code)"

definition IFNDEF :: "defs \<Rightarrow> token \<Rightarrow> token list \<Rightarrow> token list option" where
  "IFNDEF D macro code = keep_or_ignore (MUXNDEF D macro [''__KEEP''] [''__IGNORE'']) (expand D code)"

definition IFONE :: "defs \<Rightarrow> token \<Rightarrow> token list \<Rightarrow> token list option" where
  "IFONE D macro code = keep_or_ignore (MUXONE D macro [''__KEEP''] [''__IGNORE'']) (expand D code)"

definition IFZERO :: "defs \<Rightarrow> token \<Rightarrow> token list \<Rightarrow> token list option" where
  "IFZERO D macro code = keep_or_ignore (MUXZERO D macro [''__KEEP''] [''__IGNORE'']) (expand D code)"

text \<open>\<open>isdef\<close> compares the name of a macro with the spelling of its expansion, which has to be one argument. Tokens
  are taken to be separated by blanks and are spelled with one blank between them.\<close>

definition str_macro :: "defs \<Rightarrow> token list \<Rightarrow> string option" where
  "str_macro D ts = Option.bind (call_args (expand D ts)) (\<lambda>as. case as of
      [[]] \<Rightarrow> Some []
    | [u # us] \<Rightarrow> Some (u @ concat (map (\<lambda>v. '' '' @ v) us))
    | _ \<Rightarrow> None)"

definition isdef :: "defs \<Rightarrow> token \<Rightarrow> bool option" where
  "isdef D macro = map_option (\<lambda>s. macro \<noteq> s) (str_macro D [macro])"

section \<open>What is selected\<close>

text \<open>Tokens that form one argument: balanced, without a comma outside parentheses.\<close>

fun one_arg :: "nat \<Rightarrow> token list \<Rightarrow> bool" where
  "one_arg d [] \<longleftrightarrow> d = 0"
| "one_arg d (t # ts) \<longleftrightarrow>
     (if t = ''('' then one_arg (Suc d) ts
      else if t = '')'' then d > 0 \<and> one_arg (d - 1) ts
      else if t = '','' then d > 0 \<and> one_arg d ts
      else one_arg d ts)"

lemma split_args_nonempty [simp]: "split_args d ts \<noteq> []"
  by (cases ts) (auto simp: add_tok_def split: list.splits)

lemma split_args_arg:
  "one_arg d a \<Longrightarrow> split_args d (a @ ts) = (a @ hd (split_args 0 ts)) # tl (split_args 0 ts)"
  by (induction d a rule: one_arg.induct) (auto simp: add_tok_def split: if_splits)

lemma balanced_arg: "one_arg d a \<Longrightarrow> balanced d (a @ ts) = balanced 0 ts"
  by (induction d a rule: one_arg.induct) (auto split: if_splits)

lemma one_arg_append: "one_arg d a \<Longrightarrow> one_arg 0 b \<Longrightarrow> one_arg d (a @ b)"
  by (induction d a rule: one_arg.induct) (auto split: if_splits)

lemma call_args_last: "one_arg 0 a \<Longrightarrow> call_args a = Some [a]"
  using split_args_arg [of 0 a "[]"] balanced_arg [of 0 a "[]"] by (simp add: call_args_def)

lemma call_args_more: "one_arg 0 a \<Longrightarrow> call_args (a @ '','' # ts) = map_option ((#) a) (call_args ts)"
  using split_args_arg [of 0 a "'','' # ts"] balanced_arg [of 0 a "'','' # ts"] by (simp add: call_args_def)

lemma mux_placeholder:
  assumes "one_arg 0 ts" "one_arg 0 a" "one_arg 0 b"
  shows "MUX_WITH_COMMA (''X'' # '','' # ts) a b = Some (ts @ a)"
proof -
  have "call_args ((''X'' # '','' # ts) @ a @ '','' # b) = Some [[''X''], ts @ a, b]"
    using call_args_more [of "[''X'']" "(ts @ a) @ '','' # b"] call_args_more [OF one_arg_append [OF assms(1,2)], of b]
      call_args_last [OF assms(3)] by simp
  then show ?thesis by (simp add: MUX_WITH_COMMA_def CHOOSE2nd_def)
qed

lemma mux_other:
  assumes "one_arg 0 c" "one_arg 0 a" "one_arg 0 b"
  shows "MUX_WITH_COMMA c a b = Some b"
  using call_args_more [OF one_arg_append [OF assms(1,2)], of b] call_args_last [OF assms(3)]
  by (simp add: MUX_WITH_COMMA_def CHOOSE2nd_def)

text \<open>Definitions of the program that leave the placeholders alone.\<close>

definition user_defs :: "defs \<Rightarrow> bool" where
  "user_defs U \<longleftrightarrow> list_all (\<lambda>(m, _). take 4 m \<noteq> ''__P_'' \<and> m \<noteq> ''X'' \<and> m \<noteq> '','') U"

definition placeholder_names :: "token list" where
  "placeholder_names = [''__P_DEF_0'', ''__P_DEF_1'', ''__P_ONE_1'', ''__P_ZERO_0'']"

lemma user_lookup:
  assumes "user_defs U"
  shows "map_of U ''X'' = None" "map_of U '','' = None" "take 4 m = ''__P_'' \<Longrightarrow> map_of U m = None"
  using assms by (auto simp: user_defs_def list_all_iff map_of_eq_None_iff)

lemma map_of_placeholders:
  "map_of placeholders m = (if m \<in> set placeholder_names then Some [''X'', '',''] else None)"
  by (simp add: placeholders_def placeholder_names_def)

lemma expand_unknown: "map_of D t = None \<Longrightarrow> expand D [t] = [t]"
  by simp

lemma expand_placeholder:
  assumes "user_defs U" "take 4 m = ''__P_''"
  shows "expand (placeholders @ U) [m] = (if m \<in> set placeholder_names then [''X'', '',''] else [m])"
proof -
  have n: "''X'' \<notin> set placeholder_names" "'','' \<notin> set placeholder_names" by (simp_all add: placeholder_names_def)
  let ?D = "placeholders @ U"
  have "map_of ?D ''X'' = None" "map_of ?D '','' = None"
    using user_lookup [OF assms(1)] n by (simp_all add: map_add_def map_of_placeholders)
  then have "map_of (AList.delete m ?D) ''X'' = None" "map_of (AList.delete m ?D) '','' = None"
    by (simp_all add: AList.delete_conv)
  moreover have "map_of ?D m = map_of placeholders m" using user_lookup(3) [OF assms] by (simp add: map_add_def split: option.splits)
  ultimately show ?thesis by (simp add: map_of_placeholders)
qed

lemma word_no_separator: "word_token t \<Longrightarrow> t \<noteq> ''('' \<and> t \<noteq> '')'' \<and> t \<noteq> '',''"
  by (auto simp: word_token_def is_lower_def is_upper_def is_digit_def)

lemma mux_property:
  assumes "user_defs U" "one_arg 0 ts" "one_arg 0 a" "one_arg 0 b" "take 4 p = ''__P_''" "word_token (p @ t)"
  shows "MUX_MACRO_PROPERTY (placeholders @ U) [p] (t # ts) a b = Some (if p @ t \<in> set placeholder_names then ts @ a else b)"
proof -
  have l: "length p \<ge> 4" using arg_cong [OF assms(5), of length] by simp
  have p: "take 4 (p @ t) = ''__P_''" using assms(5) l by simp
  show ?thesis
    using expand_placeholder [OF assms(1) p] mux_placeholder [OF assms(2-4)] mux_other [OF _ assms(3,4), of "(p @ t) # ts"]
      word_no_separator [OF assms(6)] assms(2,6)
    by (simp add: MUX_MACRO_PROPERTY_def concat_macro_def concat_temp_def Let_def del: expand.simps)
qed

lemma mux_args:
  assumes "word_token p" "one_arg 0 (expand D macro)" "one_arg 0 (expand D a)" "one_arg 0 (expand D b)"
  shows "mux D p macro a b = MUX_MACRO_PROPERTY D [p] (expand D macro) (expand D a) (expand D b)"
  using call_args_more [of "[p]"] call_args_more [OF assms(2)] call_args_more [OF assms(3)] call_args_last [OF assms(4)]
    word_no_separator [OF assms(1)] by (simp add: mux_def)

lemma mux_property_names: "p \<in> {''__P_DEF_'', ''__P_ONE_'', ''__P_ZERO_''} \<Longrightarrow> word_token p \<and> take 4 p = ''__P_''"
  by (auto simp: word_token_def is_lower_def is_upper_def)

lemma mux_value:
  assumes "user_defs U" "one_arg 0 (expand (placeholders @ U) x)" "one_arg 0 (expand (placeholders @ U) y)"
    and "expand (placeholders @ U) [macro] = t # ts" "word_token t" "one_arg 0 ts"
    and "p \<in> {''__P_DEF_'', ''__P_ONE_'', ''__P_ZERO_''}"
  shows "mux (placeholders @ U) p [macro] x y
    = Some (if p @ t \<in> set placeholder_names then ts @ expand (placeholders @ U) x else expand (placeholders @ U) y)"
proof -
  note p = mux_property_names [OF assms(7)]
  have "word_token (p @ t)" using p assms(5) by (simp add: word_token_def)
  moreover have "one_arg 0 (t # ts)" using word_no_separator [OF assms(5)] assms(6) by simp
  ultimately show ?thesis using mux_args [of p "placeholders @ U" "[macro]" x y] mux_property [OF assms(1,6,2,3), of p t] p assms(2-4)
    by simp
qed

text \<open>
  C38. The selection macros decide by the value of a macro, not by whether it is defined. Let the macro expand
  to a name or number \<open>t\<close> and further tokens \<open>ts\<close>, and let each branch expand to tokens without a comma outside
  parentheses. Then \<open>MUXDEF\<close> gives its first branch exactly when \<open>t\<close> is 0 or 1, \<open>MUXONE\<close> when it is 1 and \<open>MUXZERO\<close> when
  it is 0 (with \<open>ts\<close> in front), and otherwise the second; \<open>MUXNDEF\<close> gives its second branch when \<open>t\<close> is 0 or 1 and
  otherwise its first. A macro that is not defined expands to its own name and counts as one that is neither, and so
  does one that is defined to any other number. The branches are given expanded; the macros are object-like.
\<close>

theorem mux_selects:
  fixes U :: defs
  defines "D \<equiv> placeholders @ U"
  assumes "user_defs U" and "one_arg 0 (expand D x)" and "one_arg 0 (expand D y)"
    and "expand D [macro] = t # ts" and "word_token t" and "one_arg 0 ts"
  shows "MUXDEF D macro x y = Some (if t = ''0'' \<or> t = ''1'' then ts @ expand D x else expand D y)
    \<and> MUXNDEF D macro x y = Some (if t = ''0'' \<or> t = ''1'' then ts @ expand D y else expand D x)
    \<and> MUXONE D macro x y = Some (if t = ''1'' then ts @ expand D x else expand D y)
    \<and> MUXZERO D macro x y = Some (if t = ''0'' then ts @ expand D x else expand D y)"
proof -
  note v = mux_value [OF assms(2) assms(3-7) [unfolded D_def]] and n = mux_value [OF assms(2) assms(4,3,5-7) [unfolded D_def]]
  show ?thesis unfolding D_def MUXDEF_def MUXNDEF_def MUXONE_def MUXZERO_def
    using v [of "''__P_DEF_''"] n [of "''__P_DEF_''"] v [of "''__P_ONE_''"] v [of "''__P_ZERO_''"]
    by (simp add: placeholder_names_def del: expand.simps)
qed

text \<open>A comma that comes out of the expansion of a branch makes five arguments, which is an error.\<close>

lemma mux_comma_error:
  assumes "expand D a = u @ '','' # v" "one_arg 0 u" "one_arg 0 v" "word_token p" "one_arg 0 (expand D macro)" "one_arg 0 (expand D b)"
  shows "mux D p macro a b = None"
  using assms(1) call_args_more [of "[p]"] call_args_more [OF assms(5)] call_args_more [OF assms(2)] call_args_more [OF assms(3)]
    call_args_last [OF assms(6)] word_no_separator [OF assms(4)] by (simp add: mux_def)

text \<open>\<open>isdef\<close> on the other hand recognises every definition to one argument but one to the macro's own name.\<close>

lemma isdef_exact:
  assumes "CHR '' '' \<notin> set macro" "macro \<noteq> []" "one_arg 0 (expand D [macro])"
  shows "isdef D macro = Some (expand D [macro] \<noteq> [macro])"
proof (cases "expand D [macro]")
  case Nil
  then show ?thesis using assms(2) by (simp add: isdef_def str_macro_def call_args_def del: expand.simps)
next
  case (Cons u us)
  then show ?thesis using assms(1,3) call_args_last [OF assms(3)]
    by (cases us) (auto simp: isdef_def str_macro_def simp del: expand.simps)
qed

section \<open>The configuration\<close>

text \<open>The definitions of \<open>config.h\<close>, in their order.\<close>

definition config :: defs where
  "config =
     [(''CONFIG_MSIZE'', [''0x8000000'']), (''CONFIG_PC_RET'', [''0x80000000'']),
      (''CONFIG_DEVICE'', [''0'']), (''CONFIG_ITRACE'', [''0'']), (''CONFIG_ITRACE_COND'', [''0'']),
      (''CONFIG_TRACE_END'', [''20000'']), (''CONFIG_DIFFTEST'', [''1'']),
      (''CONFIG_WATCHPOINT'', [''0'']), (''CONFIG_MTRACE'', [''0'']), (''CONFIG_WAVE'', [''0'']),
      (''CONFIG_ISA_riscv64'', [''1'']), (''CONFIG_AUDIO_CTL_MMIO'', [''0xa0000200'']),
      (''CONFIG_DIFFTEST_REF_NAME'', [CHR 0x22 # ''spike'' @ [CHR 0x22]]),
      (''CONFIG_ENGINE'', [CHR 0x22 # ''interpreter'' @ [CHR 0x22]]),
      (''CONFIG_VGA_SIZE_400x300'', [''1'']), (''CONFIG_VGA_SHOW_SCREEN'', [''1'']),
      (''CONFIG_PC_RESET_OFFSET'', [''0x0'']), (''CONFIG_RTC_MMIO'', [''0xa0000048'']),
      (''CONFIG_DIFFTEST_REF_SPIKE'', [''1'']), (''CONFIG_TARGET_NATIVE_ELF'', [''1'']),
      (''CONFIG_HAS_AUDIO'', [''1'']), (''CONFIG_CC_O2'', [''1'']), (''CONFIG_HAS_KEYBOARD'', [''1'']),
      (''CONFIG_MODE_SYSTEM'', [''1'']), (''CONFIG_HAS_SERIAL'', [''1'']), (''CONFIG_HAS_DISK'', [''1'']),
      (''CONFIG_FB_ADDR'', [''0xa1000000'']), (''CONFIG_CC_ASAN'', [''1'']), (''CONFIG_HAS_VGA'', [''1'']),
      (''CONFIG_HAS_TIMER'', [''1'']), (''CONFIG_DISK_CTL_MMIO'', [''0xa0000300'']),
      (''CONFIG_MBASE'', [''0x80000000'']), (''CONFIG_TIMER_GETTIMEOFDAY'', [''1'']),
      (''CONFIG_ENGINE_INTERPRETER'', [''1'']), (''CONFIG_CC_OPT'', [CHR 0x22 # ''-O2'' @ [CHR 0x22]]),
      (''CONFIG_SERIAL_MMIO'', [''0xa00003f8'']), (''CONFIG_RT_CHECK'', [''1'']),
      (''CONFIG_ISA64'', [''1'']), (''CONFIG_I8042_DATA_MMIO'', [''0xa0000060'']),
      (''CONFIG_SB_SIZE'', [''0x10000'']), (''CONFIG_CC'', [CHR 0x22 # ''gcc'' @ [CHR 0x22]]),
      (''CONFIG_DIFFTEST_REF_PATH'', [CHR 0x22 # ''tools/spike-diff'' @ [CHR 0x22]]),
      (''CONFIG_CC_DEBUG'', [''1'']), (''CONFIG_TRACE_START'', [''0'']),
      (''CONFIG_DISK_IMG_PATH'', [CHR 0x22 # '''' @ [CHR 0x22]]), (''CONFIG_CC_GCC'', [''1'']),
      (''CONFIG_SB_ADDR'', [''0xa1200000'']), (''CONFIG_TRACE'', [''1'']),
      (''CONFIG_ISA'', [CHR 0x22 # ''riscv64'' @ [CHR 0x22]]), (''CONFIG_VGA_CTL_MMIO'', [''0xa0000100'']),
      (''CONFIG_PMEM_GARRAY'', [''1''])]"

lemma config_user: "user_defs config"
  by code_simp

theorem mux_selects_witness:
  "MUXDEF (placeholders @ config) ''CONFIG_DEVICE'' [''CONFIG_MBASE''] [''b''] = Some [''0x80000000'']
   \<and> MUXDEF (placeholders @ config) ''CONFIG_MSIZE'' [''CONFIG_MBASE''] [''b''] = Some [''b'']
   \<and> MUXONE (placeholders @ config) ''CONFIG_DIFFTEST'' [''CONFIG_MBASE''] [''b''] = Some [''0x80000000'']
   \<and> MUXZERO (placeholders @ config) ''CONFIG_WAVE'' [''CONFIG_MBASE''] [''b''] = Some [''0x80000000'']
   \<and> MUXNDEF (placeholders @ config) ''CONFIG_NONE'' [''CONFIG_MBASE''] [''b''] = Some [''0x80000000'']"
proof -
  let ?D = "placeholders @ config"
  have e: "expand ?D [''CONFIG_DEVICE''] = [''0'']" "expand ?D [''CONFIG_MSIZE''] = [''0x8000000'']"
    "expand ?D [''CONFIG_DIFFTEST''] = [''1'']" "expand ?D [''CONFIG_WAVE''] = [''0'']"
    "expand ?D [''CONFIG_NONE''] = [''CONFIG_NONE'']" and b: "expand ?D [''CONFIG_MBASE''] = [''0x80000000'']" "expand ?D [''b''] = [''b'']"
    by code_simp+
  have w: "word_token ''0''" "word_token ''0x8000000''" "word_token ''1''" "word_token ''CONFIG_NONE''" by code_simp+
  have o: "one_arg 0 (expand ?D [''CONFIG_MBASE''])" "one_arg 0 (expand ?D [''b''])" "one_arg 0 []" unfolding b by simp_all
  note m = mux_selects [OF config_user o(1,2) _ _ o(3)]
  show ?thesis using m [OF e(1) w(1)] m [OF e(2) w(2)] m [OF e(3) w(3)] m [OF e(4) w(1)] m [OF e(5) w(4)]
    unfolding b by simp
qed

text \<open>A branch defined as two tokens with a comma, and a macro defined to a string: both are errors.\<close>

lemma mux_errors:
  "MUXDEF (placeholders @ [(''A'', [''p'', '','', ''q''])] @ config) ''CONFIG_DEVICE'' [''A''] [''b''] = None
   \<and> MUXDEF (placeholders @ config) ''CONFIG_ISA'' [''a''] [''b''] = None"
  by code_simp

section \<open>Arithmetic\<close>

text \<open>A shift by a negative amount or by 64 and more is undefined: \<open>None\<close>.\<close>

definition shift_ok :: "int \<Rightarrow> bool" where
  "shift_ok n \<longleftrightarrow> 0 \<le> n \<and> n < 64"

definition BITMASK :: "int \<Rightarrow> u64 option" where
  "BITMASK bits = (if shift_ok bits then Some (push_bit (nat bits) 1 - 1) else None)"

definition BITS :: "u64 \<Rightarrow> int \<Rightarrow> int \<Rightarrow> u64 option" where
  "BITS x hi lo =
     (if shift_ok lo then map_option (\<lambda>m. drop_bit (nat lo) x AND m) (BITMASK (hi - lo + 1)) else None)"

text \<open>A signed bit field of \<open>len\<close> bits, read back as a 64-bit number; a width outside 1 to 64 does not compile.\<close>

definition SEXT :: "u64 \<Rightarrow> nat \<Rightarrow> u64" where
  "SEXT x len = signed_take_bit (len - 1) x"

definition ROUNDUP :: "u64 \<Rightarrow> u64 \<Rightarrow> u64" where
  "ROUNDUP a sz = (a + sz - 1) AND NOT (sz - 1)"

definition ROUNDDOWN :: "u64 \<Rightarrow> u64 \<Rightarrow> u64" where
  "ROUNDDOWN a sz = a AND NOT (sz - 1)"

lemma BITMASK_mask: "n < 64 \<Longrightarrow> BITMASK (int n) = Some (mask n)"
  by (simp add: BITMASK_def shift_ok_def mask_eq_exp_minus_1 push_bit_eq_mult)

lemma BITS_take:
  assumes "lo \<le> hi" "hi < 64" "hi - lo < 63"
  shows "BITS x (int hi) (int lo) = Some (take_bit (Suc (hi - lo)) (drop_bit lo x))"
proof -
  have "int hi - int lo + 1 = int (Suc (hi - lo))" using assms by simp
  then show ?thesis using assms BITMASK_mask [of "Suc (hi - lo)"]
    by (simp add: BITS_def shift_ok_def take_bit_eq_mask del: of_nat_Suc)
qed

text \<open>
  \<open>BITS(x, hi, lo)\<close> is the bit field from \<open>lo\<close> to \<open>hi\<close>, for every field of at most 63 bits; the whole word,
  \<open>BITS(x, 63, 0)\<close>, shifts by 64 and is undefined. \<open>SEXT\<close> of the field with its width is the signed number in it:
  the bits above repeat bit \<open>hi\<close>.
\<close>

lemma bit_field_macros:
  assumes "lo \<le> hi" "hi < 64" "hi - lo < 63"
  shows "\<exists>y. BITS x (int hi) (int lo) = Some y
    \<and> (\<forall>i. bit y i \<longleftrightarrow> i \<le> hi - lo \<and> bit x (lo + i))
    \<and> (\<forall>i. bit (SEXT y (hi - lo + 1)) i \<longleftrightarrow> i < 64 \<and> bit x (lo + min i (hi - lo)))
    \<and> BITS x 63 0 = None"
proof -
  let ?y = "take_bit (Suc (hi - lo)) (drop_bit lo x)"
  have "bit ?y i \<longleftrightarrow> i \<le> hi - lo \<and> bit x (lo + i)" for i
    by (auto simp: bit_simps)
  moreover have "bit (SEXT ?y (hi - lo + 1)) i \<longleftrightarrow> i < 64 \<and> bit x (lo + min i (hi - lo))" for i
    using assms by (auto simp: SEXT_def bit_simps min_def)
  moreover have "BITS x 63 0 = None" by (simp add: BITS_def BITMASK_def shift_ok_def)
  ultimately show ?thesis using BITS_take [OF assms] by blast
qed

text \<open>Rounding to a power of two: down to the multiple below, up to the multiple above unless the sum wraps.\<close>

lemma NOT_mask_div: "(a :: u64) AND NOT (mask k) = push_bit k (drop_bit k a)"
  by (rule bit_word_eqI) (auto simp: bit_simps)

lemma unat_and_not_mask: "unat ((a :: u64) AND NOT (mask k)) = 2 ^ k * (unat a div 2 ^ k)"
proof -
  have "2 ^ k * (unat a div 2 ^ k) < 2 ^ 64" using le_less_trans [OF times_div_less_eq_dividend [of "2 ^ k" "unat a"] unsigned_less [of a]] by simp
  moreover have "unat (push_bit k (drop_bit k a)) = take_bit 64 (push_bit k (drop_bit k (unat a)))"
    by (simp only: unsigned_push_bit_eq unsigned_drop_bit_eq) (simp add: take_bit_nat_eq_self unsigned_less [of a, where 'a = nat, simplified])
  ultimately show ?thesis unfolding NOT_mask_div
    by (simp add: push_bit_eq_mult drop_bit_eq_div take_bit_nat_eq_self mult.commute)
qed

lemma power_minus_one: "(2 ^ k :: u64) - 1 = mask k"
  by (simp add: mask_eq_exp_minus_1)

lemma rounding_macros:
  assumes "k < 64" "unat a + 2 ^ k \<le> 2 ^ 64"
  shows "unat (ROUNDDOWN a (2 ^ k)) = 2 ^ k * (unat a div 2 ^ k)
    \<and> unat (ROUNDUP a (2 ^ k)) = 2 ^ k * ((unat a + 2 ^ k - 1) div 2 ^ k)"
proof -
  have m: "unat (mask k :: u64) = 2 ^ k - 1" 
  proof -
    have "(2 ^ k :: nat) \<le> 2 ^ 64" using assms(1) by (intro power_increasing) simp_all
    moreover have "(2 ^ k :: nat) > 0" by simp
    ultimately have "(2 ^ k :: nat) - 1 < 2 ^ 64" by linarith
    then show ?thesis using unat_of_nat_small [of "mask k", where 'a = 64] unfolding of_nat_mask_eq
      by (simp add: mask_eq_exp_minus_1 [where 'a = nat])
  qed
  have "(1 :: nat) \<le> 2 ^ k" by simp
  then have e: "unat (a + mask k) = unat a + 2 ^ k - 1"
    using assms(2) m by (simp add: unat_word_ariths(1))
  have s: "a + 2 ^ k - 1 = a + mask k" by (simp add: power_minus_one [symmetric])
  show ?thesis unfolding ROUNDDOWN_def ROUNDUP_def s unfolding power_minus_one unat_and_not_mask e by simp
qed

section \<open>Output\<close>

text \<open>The colour codes of \<open>utils.h\<close>, the macro that puts a text between a code and the reset code, and \<open>Assert\<close>, which
  as it is compiled prints its message when the condition holds and goes on in any case.\<close>

definition ansi :: "string \<Rightarrow> string" where
  "ansi n = CHR 0x1B # ''['' @ n @ ''m''"

definition ansi_codes :: "(string \<times> string) list" where
  "ansi_codes =
     [(''ASNI_FG_BLACK'', ansi ''1;30''), (''ASNI_FG_RED'', ansi ''1;31''), (''ASNI_FG_GREEN'', ansi ''1;32''),
      (''ASNI_FG_YELLOW'', ansi ''1;33''), (''ASNI_FG_BLUE'', ansi ''1;34''), (''ASNI_FG_MAGENTA'', ansi ''1;35''),
      (''ASNI_FG_CYAN'', ansi ''1;36''), (''ASNI_FG_WHITE'', ansi ''1;37''), (''ASNI_BG_BLACK'', ansi ''1;40''),
      (''ASNI_BG_RED'', ansi ''1;41''), (''ASNI_BG_GREEN'', ansi ''1;42''), (''ASNI_BG_YELLOW'', ansi ''1;43''),
      (''ASNI_BG_BLUE'', ansi ''1;44''), (''ASNI_BG_MAGENTA'', ansi ''1;35''), (''ASNI_BG_CYAN'', ansi ''1;46''),
      (''ASNI_BG_WHITE'', ansi ''1;47''), (''ASNI_NONE'', ansi ''0'')]"

definition ASNI_FMT :: "string \<Rightarrow> string \<Rightarrow> string" where
  "ASNI_FMT txt_in fmt = fmt @ txt_in @ ansi ''0''"

definition Assert_macro :: "bool \<Rightarrow> string \<Rightarrow> string" where
  "Assert_macro cond format = (if cond then format else [])"

text \<open>The codes are different but for one pair: the magenta background is the magenta foreground.\<close>

lemma ansi_codes_distinct:
  "map_of ansi_codes ''ASNI_BG_MAGENTA'' = map_of ansi_codes ''ASNI_FG_MAGENTA''
   \<and> distinct (map snd (filter (\<lambda>(n, _). n \<noteq> ''ASNI_BG_MAGENTA'') ansi_codes))"
  by (simp add: ansi_codes_def ansi_def)

end
