(* ===== verification/Roi.thy ===== *)
theory Roi
  imports C_Lib
begin

text \<open>
  What the three performance observers share: reading an address from the environment
  (\<open>parse_u64_env\<close>, which each of them has its own copy of) and the region of interest, a window of
  the run between the retirement of two marker instructions. The locale \<open>roi_observer\<close> is the
  contract of an observer's \<open>update_roi\<close>; its lemmas say that the flags an observer keeps follow the
  three phases before, inside and after the window, whatever other events are interleaved. Each
  observer interprets it.
\<close>

section \<open>Reading the environment\<close>

type_synonym environ = "string \<Rightarrow> string option"

text \<open>
  The result is the returned flag and the new value of \<open>*value\<close>, which the versions of
  \<open>src/sim/csrc/dependency_observer.cpp\<close> and \<open>src/models/cache/monitor/cache_observer.cpp\<close> assign
  even when they fail, and the version of \<open>src/models/attribution/monitor/perf_observer.cpp\<close> only on
  success.
\<close>

definition dep_parse_u64_env :: "environ \<Rightarrow> string \<Rightarrow> u64 \<Rightarrow> bool \<times> u64" where
  "dep_parse_u64_env env name v =
     (case env name of
        None \<Rightarrow> (False, v)
      | Some t \<Rightarrow> if t = [] then (False, v)
                  else let (x, e) = strtoull0 t in (e \<noteq> t \<and> e = [], x))"

definition cache_parse_u64_env :: "environ \<Rightarrow> string \<Rightarrow> u64 \<Rightarrow> bool \<times> u64" where
  "cache_parse_u64_env env name v =
     (case env name of
        None \<Rightarrow> (False, v)
      | Some t \<Rightarrow> if t = [] then (False, v)
                  else let (x, e) = strtoull0 t in (e = [], x))"

definition perf_parse_u64_env :: "environ \<Rightarrow> string \<Rightarrow> u64 \<Rightarrow> bool \<times> u64" where
  "perf_parse_u64_env env name v =
     (case env name of
        None \<Rightarrow> (False, v)
      | Some t \<Rightarrow> if t = [] then (False, v)
                  else let (x, e) = strtoull0 t in
                    if e = t \<or> e \<noteq> [] then (False, v) else (True, x))"

lemma parse_agree:
  "dep_parse_u64_env env name v = cache_parse_u64_env env name v"
  "fst (perf_parse_u64_env env name v) = fst (dep_parse_u64_env env name v)"
  "fst (dep_parse_u64_env env name v) \<Longrightarrow> perf_parse_u64_env env name v = dep_parse_u64_env env name v"
  by (auto simp: dep_parse_u64_env_def cache_parse_u64_env_def perf_parse_u64_env_def
      split: option.splits if_splits prod.splits)

lemma parse_hex_env:
  assumes "env name = Some (''0x'' @ hex_pad w (unat v))"
  shows "dep_parse_u64_env env name d = (True, v)"
  using assms strtoull0_hex [of "unat v" w] unsigned_less [of v, where 'a = nat]
  by (simp add: dep_parse_u64_env_def)

section \<open>The region of interest\<close>

datatype roi_phase = Roi_before | Roi_inside | Roi_after

definition roi_step :: "u64 \<Rightarrow> u64 \<Rightarrow> bool \<times> u64 \<Rightarrow> roi_phase \<Rightarrow> roi_phase" where
  "roi_step a z r p =
     (if \<not> fst r then p
      else case p of
             Roi_before \<Rightarrow> if snd r = a then Roi_inside else Roi_before
           | Roi_inside \<Rightarrow> if snd r = z then Roi_after else Roi_inside
           | Roi_after \<Rightarrow> Roi_after)"

definition roi_track :: "u64 \<Rightarrow> u64 \<Rightarrow> (bool \<times> u64) list \<Rightarrow> roi_phase" where
  "roi_track a z rs = fold (roi_step a z) rs Roi_before"

definition phase_flags :: "roi_phase \<Rightarrow> bool \<times> bool \<times> bool" where
  "phase_flags p = (p = Roi_inside, p \<noteq> Roi_before, p = Roi_after)"

lemma phase_flags_inj: "phase_flags p = phase_flags q \<longleftrightarrow> p = q"
  by (cases p; cases q) (simp_all add: phase_flags_def)

text \<open>The events an observer sees: the markers of one retirement, or an event of its own.\<close>

datatype 'e roi_event = Retire bool u64 | Own 'e

fun retires :: "'e roi_event list \<Rightarrow> (bool \<times> u64) list" where
  "retires [] = []"
| "retires (Retire w pc # es) = (w, pc) # retires es"
| "retires (Own e # es) = retires es"

fun run_events :: "(bool \<Rightarrow> u64 \<Rightarrow> 's \<Rightarrow> 's) \<Rightarrow> ('e \<Rightarrow> 's \<Rightarrow> 's res) \<Rightarrow> 'e roi_event list \<Rightarrow> 's \<Rightarrow> 's res" where
  "run_events upd own [] s = Inr s"
| "run_events upd own (Retire w pc # es) s = run_events upd own es (upd w pc s)"
| "run_events upd own (Own e # es) s = bindR (own e s) (run_events upd own es)"

lemma run_events_append:
  "run_events upd own (es @ es') s = bindR (run_events upd own es s) (run_events upd own es')"
proof (induction es arbitrary: s)
  case (Cons e es)
  then show ?case by (cases e; cases "own (case e of Own x \<Rightarrow> x) s") (auto simp: bindR_def split: sum.splits)
qed simp

locale roi_observer =
  fixes enabled requested :: "'s \<Rightarrow> bool"
    and flags :: "'s \<Rightarrow> bool \<times> bool \<times> bool"
    and markers :: "'s \<Rightarrow> u64 \<times> u64"
    and update :: "bool \<Rightarrow> u64 \<Rightarrow> 's \<Rightarrow> 's"
    and own :: "'e \<Rightarrow> 's \<Rightarrow> 's res"
  assumes update_off: "\<not> (enabled s \<and> requested s \<and> w) \<Longrightarrow> update w pc s = s"
    and update_before: "enabled s \<Longrightarrow> requested s \<Longrightarrow> flags s = phase_flags Roi_before \<Longrightarrow>
          flags (update True pc s) = phase_flags (if pc = fst (markers s) then Roi_inside else Roi_before)"
    and update_inside: "enabled s \<Longrightarrow> requested s \<Longrightarrow> flags s = phase_flags Roi_inside \<Longrightarrow>
          flags (update True pc s) = phase_flags (if pc = snd (markers s) then Roi_after else Roi_inside)"
    and update_after: "enabled s \<Longrightarrow> requested s \<Longrightarrow> flags s = phase_flags Roi_after \<Longrightarrow>
          update True pc s = s"
    and update_frame: "enabled (update w pc s) = enabled s" "requested (update w pc s) = requested s"
          "markers (update w pc s) = markers s"
    and own_frame: "own e s = Inr t \<Longrightarrow> enabled t = enabled s \<and> requested t = requested s
          \<and> markers t = markers s \<and> flags t = flags s"
begin

lemma update_step:
  assumes "enabled s" "requested s" "flags s = phase_flags p"
  shows "flags (update w pc s) = phase_flags (roi_step (fst (markers s)) (snd (markers s)) (w, pc) p)"
proof (cases w)
  case True
  with assms update_before [of s pc] update_inside [of s pc] update_after [of s pc] show ?thesis
    by (cases p) (auto simp: roi_step_def)
next
  case False
  with assms update_off [of s w pc] show ?thesis by (simp add: roi_step_def)
qed

lemma run_frame:
  "run_events update own es s = Inr t \<Longrightarrow>
   enabled t = enabled s \<and> requested t = requested s \<and> markers t = markers s"
proof (induction es arbitrary: s)
  case (Cons e es)
  then show ?case
    by (cases e) (auto simp: bindR_Inr_iff update_frame dest!: own_frame)
qed simp

lemma run_flags:
  assumes "run_events update own es s = Inr t" "enabled s" "requested s" "flags s = phase_flags p"
  shows "flags t = phase_flags (fold (roi_step (fst (markers s)) (snd (markers s))) (retires es) p)"
  using assms
proof (induction es arbitrary: s p)
  case (Cons e es)
  show ?case
  proof (cases e)
    case (Retire w pc)
    with Cons.prems Cons.IH [of "update w pc s" "roi_step (fst (markers s)) (snd (markers s)) (w, pc) p"]
    show ?thesis by (simp add: update_frame update_step)
  next
    case (Own x)
    with Cons.prems obtain u where u: "own x s = Inr u" "run_events update own es u = Inr t"
      by (auto simp: bindR_Inr_iff)
    with Own Cons.prems own_frame [OF u(1)] Cons.IH [of u p] show ?thesis by simp
  qed
qed simp

lemma run_off_flags:
  assumes "run_events update own es s = Inr t" "\<not> (enabled s \<and> requested s)"
  shows "flags t = flags s"
  using assms
proof (induction es arbitrary: s)
  case (Cons e es)
  show ?case
  proof (cases e)
    case (Retire w pc)
    with Cons.prems have "update w pc s = s" using update_off [of s w pc] by blast
    with Retire Cons show ?thesis by simp
  next
    case (Own x)
    with Cons.prems obtain u where u: "own x s = Inr u" "run_events update own es u = Inr t"
      by (auto simp: bindR_Inr_iff)
    with Own Cons.prems own_frame [OF u(1)] Cons.IH [of u] show ?thesis by simp
  qed
qed simp

end

text \<open>The window in terms of the retired instructions: it opens at the first retired start marker.\<close>

lemma roi_step_simps [simp]:
  "roi_step a z r Roi_after = Roi_after"
  "roi_step a z r Roi_inside = (if r = (True, z) then Roi_after else Roi_inside)"
  "roi_step a z r Roi_before = (if r = (True, a) then Roi_inside else Roi_before)"
  by (cases r; simp add: roi_step_def)+

lemma fold_roi_after [simp]: "fold (roi_step a z) rs Roi_after = Roi_after"
  by (induction rs) simp_all

lemma fold_roi_inside:
  "fold (roi_step a z) rs Roi_inside = (if (True, z) \<in> set rs then Roi_after else Roi_inside)"
  by (induction rs) auto

lemma roi_track_eq:
  "roi_track a z rs =
     (case dropWhile (\<lambda>r. r \<noteq> (True, a)) rs of
        [] \<Rightarrow> Roi_before
      | _ # later \<Rightarrow> if (True, z) \<in> set later then Roi_after else Roi_inside)"
  unfolding roi_track_def by (induction rs) (auto simp: fold_roi_inside)

end
