(* ===== verification/Dep_Observer.thy ===== *)
theory Dep_Observer
  imports Roi
begin

text \<open>
  The dependency observer (\<open>src/sim/csrc/dependency_observer.cpp\<close>, \<open>.h\<close>): it groups the cycles in
  which only a register dependency stalls the pipeline into episodes, classifies the producer of
  each, and matches the pending loads with the accesses of the data cache. The file-level variables
  are the record \<open>dep_state\<close>; a push on and an access to the back of the vector \<open>episodes\<close> work on the
  end of a list, and \<open>back\<close> of an empty vector is a fault.
\<close>

datatype ProducerClass = kLoad | kMultiply | kOther
datatype Source = kRs1 | kRs2 | kBoth | kFalse
datatype LoadOutcome = kNotLoad | kPending | kHit | kMiss

record Episode =
  ep_first_cycle :: u64
  ep_cycles :: u64
  ep_consumer_pc :: u64
  ep_consumer_inst :: u32
  ep_producer_pc :: u64
  ep_producer_inst :: u32
  ep_producer_rd :: u8
  ep_producer_address :: u64
  ep_producer_class :: ProducerClass
  ep_source :: Source
  ep_load_outcome :: LoadOutcome

record DependencyObserverSample =
  ds_dependency_stall :: bool
  ds_dcache_total_stall :: bool
  ds_divider_stall :: bool
  ds_branch_recovery :: bool
  ds_dcache_load_access :: bool
  ds_dcache_hit :: bool
  ds_dcache_miss :: bool
  ds_dcache_address :: u32
  ds_consumer_pc :: u64
  ds_consumer_inst :: u32
  ds_producer_pc :: u64
  ds_producer_inst :: u32
  ds_producer_rd :: u8
  ds_producer_address :: u64

record dep_state =
  dep_output_path :: "string option"
  dep_workload :: string
  dep_enabled :: bool
  dep_roi_requested :: bool
  dep_roi_active :: bool
  dep_roi_started :: bool
  dep_roi_ended :: bool
  dep_roi_start_pc :: u64
  dep_roi_end_pc :: u64
  dep_roi_cycles :: u64
  dep_previous_exclusive :: bool
  dep_episodes :: "Episode list"

text \<open>The file-level variables before any call: zero-initialised.\<close>

definition dep_state_init :: dep_state where
  "dep_state_init = \<lparr>dep_output_path = None, dep_workload = [], dep_enabled = False,
     dep_roi_requested = False, dep_roi_active = False, dep_roi_started = False, dep_roi_ended = False,
     dep_roi_start_pc = 0, dep_roi_end_pc = 0, dep_roi_cycles = 0, dep_previous_exclusive = False,
     dep_episodes = []\<rparr>"

section \<open>Decoding instructions\<close>

definition is_load :: "u32 \<Rightarrow> bool" where
  "is_load inst \<longleftrightarrow> inst AND 0x7f = 0x03"

definition is_multiply :: "u32 \<Rightarrow> bool" where
  "is_multiply inst \<longleftrightarrow>
     (let opcode = inst AND 0x7f; funct3 = drop_bit 12 inst AND 7; funct7 = drop_bit 25 inst
      in (opcode = 0x33 \<or> opcode = 0x3b) \<and> funct7 = 1 \<and> funct3 \<le> 3)"

definition operand_use :: "u32 \<Rightarrow> bool \<times> bool" where
  "operand_use inst =
     (let opcode = inst AND 0x7f; funct3 = drop_bit 12 inst AND 7
      in if opcode \<in> {0x33, 0x3b, 0x23, 0x63} then (True, True)
         else if opcode \<in> {0x03, 0x13, 0x1b, 0x67} then (True, False)
         else if opcode = 0x73 then (funct3 = 1 \<or> funct3 = 2 \<or> funct3 = 3, False)
         else (False, False))"

definition classify_source :: "u32 \<Rightarrow> u8 \<Rightarrow> Source" where
  "classify_source inst rd =
     (let (use_rs1, use_rs2) = operand_use inst;
          rs1 = (ucast (drop_bit 15 inst AND 31) :: u8);
          rs2 = (ucast (drop_bit 20 inst AND 31) :: u8);
          rs1_match = (rd \<noteq> 0 \<and> use_rs1 \<and> rs1 = rd);
          rs2_match = (rd \<noteq> 0 \<and> use_rs2 \<and> rs2 = rd)
      in if rs1_match \<and> rs2_match then kBoth
         else if rs1_match then kRs1
         else if rs2_match then kRs2
         else kFalse)"

definition producer_name :: "ProducerClass \<Rightarrow> string" where
  "producer_name v = (if v = kLoad then ''LOAD'' else if v = kMultiply then ''MUL'' else ''OTHER'')"

definition source_name :: "Source \<Rightarrow> string" where
  "source_name v = (if v = kRs1 then ''RS1'' else if v = kRs2 then ''RS2''
                    else if v = kBoth then ''BOTH'' else ''FALSE'')"

definition outcome_name :: "LoadOutcome \<Rightarrow> string" where
  "outcome_name v = (if v = kPending then ''PENDING'' else if v = kHit then ''HIT''
                     else if v = kMiss then ''MISS'' else ''NOT_LOAD'')"

section \<open>Operations\<close>

definition dep_reset_profile :: "dep_state \<Rightarrow> dep_state" where
  "dep_reset_profile s = s\<lparr>dep_roi_cycles := 0, dep_previous_exclusive := False, dep_episodes := []\<rparr>"

definition dependency_observer_init :: "string option \<Rightarrow> string option \<Rightarrow> dep_state \<Rightarrow> dep_state" where
  "dependency_observer_init path name s =
     (let en = (path \<noteq> None \<and> path \<noteq> Some []);
          w = (case name of Some n \<Rightarrow> if n \<noteq> [] then n else ''unspecified'' | None \<Rightarrow> ''unspecified'')
      in dep_reset_profile
           (s\<lparr>dep_output_path := path, dep_workload := w, dep_enabled := en,
              dep_roi_requested := False, dep_roi_active := en, dep_roi_started := en,
              dep_roi_ended := False\<rparr>))"

definition dependency_observer_init_from_env :: "environ \<Rightarrow> dep_state \<Rightarrow> dep_state" where
  "dependency_observer_init_from_env env s0 =
     (let s = dependency_observer_init (env ''DEPENDENCY_PROFILE_OUT'') (env ''PERF_WORKLOAD'') s0
      in if \<not> dep_enabled s then s
         else
           let (has_start, a) = dep_parse_u64_env env ''PERF_ROI_START_PC'' (dep_roi_start_pc s);
               (has_end, z) = dep_parse_u64_env env ''PERF_ROI_END_PC'' (dep_roi_end_pc s);
               s = s\<lparr>dep_roi_start_pc := a, dep_roi_end_pc := z,
                     dep_roi_requested := has_start \<or> has_end\<rparr>
           in if has_start \<noteq> has_end \<or> has_start \<and> a = z then s\<lparr>dep_enabled := False\<rparr>
              else s\<lparr>dep_roi_active := \<not> dep_roi_requested s, dep_roi_started := \<not> dep_roi_requested s\<rparr>)"

definition dependency_observer_begin_roi :: "dep_state \<Rightarrow> dep_state" where
  "dependency_observer_begin_roi s =
     (if \<not> dep_enabled s then s
      else (dep_reset_profile s)\<lparr>dep_roi_started := True, dep_roi_active := True, dep_roi_ended := False\<rparr>)"

definition dependency_observer_end_roi :: "dep_state \<Rightarrow> dep_state" where
  "dependency_observer_end_roi s =
     (if \<not> dep_enabled s then s
      else s\<lparr>dep_roi_active := False, dep_roi_ended := True, dep_previous_exclusive := False\<rparr>)"

definition dependency_observer_update_roi :: "bool \<Rightarrow> u64 \<Rightarrow> dep_state \<Rightarrow> dep_state" where
  "dependency_observer_update_roi wb_sign wb_pc s =
     (if \<not> dep_enabled s \<or> \<not> dep_roi_requested s \<or> \<not> wb_sign then s
      else if \<not> dep_roi_started s \<and> wb_pc = dep_roi_start_pc s then dependency_observer_begin_roi s
      else if dep_roi_active s \<and> wb_pc = dep_roi_end_pc s then dependency_observer_end_roi s
      else s)"

definition dependency_observer_cycle :: "dep_state \<Rightarrow> dep_state" where
  "dependency_observer_cycle s =
     (if dep_enabled s \<and> dep_roi_active s then s\<lparr>dep_roi_cycles := dep_roi_cycles s + 1\<rparr> else s)"

definition new_episode :: "u64 \<Rightarrow> DependencyObserverSample \<Rightarrow> Episode" where
  "new_episode now x =
     (let cls = (if is_load (ds_producer_inst x) then kLoad
                 else if is_multiply (ds_producer_inst x) then kMultiply else kOther);
          src = classify_source (ds_consumer_inst x) (ds_producer_rd x)
      in \<lparr>ep_first_cycle = now, ep_cycles = 0, ep_consumer_pc = ds_consumer_pc x,
          ep_consumer_inst = ds_consumer_inst x, ep_producer_pc = ds_producer_pc x,
          ep_producer_inst = ds_producer_inst x, ep_producer_rd = ds_producer_rd x,
          ep_producer_address = ds_producer_address x, ep_producer_class = cls, ep_source = src,
          ep_load_outcome = (if cls = kLoad \<and> src \<noteq> kFalse then kPending else kNotLoad)\<rparr>)"

text \<open>The first pending episode whose address matches takes the outcome of the access.\<close>

definition matches :: "u32 \<Rightarrow> Episode \<Rightarrow> bool" where
  "matches addr e \<longleftrightarrow> ep_load_outcome e = kPending
     \<and> (ucast (ep_producer_address e) :: u32) AND NOT 7 = addr"

fun resolve :: "u32 \<Rightarrow> bool \<Rightarrow> Episode list \<Rightarrow> Episode list" where
  "resolve addr hit [] = []"
| "resolve addr hit (e # es) =
     (if matches addr e then e\<lparr>ep_load_outcome := (if hit then kHit else kMiss)\<rparr> # es
      else e # resolve addr hit es)"

definition exclusive_stall :: "DependencyObserverSample \<Rightarrow> bool" where
  "exclusive_stall x \<longleftrightarrow> ds_dependency_stall x \<and> \<not> ds_dcache_total_stall x \<and> \<not> ds_divider_stall x
     \<and> \<not> ds_branch_recovery x"

definition bump_last :: "Episode list \<Rightarrow> Episode list res" where
  "bump_last es = (if es = [] then Inl Out_of_bounds
                   else Inr (butlast es @ [(last es)\<lparr>ep_cycles := ep_cycles (last es) + 1\<rparr>]))"

definition dependency_observer_sample :: "DependencyObserverSample \<Rightarrow> dep_state \<Rightarrow> dep_state res" where
  "dependency_observer_sample x s =
     (if \<not> dep_enabled s then Inr s
      else
        let exclusive = (dep_roi_active s \<and> exclusive_stall x);
            es = (if exclusive \<and> \<not> dep_previous_exclusive s
                  then dep_episodes s @ [new_episode (dep_roi_cycles s) x] else dep_episodes s)
        in bindR (if exclusive then bump_last es else Inr es) (\<lambda>es.
             Inr (s\<lparr>dep_previous_exclusive := exclusive,
                    dep_episodes := (if ds_dcache_load_access x
                                     then resolve (ds_dcache_address x) (ds_dcache_hit x) es else es)\<rparr>)))"

section \<open>The report\<close>

record dep_totals =
  tot_dependency :: u64
  tot_load :: u64
  tot_load_n :: u64
  tot_hit :: u64
  tot_hit_n :: u64
  tot_miss :: u64
  tot_miss_n :: u64
  tot_mul :: u64
  tot_other :: u64
  tot_unresolved :: u64

definition dep_total_step :: "Episode \<Rightarrow> dep_totals \<Rightarrow> dep_totals" where
  "dep_total_step e t =
     (let t = t\<lparr>tot_dependency := tot_dependency t + ep_cycles e\<rparr>;
          true_dependency = (ep_source e \<noteq> kFalse)
      in if ep_producer_class e = kLoad \<and> true_dependency then
           let t = t\<lparr>tot_load := tot_load t + ep_cycles e, tot_load_n := tot_load_n t + 1\<rparr>
           in if ep_load_outcome e = kHit
              then t\<lparr>tot_hit := tot_hit t + ep_cycles e, tot_hit_n := tot_hit_n t + 1\<rparr>
              else if ep_load_outcome e = kMiss
              then t\<lparr>tot_miss := tot_miss t + ep_cycles e, tot_miss_n := tot_miss_n t + 1\<rparr>
              else t\<lparr>tot_unresolved := tot_unresolved t + 1\<rparr>
         else if ep_producer_class e = kMultiply \<and> true_dependency
         then t\<lparr>tot_mul := tot_mul t + ep_cycles e\<rparr>
         else t\<lparr>tot_other := tot_other t + ep_cycles e\<rparr>)"

definition dep_totals_zero :: dep_totals where
  "dep_totals_zero = \<lparr>tot_dependency = 0, tot_load = 0, tot_load_n = 0, tot_hit = 0, tot_hit_n = 0,
     tot_miss = 0, tot_miss_n = 0, tot_mul = 0, tot_other = 0, tot_unresolved = 0\<rparr>"

definition dep_count :: "Episode list \<Rightarrow> dep_totals" where
  "dep_count es = fold dep_total_step es dep_totals_zero"

definition dep_roi_valid :: "dep_state \<Rightarrow> bool" where
  "dep_roi_valid s \<longleftrightarrow> \<not> dep_roi_requested s \<or> dep_roi_started s \<and> dep_roi_ended s"

definition episode_text :: "Episode \<Rightarrow> bool \<Rightarrow> string" where
  "episode_text e is_last =
     ''    {'' @ quoted ''first_cycle'' @ '': '' @ llu (ep_first_cycle e) @
     '', '' @ quoted ''cycles'' @ '': '' @ llu (ep_cycles e) @
     '', '' @ quoted ''consumer_pc'' @ '': '' @ hex16 (ep_consumer_pc e) @
     '', '' @ quoted ''consumer_inst'' @ '': '' @ hex8 (ep_consumer_inst e) @
     '', '' @ quoted ''producer_pc'' @ '': '' @ hex16 (ep_producer_pc e) @
     '', '' @ quoted ''producer_inst'' @ '': '' @ hex8 (ep_producer_inst e) @
     '', '' @ quoted ''producer_rd'' @ '': '' @ dec (unat (ep_producer_rd e)) @
     '', '' @ quoted ''producer_class'' @ '': '' @ quoted (producer_name (ep_producer_class e)) @
     '', '' @ quoted ''source'' @ '': '' @ quoted (source_name (ep_source e)) @
     '', '' @ quoted ''producer_address'' @ '': '' @ hex16 (ep_producer_address e) @
     '', '' @ quoted ''load_outcome'' @ '': '' @ quoted (outcome_name (ep_load_outcome e)) @
     ''}'' @ (if is_last then [] else '','') @ nl"

fun episodes_text :: "Episode list \<Rightarrow> string" where
  "episodes_text [] = []"
| "episodes_text (e # es) = episode_text e (es = []) @ episodes_text es"

definition dep_report :: "dep_state \<Rightarrow> int \<Rightarrow> string" where
  "dep_report s exit_status =
     (let t = dep_count (dep_episodes s) in
      ''{'' @ nl @ ''  '' @ quoted ''schema_version'' @ '': '' @ quoted ''a2-loaduse-phase8r-v1'' @ '','' @ nl @
      ''  '' @ quoted ''workload'' @ '': '' @ quoted (dep_workload s) @ '','' @ nl @
      ''  '' @ quoted ''roi_valid'' @ '': '' @ bool_text (dep_roi_valid s) @ '','' @ nl @
      num_field ''roi_cycles'' (dep_roi_cycles s) @
      num_field ''exclusive_dependency_cycles'' (tot_dependency t) @
      num_field ''dependency_episodes'' (of_nat (length (dep_episodes s))) @
      num_field ''load_use_stall_cycles'' (tot_load t) @
      num_field ''load_use_episodes'' (tot_load_n t) @
      num_field ''load_hit_use_stall_cycles'' (tot_hit t) @
      num_field ''load_hit_use_episodes'' (tot_hit_n t) @
      num_field ''load_miss_related_dependency_cycles'' (tot_miss t) @
      num_field ''load_miss_related_dependency_episodes'' (tot_miss_n t) @
      num_field ''alu_raw_stall_cycles'' 0 @ num_field ''csr_dependency_stall_cycles'' 0 @
      num_field ''mul_dependency_stall_cycles'' (tot_mul t) @
      num_field ''div_dependency_stall_cycles'' 0 @
      num_field ''other_dependency_stall_cycles'' (tot_other t) @
      num_field ''unresolved_load_outcomes'' (tot_unresolved t) @
      ''  '' @ quoted ''exit_status'' @ '': '' @ int_text exit_status @ '','' @ nl @
      ''  '' @ quoted ''episodes'' @ '': ['' @ nl @
      episodes_text (dep_episodes s) @
      ''  ]'' @ nl @ ''}'' @ nl)"

text \<open>The result is the returned status and the text written to the output file, if any.\<close>

definition dependency_observer_finalize :: "(string \<Rightarrow> bool) \<Rightarrow> dep_state \<Rightarrow> int \<Rightarrow> int \<times> string option" where
  "dependency_observer_finalize can_open s exit_status =
     (if \<not> dep_enabled s then (0, None)
      else if \<not> can_open (the (dep_output_path s)) then (1, None)
      else (if dep_roi_valid s \<and> tot_unresolved (dep_count (dep_episodes s)) = 0 then 0 else 1,
            Some (dep_report s exit_status)))"

section \<open>The window of interest\<close>

datatype dep_event = D_cycle | D_sample DependencyObserverSample

fun dep_own :: "dep_event \<Rightarrow> dep_state \<Rightarrow> dep_state res" where
  "dep_own D_cycle s = Inr (dependency_observer_cycle s)"
| "dep_own (D_sample x) s = dependency_observer_sample x s"

definition dep_flags :: "dep_state \<Rightarrow> bool \<times> bool \<times> bool" where
  "dep_flags s = (dep_roi_active s, dep_roi_started s, dep_roi_ended s)"

definition dep_markers :: "dep_state \<Rightarrow> u64 \<times> u64" where
  "dep_markers s = (dep_roi_start_pc s, dep_roi_end_pc s)"

lemmas dep_roi_defs = dependency_observer_update_roi_def dependency_observer_begin_roi_def
  dependency_observer_end_roi_def dep_reset_profile_def

lemma sample_shape:
  assumes "dependency_observer_sample x s = Inr t"
  shows "\<exists>p es. t = s\<lparr>dep_previous_exclusive := p, dep_episodes := es\<rparr>"
proof (cases "dep_enabled s")
  case False
  with assms have "t = s\<lparr>dep_previous_exclusive := dep_previous_exclusive s, dep_episodes := dep_episodes s\<rparr>"
    by (simp add: dependency_observer_sample_def)
  then show ?thesis by blast
next
  case True
  with assms show ?thesis
    unfolding dependency_observer_sample_def Let_def bindR_def by (simp split: sum.splits) blast
qed

lemma dep_own_frame:
  assumes "dep_own e s = Inr t"
  shows "dep_enabled t = dep_enabled s \<and> dep_roi_requested t = dep_roi_requested s
     \<and> dep_markers t = dep_markers s \<and> dep_flags t = dep_flags s"
proof (cases e)
  case D_cycle
  with assms show ?thesis by (auto simp: dependency_observer_cycle_def dep_flags_def dep_markers_def split: if_splits)
next
  case (D_sample x)
  with assms sample_shape [of x s t] show ?thesis by (auto simp: dep_flags_def dep_markers_def)
qed

interpretation depo: roi_observer dep_enabled dep_roi_requested dep_flags dep_markers
  dependency_observer_update_roi dep_own
proof unfold_locales
  fix e s t
  assume "dep_own e s = Inr t"
  then show "dep_enabled t = dep_enabled s \<and> dep_roi_requested t = dep_roi_requested s
     \<and> dep_markers t = dep_markers s \<and> dep_flags t = dep_flags s" by (rule dep_own_frame)
qed (auto simp: dep_roi_defs dep_flags_def dep_markers_def phase_flags_def)

section \<open>Episodes\<close>

definition episode_ok :: "Episode \<Rightarrow> bool" where
  "episode_ok e \<longleftrightarrow> (ep_load_outcome e \<noteq> kNotLoad) = (ep_producer_class e = kLoad \<and> ep_source e \<noteq> kFalse)"

definition dep_inv :: "dep_state \<Rightarrow> bool" where
  "dep_inv s \<longleftrightarrow> (dep_previous_exclusive s \<longrightarrow> dep_episodes s \<noteq> []) \<and> list_all episode_ok (dep_episodes s)"

definition dep_sum :: "Episode list \<Rightarrow> u64" where
  "dep_sum es = sum_list (map ep_cycles es)"

lemma resolve_length [simp]: "length (resolve addr hit es) = length es"
  by (induction es) simp_all

lemma resolve_nil [simp]: "resolve addr hit es = [] \<longleftrightarrow> es = []"
  by (cases es) simp_all

lemma resolve_sum [simp]: "dep_sum (resolve addr hit es) = dep_sum es"
  by (induction es) (simp_all add: dep_sum_def)

lemma resolve_ok: "list_all episode_ok es \<Longrightarrow> list_all episode_ok (resolve addr hit es)"
  by (induction es) (auto simp: episode_ok_def matches_def)

lemma new_episode_ok: "episode_ok (new_episode now x)"
  by (simp add: episode_ok_def new_episode_def Let_def)

lemma bump_last_snoc [simp]: "bump_last (es @ [e]) = Inr (es @ [e\<lparr>ep_cycles := ep_cycles e + 1\<rparr>])"
  by (simp add: bump_last_def)

text \<open>What one sample does to the episodes, given the invariant.\<close>

lemma sample_effect:
  fixes s x
  assumes "dep_inv s" "dep_enabled s"
  defines "ex \<equiv> dep_roi_active s \<and> exclusive_stall x"
  shows "\<exists>t. dependency_observer_sample x s = Inr t \<and> dep_inv t
    \<and> dep_previous_exclusive t = ex \<and> dep_roi_cycles t = dep_roi_cycles s
    \<and> dep_sum (dep_episodes t) = dep_sum (dep_episodes s) + b2w ex
    \<and> length (dep_episodes t) = length (dep_episodes s) + of_bool (ex \<and> \<not> dep_previous_exclusive s)"
proof -
  let ?es = "if ex \<and> \<not> dep_previous_exclusive s
             then dep_episodes s @ [new_episode (dep_roi_cycles s) x] else dep_episodes s"
  have ok: "list_all episode_ok ?es" using assms(1) by (simp add: dep_inv_def new_episode_ok)
  have "\<exists>es'. (if ex then bump_last ?es else Inr ?es) = Inr es' \<and> list_all episode_ok es'
      \<and> (ex \<longrightarrow> es' \<noteq> []) \<and> length es' = length ?es \<and> dep_sum es' = dep_sum ?es + b2w ex"
  proof (cases ex)
    case True
    then obtain es e where e: "?es = es @ [e]"
      using assms(1) by (cases ?es rule: rev_cases) (auto simp: dep_inv_def split: if_splits)
    with ok True show ?thesis
      by (auto simp: e dep_sum_def episode_ok_def add.assoc simp del: append_eq_append_conv)
  next
    case False
    with ok show ?thesis by simp
  qed
  then obtain es' where es': "(if ex then bump_last ?es else Inr ?es) = Inr es'" "list_all episode_ok es'"
    "ex \<longrightarrow> es' \<noteq> []" "length es' = length ?es" "dep_sum es' = dep_sum ?es + b2w ex" by blast
  have "dep_sum ?es = dep_sum (dep_episodes s)" by (simp add: dep_sum_def new_episode_def Let_def)
  with es' assms(2) show ?thesis
    by (auto simp: dependency_observer_sample_def Let_def dep_inv_def resolve_ok ex_def [symmetric])
qed

lemma sample_inv: "dep_inv s \<Longrightarrow> \<exists>t. dependency_observer_sample x s = Inr t \<and> dep_inv t"
  using sample_effect [of s x] by (cases "dep_enabled s") (auto simp: dependency_observer_sample_def)

lemma dep_own_inv: "dep_inv s \<Longrightarrow> \<exists>t. dep_own e s = Inr t \<and> dep_inv t"
  using sample_inv [of s] by (cases e) (simp_all add: dependency_observer_cycle_def dep_inv_def)

lemma update_roi_inv: "dep_inv s \<Longrightarrow> dep_inv (dependency_observer_update_roi w pc s)"
  by (auto simp: dep_roi_defs dep_inv_def)

lemma init_inv: "dep_inv (dependency_observer_init_from_env env s0)"
  by (auto simp: dependency_observer_init_from_env_def dependency_observer_init_def dep_reset_profile_def
      dep_inv_def Let_def split: prod.splits)

lemma dep_run_inv:
  "dep_inv s \<Longrightarrow> \<exists>t. run_events dependency_observer_update_roi dep_own es s = Inr t \<and> dep_inv t"
proof (induction es arbitrary: s)
  case (Cons e es)
  show ?case
  proof (cases e)
    case (Retire w pc)
    with Cons update_roi_inv [OF Cons.prems, of w pc] show ?thesis by simp
  next
    case (Own x)
    with Cons dep_own_inv [OF Cons.prems, of x] show ?thesis by auto
  qed
qed simp

section \<open>Totals\<close>

lemma dep_count_snoc: "dep_count (es @ [e]) = dep_total_step e (dep_count es)"
  by (simp add: dep_count_def)

lemma dep_count_nil: "dep_count [] = dep_totals_zero"
  by (simp add: dep_count_def)

lemma tot_dependency_sum: "tot_dependency (dep_count es) = dep_sum es"
  by (induction es rule: rev_induct)
     (auto simp: dep_count_snoc dep_count_nil dep_total_step_def dep_totals_zero_def dep_sum_def Let_def)

definition unresolved_episodes :: "Episode list \<Rightarrow> Episode list" where
  "unresolved_episodes es = filter (\<lambda>e. ep_producer_class e = kLoad \<and> ep_source e \<noteq> kFalse
     \<and> ep_load_outcome e \<notin> {kHit, kMiss}) es"

lemma dep_count_partition:
  fixes es
  defines "t \<equiv> dep_count es"
  shows "tot_dependency t = tot_load t + tot_mul t + tot_other t"
    and "tot_load t = tot_hit t + tot_miss t + dep_sum (unresolved_episodes es)"
    and "tot_load_n t = tot_hit_n t + tot_miss_n t + tot_unresolved t"
    and "tot_unresolved t = of_nat (length (unresolved_episodes es))"
  unfolding t_def
  by (induction es rule: rev_induct)
     (auto simp: dep_count_snoc dep_count_nil dep_total_step_def dep_totals_zero_def Let_def
        unresolved_episodes_def dep_sum_def)

text \<open>
  A sample in which the instruction \<open>add x1, x2, x3\<close> waits for a load of \<open>x2\<close>, and one in which the
  data cache serves that load.
\<close>

definition load_use_sample :: DependencyObserverSample where
  "load_use_sample = \<lparr>ds_dependency_stall = True, ds_dcache_total_stall = False, ds_divider_stall = False,
     ds_branch_recovery = False, ds_dcache_load_access = False, ds_dcache_hit = False, ds_dcache_miss = False,
     ds_dcache_address = 0, ds_consumer_pc = 0x80000004, ds_consumer_inst = 0x003100b3,
     ds_producer_pc = 0x80000000, ds_producer_inst = 0x00003103, ds_producer_rd = 2,
     ds_producer_address = 0x80001004\<rparr>"

definition load_hit_sample :: DependencyObserverSample where
  "load_hit_sample = load_use_sample\<lparr>ds_dependency_stall := False, ds_dcache_load_access := True,
     ds_dcache_hit := True, ds_dcache_address := 0x80001000\<rparr>"

text \<open>Maximal runs of exclusive stalls, and the exclusive stalls, of a sequence of events.\<close>

fun rising :: "bool \<Rightarrow> dep_event list \<Rightarrow> nat" where
  "rising prev [] = 0"
| "rising prev (D_cycle # es) = rising prev es"
| "rising prev (D_sample x # es) = of_bool (exclusive_stall x \<and> \<not> prev) + rising (exclusive_stall x) es"

definition stalls :: "dep_event list \<Rightarrow> DependencyObserverSample list" where
  "stalls es = concat (map (\<lambda>e. case e of D_cycle \<Rightarrow> [] | D_sample x \<Rightarrow> if exclusive_stall x then [x] else []) es)"

section \<open>Properties\<close>

text \<open>
  C21. The dependency observer is memory-safe and keeps its episodes consistent: from any
  initialisation by the environment, every sequence of retirements, cycles and samples runs without
  reaching \<open>back\<close> of an empty vector, and in every state reached an episode has a load outcome
  exactly when its producer is a load the consumer really reads.
\<close>

theorem dep_observer_safe:
  "\<exists>t. run_events dependency_observer_update_roi dep_own es
         (dependency_observer_init_from_env env s0) = Inr t \<and> dep_inv t"
  by (rule dep_run_inv [OF init_inv])

text \<open>
  C22. Inside the window the profile counts exactly: \<open>roi_cycles\<close> grows by one per cycle event, the
  cycles of the episodes by one per exclusive dependency stall, and the number of episodes by one per
  maximal run of consecutive exclusive stalls.
\<close>

theorem dep_profile_counts:
  assumes "dep_inv s" and "dep_enabled s" and "dep_roi_active s"
  shows "\<exists>t. run_events dependency_observer_update_roi dep_own (map Own es) s = Inr t
    \<and> dep_roi_cycles t = dep_roi_cycles s + of_nat (length (filter (\<lambda>e. e = D_cycle) es))
    \<and> tot_dependency (dep_count (dep_episodes t))
        = tot_dependency (dep_count (dep_episodes s)) + of_nat (length (stalls es))
    \<and> length (dep_episodes t) = length (dep_episodes s) + rising (dep_previous_exclusive s) es"
  unfolding tot_dependency_sum using assms
proof (induction es arbitrary: s)
  case Nil
  then show ?case by (simp add: stalls_def)
next
  case (Cons e es)
  show ?case
  proof (cases e)
    case D_cycle
    let ?u = "dependency_observer_cycle s"
    have u: "dep_inv ?u" "dep_enabled ?u" "dep_roi_active ?u"
      using Cons.prems by (simp_all add: dependency_observer_cycle_def dep_inv_def)
    from Cons.IH [OF u] Cons.prems D_cycle show ?thesis
      by (auto simp: dependency_observer_cycle_def stalls_def)
  next
    case (D_sample x)
    obtain u where u: "dependency_observer_sample x s = Inr u" "dep_inv u"
      "dep_previous_exclusive u = exclusive_stall x" "dep_roi_cycles u = dep_roi_cycles s"
      "dep_sum (dep_episodes u) = dep_sum (dep_episodes s) + b2w (exclusive_stall x)"
      "length (dep_episodes u) = length (dep_episodes s) + of_bool (exclusive_stall x \<and> \<not> dep_previous_exclusive s)"
      using sample_effect [of s x] Cons.prems by auto
    moreover have "dep_enabled u" "dep_roi_active u"
      using dep_own_frame [of "D_sample x" s u] u(1) Cons.prems by (auto simp: dep_flags_def)
    ultimately show ?thesis
      using Cons.IH [of u] D_sample by (auto simp: stalls_def b2w_def)
  qed
qed

theorem dep_profile_counts_witness:
  "\<exists>t. run_events dependency_observer_update_roi dep_own
          (map Own [D_cycle, D_sample load_use_sample, D_cycle, D_sample load_use_sample, D_cycle,
                    D_sample load_hit_sample])
          (dependency_observer_init (Some ''out.json'') None dep_state_init) = Inr t
     \<and> dep_roi_cycles t = 3 \<and> tot_dependency (dep_count (dep_episodes t)) = 2
     \<and> length (dep_episodes t) = 1"
proof -
  let ?s = "dependency_observer_init (Some ''out.json'') None dep_state_init"
  have "dep_inv ?s" "dep_enabled ?s" "dep_roi_active ?s" "dep_roi_cycles ?s = 0" "dep_episodes ?s = []"
    "\<not> dep_previous_exclusive ?s"
    by (simp_all add: dep_inv_def dependency_observer_init_def dep_reset_profile_def)
  with dep_profile_counts [of ?s "[D_cycle, D_sample load_use_sample, D_cycle, D_sample load_use_sample,
      D_cycle, D_sample load_hit_sample]"]
  show ?thesis
    by (simp add: stalls_def exclusive_stall_def load_use_sample_def load_hit_sample_def
        dep_count_nil dep_totals_zero_def)
qed

text \<open>
  A successful report accounts for every cycle: when the observer returns status 0 with a report
  written, the window was closed if one was requested, no load outcome is open (fewer than \<open>2 ^ 64\<close>
  episodes), every load-use cycle is a hit or a miss cycle, and the dependency cycles are the disjoint
  sum of the hit, miss, multiply and other cycles.
\<close>

theorem dep_report_accounts:
  assumes "dependency_observer_finalize can_open s st = (0, Some txt)"
    and "length (dep_episodes s) < 2 ^ 64"
  shows "let t = dep_count (dep_episodes s) in
    txt = dep_report s st \<and> (dep_roi_requested s \<longrightarrow> dep_roi_started s \<and> dep_roi_ended s)
    \<and> unresolved_episodes (dep_episodes s) = []
    \<and> tot_load t = tot_hit t + tot_miss t \<and> tot_load_n t = tot_hit_n t + tot_miss_n t
    \<and> tot_dependency t = tot_hit t + tot_miss t + tot_mul t + tot_other t"
proof -
  let ?t = "dep_count (dep_episodes s)"
  have u: "tot_unresolved ?t = 0" and r: "txt = dep_report s st" "dep_roi_valid s"
    using assms(1) by (auto simp: dependency_observer_finalize_def split: if_splits)
  have "length (unresolved_episodes (dep_episodes s)) < 2 ^ 64"
    using assms(2) by (auto simp: unresolved_episodes_def intro: le_less_trans [OF length_filter_le])
  then have "unat (of_nat (length (unresolved_episodes (dep_episodes s))) :: u64)
      = length (unresolved_episodes (dep_episodes s))"
    by (intro unat_of_nat_small) simp
  then have "unresolved_episodes (dep_episodes s) = []"
    using dep_count_partition(4) [of "dep_episodes s"] u by simp
  with u r show ?thesis
    using dep_count_partition [of "dep_episodes s"] by (simp add: dep_roi_valid_def dep_sum_def Let_def)
qed

theorem dep_report_accounts_witness:
  "\<exists>t txt. run_events dependency_observer_update_roi dep_own
          [Own D_cycle, Own (D_sample load_use_sample), Own D_cycle, Own (D_sample load_hit_sample)]
          (dependency_observer_init (Some ''out.json'') None dep_state_init) = Inr t
     \<and> dependency_observer_finalize (\<lambda>_. True) t 0 = (0, Some txt)
     \<and> txt = dep_report t 0 \<and> unresolved_episodes (dep_episodes t) = []
     \<and> tot_dependency (dep_count (dep_episodes t)) = 1 \<and> tot_hit (dep_count (dep_episodes t)) = 1"
proof -
  let ?s = "dependency_observer_init (Some ''out.json'') None dep_state_init"
  let ?e = "(new_episode 1 load_use_sample)\<lparr>ep_cycles := 1, ep_load_outcome := kHit\<rparr>"
  let ?t = "?s\<lparr>dep_roi_cycles := 2, dep_episodes := [?e]\<rparr>"
  have run: "run_events dependency_observer_update_roi dep_own
      [Own D_cycle, Own (D_sample load_use_sample), Own D_cycle, Own (D_sample load_hit_sample)] ?s = Inr ?t"
    by (simp add: dependency_observer_init_def dep_reset_profile_def dep_state_init_def
        dependency_observer_cycle_def dependency_observer_sample_def exclusive_stall_def
        load_use_sample_def load_hit_sample_def new_episode_def is_load_def is_multiply_def bump_last_def
        classify_source_def operand_use_def matches_def Let_def)
  have cls: "ep_producer_class ?e = kLoad" "ep_source ?e = kRs1"
    by (simp_all add: new_episode_def load_use_sample_def is_load_def classify_source_def operand_use_def Let_def)
  then have cnt: "tot_unresolved (dep_count (dep_episodes ?t)) = 0"
      "tot_dependency (dep_count (dep_episodes ?t)) = 1" "tot_hit (dep_count (dep_episodes ?t)) = 1"
    by (simp_all add: dep_count_def dep_total_step_def dep_totals_zero_def Let_def)
  then have "dependency_observer_finalize (\<lambda>_. True) ?t 0 = (0, Some (dep_report ?t 0))"
    by (simp add: dependency_observer_finalize_def dep_roi_valid_def dependency_observer_init_def
        dep_reset_profile_def)
  moreover from dep_report_accounts [OF this] have "unresolved_episodes (dep_episodes ?t) = []"
    by (simp add: Let_def)
  ultimately show ?thesis using run cnt by blast
qed

end
