(* ===== verification/Sim_Core.thy ===== *)
theory Sim_Core
  imports Phys_Mem Cpu_Regs Dep_Observer
begin

text \<open>
  The simulation loop (\<open>src/sim/csrc/sim_main.cpp\<close>), differential testing against a reference
  simulator (\<open>src/sim/csrc/difftest.cpp\<close>) and the monitors compiled into the simulator.

  Two parts are not C++ sources of the repository and are parameters. The verilated core \<open>Vtop\<close> is a
  record of functions on an abstract state \<open>'v\<close>: \<open>eval\<close> gives an interaction tree of the DPI calls it
  makes, whose answers the simulator computes with \<open>mem_read\<close> and \<open>mem_write\<close>; the output ports and
  the register array it exports are read from the state. The reference simulator, loaded from a shared
  object, is a record of functions on an abstract state \<open>'r\<close>.
\<close>

section \<open>The core and the reference simulator\<close>

datatype 'v dpi =
    Done 'v
  | Mem_read u32 u8 u64 "u64 \<Rightarrow> 'v dpi"
  | Mem_write u32 u64 u8 u8 "'v dpi"
  | Set_ebreak u8 "'v dpi"
  | Set_gpr_ptr bool "'v dpi"

record outs =
  wb_sign :: bool
  wb_pc :: u64
  wb_inst :: u32
  wb_intr :: bool
  intr_num :: u64
  wb_device :: bool
  perf_ports :: DependencyObserverSample
  loaduse_p1_hit_bypass_event :: u64
  loaduse_p1_miss_hazard_event :: u64
  loaduse_p1_operand_bypass_event :: u64

record 'v vtop =
  v_new :: 'v
  v_eval :: "bool \<Rightarrow> bool \<Rightarrow> 'v \<Rightarrow> 'v dpi"
  v_out :: "'v \<Rightarrow> outs"
  v_gpr :: "'v \<Rightarrow> u64 list"
  v_icache :: "'v \<Rightarrow> u32 \<Rightarrow> (u32 \<times> u8) list"

record 'r refsim =
  ref_difftest_memcpy :: "u64 \<Rightarrow> u8 list \<Rightarrow> 'r \<Rightarrow> 'r"
  ref_regcpy_to_ref :: "u64 list \<Rightarrow> 'r \<Rightarrow> 'r"
  ref_regcpy_to_dut :: "'r \<Rightarrow> u64 list"
  ref_difftest_exec :: "u64 \<Rightarrow> 'r \<Rightarrow> 'r"
  ref_difftest_raise_intr :: "u64 \<Rightarrow> 'r \<Rightarrow> 'r"

text \<open>The preprocessor symbols that choose the monitors.\<close>

record build =
  PERFORMANCE_MODEL :: bool
  ICACHE_64SET_MONITOR :: bool
  LOADUSE_P1_MONITOR :: bool

definition NPC_RUNNING :: u8 where "NPC_RUNNING = 0"
definition NPC_END :: u8 where "NPC_END = 1"
definition NPC_QUIT :: u8 where "NPC_QUIT = 2"
definition NPC_ABORT :: u8 where "NPC_ABORT = 3"

lemmas npc_defs = NPC_RUNNING_def NPC_END_def NPC_QUIT_def NPC_ABORT_def

text \<open>What the simulator prints or logs, in order.\<close>

datatype log_entry =
    L_diff nat u64 u64
  | L_regs "(string \<times> u64) list"
  | L_has_abort u64
  | L_has_ended
  | L_abort u64
  | L_end bool u64

record ('v, 'r) sim =
  top :: 'v
  clk :: bool
  rstn :: bool
  main_time :: u64
  cpu_state :: u8
  difftest_error :: bool
  is_ebreak :: u8
  wb_pc_now :: u64
  gpr_ptr :: bool
  wb_num :: u32
  is_skip_ref :: bool
  ref :: 'r
  sim_port :: port
  dep :: dep_state
  hit_bypass_events :: u64
  miss_hazard_events :: u64
  operand_bypass_events :: u64
  icache_64set_executed :: "bool list"
  sim_log :: "log_entry list"

text \<open>The parameters of a simulation: the build, the host clock, the core and the reference.\<close>

record ('v, 'r) env =
  bld :: build
  host_clock :: clock
  vtop :: "'v vtop"
  refsim :: "'r refsim"

definition add_log :: "log_entry \<Rightarrow> ('v, 'r) sim \<Rightarrow> ('v, 'r) sim" where
  "add_log e s = s\<lparr>sim_log := sim_log s @ [e]\<rparr>"

definition set_cpu_state :: "u8 \<Rightarrow> ('v, 'r) sim \<Rightarrow> ('v, 'r) sim" where
  "set_cpu_state n s = s\<lparr>cpu_state := n\<rparr>"

text \<open>Reading through \<open>cpu_gpr\<close> sees the current registers of the core, once the pointer is set.\<close>

definition cpu_gpr :: "('v, 'r) env \<Rightarrow> ('v, 'r) sim \<Rightarrow> u64 list res" where
  "cpu_gpr E s = (if gpr_ptr s then Inr (v_gpr (vtop E) (top s)) else Inl Null_deref)"

section \<open>Evaluating the core\<close>

primrec run_dpi :: "'v dpi \<Rightarrow> clock \<Rightarrow> ('v, 'r) sim \<Rightarrow> ('v, 'r) sim res" where
  "run_dpi (Done v) clock = (\<lambda>s. Inr (s\<lparr>top := v\<rparr>))"
| "run_dpi (Mem_read raddr ren rdata k) clock = (\<lambda>s.
     bindR (mem_read clock (sim_port s) raddr ren rdata)
       (\<lambda>(d, p). run_dpi (k d) clock (s\<lparr>sim_port := p\<rparr>)))"
| "run_dpi (Mem_write waddr wdata wmask wen k) clock = (\<lambda>s.
     bindR (mem_write (sim_port s) (clk s) waddr wdata wmask wen)
       (\<lambda>p. run_dpi k clock (s\<lparr>sim_port := p\<rparr>)))"
| "run_dpi (Set_ebreak e k) clock = (\<lambda>s. run_dpi k clock (s\<lparr>is_ebreak := e\<rparr>))"
| "run_dpi (Set_gpr_ptr ok k) clock = (\<lambda>s. run_dpi k clock (if ok then s\<lparr>gpr_ptr := True\<rparr> else s))"

definition top_eval :: "('v, 'r) env \<Rightarrow> bool \<Rightarrow> ('v, 'r) sim \<Rightarrow> ('v, 'r) sim res" where
  "top_eval E c s = run_dpi (v_eval (vtop E) c (rstn s) (top s)) (host_clock E) (s\<lparr>clk := c\<rparr>)"

definition outputs :: "('v, 'r) env \<Rightarrow> ('v, 'r) sim \<Rightarrow> outs" where
  "outputs E s = v_out (vtop E) (top s)"

section \<open>Monitors\<close>

definition loaduse_p1_monitor_sample :: "('v, 'r) env \<Rightarrow> ('v, 'r) sim \<Rightarrow> ('v, 'r) sim" where
  "loaduse_p1_monitor_sample E s = s\<lparr>
     hit_bypass_events := hit_bypass_events s + loaduse_p1_hit_bypass_event (outputs E s),
     miss_hazard_events := miss_hazard_events s + loaduse_p1_miss_hazard_event (outputs E s),
     operand_bypass_events := operand_bypass_events s + loaduse_p1_operand_bypass_event (outputs E s)\<rparr>"

definition loaduse_p1_monitor_finalize :: "('v, 'r) sim \<Rightarrow> int" where
  "loaduse_p1_monitor_finalize s =
     (if hit_bypass_events s > 0 \<and> miss_hazard_events s > 0
         \<and> operand_bypass_events s = hit_bypass_events s then 0 else 1)"

definition icache_64set_lines :: "u32 list" where
  "icache_64set_lines = [0x80000400, 0x80000800, 0x80000c00, 0x80001000, 0x80001400]"

definition icache_64set_monitor_sample :: "('v, 'r) env \<Rightarrow> ('v, 'r) sim \<Rightarrow> ('v, 'r) sim" where
  "icache_64set_monitor_sample E s =
     (if \<not> wb_sign (outputs E s) then s
      else
        let line_addr = (ucast (wb_pc (outputs E s)) :: u32) AND NOT 0x1f
        in s\<lparr>icache_64set_executed :=
              map (\<lambda>(line, e). if line_addr = line then True else e)
                (zip icache_64set_lines (icache_64set_executed s))\<rparr>)"

text \<open>The way a line is resident in, if any: the loop over the ways keeps the last match.\<close>

definition resident_way :: "(u32 \<times> u8) list \<Rightarrow> u32 \<Rightarrow> int" where
  "resident_way ways tag =
     fold (\<lambda>w r. if bit (snd (ways ! w)) 0 \<and> fst (ways ! w) = tag then int w else r) [0..<4] (- 1)"

definition icache_64set_monitor_finalize :: "('v, 'r) env \<Rightarrow> ('v, 'r) sim \<Rightarrow> int" where
  "icache_64set_monitor_finalize E s =
    (let executed_count = length (filter id (icache_64set_executed s));
         resident_count = length (filter (\<lambda>line_addr.
           resident_way (v_icache (vtop E) (top s) (drop_bit 5 line_addr AND 0x3f)) (drop_bit 11 line_addr) \<ge> 0)
           icache_64set_lines)
     in if executed_count \<noteq> 5 \<or> resident_count \<noteq> 5 then 1 else 0)"

section \<open>Clock cycles\<close>

definition on :: "bool \<Rightarrow> ('s \<Rightarrow> 's) \<Rightarrow> 's \<Rightarrow> 's" where
  "on b f s = (if b then f s else s)"

definition dep_sample_ports :: "('v, 'r) env \<Rightarrow> ('v, 'r) sim \<Rightarrow> ('v, 'r) sim res" where
  "dep_sample_ports E s =
     bindR (dependency_observer_sample (perf_ports (outputs E s)) (dep s)) (\<lambda>d. Inr (s\<lparr>dep := d\<rparr>))"

text \<open>What follows the evaluation with the clock low, and the evaluation with the clock high.\<close>

definition low_phase :: "('v, 'r) env \<Rightarrow> ('v, 'r) sim \<Rightarrow> ('v, 'r) sim" where
  "low_phase E s =
     (let s = on (PERFORMANCE_MODEL (bld E)) (\<lambda>s. s\<lparr>dep := dependency_observer_cycle (dep s)\<rparr>) s;
          s = on (LOADUSE_P1_MONITOR (bld E)) (loaduse_p1_monitor_sample E) s;
          s = on (ICACHE_64SET_MONITOR (bld E)) (icache_64set_monitor_sample E) s
      in s\<lparr>main_time := main_time s + 1\<rparr>)"

definition high_phase :: "('v, 'r) env \<Rightarrow> ('v, 'r) sim \<Rightarrow> ('v, 'r) sim res" where
  "high_phase E s =
     bindR (if PERFORMANCE_MODEL (bld E) then dep_sample_ports E s else Inr s) (\<lambda>s.
       let s = on (ICACHE_64SET_MONITOR (bld E)) (icache_64set_monitor_sample E) s
       in Inr (s\<lparr>main_time := main_time s + 1\<rparr>))"

definition single_cycle :: "('v, 'r) env \<Rightarrow> ('v, 'r) sim \<Rightarrow> ('v, 'r) sim res" where
  "single_cycle E s =
     bindR (top_eval E False s) (\<lambda>s. bindR (top_eval E True (low_phase E s)) (high_phase E))"

fun cycles :: "('v, 'r) env \<Rightarrow> nat \<Rightarrow> ('v, 'r) sim \<Rightarrow> ('v, 'r) sim res" where
  "cycles E 0 s = Inr s"
| "cycles E (Suc n) s = bindR (single_cycle E s) (cycles E n)"

definition reset :: "('v, 'r) env \<Rightarrow> nat \<Rightarrow> ('v, 'r) sim \<Rightarrow> ('v, 'r) sim res" where
  "reset E n s = bindR (cycles E n (s\<lparr>rstn := False\<rparr>)) (\<lambda>s. Inr (s\<lparr>rstn := True\<rparr>))"

section \<open>Differential testing\<close>

text \<open>
  \<open>init_difftest\<close>: the reference receives the image, then the registers. A missing file or symbol
  fails an assertion; \<open>so\<close> is the reference that the loader found, if any.
\<close>

definition init_difftest :: "('v, 'r) env \<Rightarrow> 'r option \<Rightarrow> u8 list \<Rightarrow> ('v, 'r) sim \<Rightarrow> ('v, 'r) sim res" where
  "init_difftest E so img s =
     (case so of
       None \<Rightarrow> Inl Assert_fail
     | Some r0 \<Rightarrow>
         bindR (cpu_gpr E s) (\<lambda>gpr.
           Inr (s\<lparr>ref := ref_regcpy_to_ref (refsim E) gpr (ref_difftest_memcpy (refsim E) CONFIG_PC_RET img r0)\<rparr>)))"

definition difftest_skip_ref :: "('v, 'r) sim \<Rightarrow> ('v, 'r) sim" where
  "difftest_skip_ref s = s\<lparr>is_skip_ref := True\<rparr>"

definition difftest_step :: "('v, 'r) env \<Rightarrow> ('v, 'r) sim \<Rightarrow> ('v, 'r) sim res" where
  "difftest_step E s =
    (if is_skip_ref s
     then bindR (cpu_gpr E s) (\<lambda>gpr. Inr (s\<lparr>ref := ref_regcpy_to_ref (refsim E) gpr (ref s), is_skip_ref := False\<rparr>))
     else Inr (s\<lparr>ref := ref_difftest_exec (refsim E) 1 (ref s)\<rparr>))"

text \<open>The first of the 33 registers that differs, if any; the check also logs it.\<close>

definition first_diff :: "u64 list \<Rightarrow> u64 list \<Rightarrow> nat option" where
  "first_diff ref_reg gpr = find (\<lambda>i. ref_reg ! i \<noteq> gpr ! i) [0..<33]"

definition ref_difftest_checkregs :: "('v, 'r) env \<Rightarrow> ('v, 'r) sim \<Rightarrow> (bool \<times> ('v, 'r) sim) res" where
  "ref_difftest_checkregs E s =
     bindR (cpu_gpr E s) (\<lambda>gpr.
       let ref_reg = ref_regcpy_to_dut (refsim E) (ref s)
       in case first_diff ref_reg gpr of
            None \<Rightarrow> Inr (True, s)
          | Some i \<Rightarrow> Inr (False, add_log (L_diff i (ref_reg ! i) (gpr ! i)) s))"

definition isa_reg_display :: "('v, 'r) env \<Rightarrow> ('v, 'r) sim \<Rightarrow> ('v, 'r) sim res" where
  "isa_reg_display E s =
     bindR (cpu_gpr E s) (\<lambda>gpr. Inr (add_log (L_regs (map (\<lambda>i. (regs ! i, gpr ! i)) [0..<33])) s))"

definition difftest_check :: "('v, 'r) env \<Rightarrow> ('v, 'r) sim \<Rightarrow> ('v, 'r) sim res" where
  "difftest_check E s =
     bindR (ref_difftest_checkregs E s) (\<lambda>(ok, s).
       if ok then Inr s
       else bindR (isa_reg_display E (set_cpu_state NPC_ABORT s)) (\<lambda>s. Inr (s\<lparr>difftest_error := True\<rparr>)))"

section \<open>Executing\<close>

definition compare_step :: "('v, 'r) env \<Rightarrow> ('v, 'r) sim \<Rightarrow> ('v, 'r) sim res" where
  "compare_step E s =
     bindR (difftest_step E s) (\<lambda>s.
       let s = (if wb_intr (outputs E s)
                then s\<lparr>ref := ref_difftest_raise_intr (refsim E) (intr_num (outputs E s)) (ref s)\<rparr> else s)
       in bindR (difftest_check E s) (\<lambda>s.
            Inr (if wb_device (outputs E s) then difftest_skip_ref s else s)))"

definition exec_once :: "('v, 'r) env \<Rightarrow> ('v, 'r) sim \<Rightarrow> ('v, 'r) sim res" where
  "exec_once E s0 =
    (let s = on (PERFORMANCE_MODEL (bld E))
               (\<lambda>s. s\<lparr>dep := dependency_observer_update_roi (wb_sign (outputs E s)) (wb_pc (outputs E s)) (dep s)\<rparr>) s0
     in if wb_sign (outputs E s)
        then
          let s = s\<lparr>wb_pc_now := wb_pc (outputs E s)\<rparr>
          in bindR (if wb_num s \<noteq> 0 then compare_step E s else Inr s)
               (\<lambda>s. Inr (s\<lparr>wb_num := wb_num s + 1\<rparr>))
        else Inr s)"

fun cpu_loop :: "('v, 'r) env \<Rightarrow> nat \<Rightarrow> ('v, 'r) sim \<Rightarrow> ('v, 'r) sim res" where
  "cpu_loop E 0 s = Inr s"
| "cpu_loop E (Suc n) s =
     (if difftest_error s then Inr s
      else bindR (exec_once E s) (\<lambda>s.
        if is_ebreak s = 1 then Inr (set_cpu_state NPC_END s)
        else bindR (single_cycle E s) (cpu_loop E n)))"

definition cpu_exec_end :: "('v, 'r) env \<Rightarrow> ('v, 'r) sim \<Rightarrow> ('v, 'r) sim res" where
  "cpu_exec_end E s =
     (if cpu_state s = NPC_ABORT then Inr (add_log (L_abort (wb_pc_now s)) s)
      else if cpu_state s = NPC_END
      then bindR (cpu_gpr E s) (\<lambda>gpr. Inr (add_log (L_end (gpr ! 10 = 0) (wb_pc_now s)) s))
      else Inr (set_cpu_state NPC_RUNNING s))"

definition cpu_exec :: "('v, 'r) env \<Rightarrow> u32 \<Rightarrow> ('v, 'r) sim \<Rightarrow> ('v, 'r) sim res" where
  "cpu_exec E n s =
     (if cpu_state s = NPC_ABORT then Inr (add_log (L_has_abort (wb_pc_now s)) s)
      else if cpu_state s = NPC_QUIT then Inr s
      else if cpu_state s = NPC_END then Inr (add_log L_has_ended s)
      else bindR (cpu_loop E (unat n) (set_cpu_state NPC_RUNNING s)) (cpu_exec_end E))"

definition is_exit_status_bad :: "('v, 'r) env \<Rightarrow> ('v, 'r) sim \<Rightarrow> int res" where
  "is_exit_status_bad E s =
     (if cpu_state s = NPC_END
      then bindR (cpu_gpr E s) (\<lambda>gpr. Inr (if gpr ! 10 = 0 then 0 else 1))
      else Inr (if cpu_state s = NPC_QUIT then 0 else 1))"

section \<open>What a clock cycle leaves alone\<close>

text \<open>The state of the execution loop and of differential testing.\<close>

definition ctl :: "('v, 'r) sim \<Rightarrow> u8 \<times> bool \<times> u64 \<times> u32 \<times> bool \<times> 'r \<times> log_entry list" where
  "ctl s = (cpu_state s, difftest_error s, wb_pc_now s, wb_num s, is_skip_ref s, ref s, sim_log s)"

lemma run_dpi_ctl: "run_dpi d clock s = Inr t \<Longrightarrow> ctl t = ctl s \<and> main_time t = main_time s \<and> rstn t = rstn s"
proof (induction d arbitrary: s)
  case (Mem_read raddr ren rdata k)
  then obtain x p where "run_dpi (k x) clock (s\<lparr>sim_port := p\<rparr>) = Inr t"
    by (auto simp: bindR_Inr_iff)
  with Mem_read.IH [of "k x" "s\<lparr>sim_port := p\<rparr>"] show ?case by (simp add: ctl_def)
next
  case (Mem_write waddr wdata wmask wen k)
  then obtain p where "run_dpi k clock (s\<lparr>sim_port := p\<rparr>) = Inr t" by (auto simp: bindR_Inr_iff)
  with Mem_write.IH [of "s\<lparr>sim_port := p\<rparr>"] show ?case by (simp add: ctl_def)
next
  case (Set_ebreak e k)
  with Set_ebreak.IH [of "s\<lparr>is_ebreak := e\<rparr>"] show ?case by (simp add: ctl_def)
next
  case (Set_gpr_ptr ok k)
  with Set_gpr_ptr.IH [of "if ok then s\<lparr>gpr_ptr := True\<rparr> else s"] show ?case by (simp add: ctl_def split: if_splits)
qed (auto simp: ctl_def)

lemma top_eval_ctl:
  "top_eval E c s = Inr t \<Longrightarrow> ctl t = ctl s \<and> main_time t = main_time s \<and> rstn t = rstn s"
  using run_dpi_ctl by (fastforce simp: top_eval_def ctl_def)

lemma monitor_ctl:
  "ctl (on b (\<lambda>s. s\<lparr>dep := f (dep s)\<rparr>) s) = ctl s"
  "ctl (on b (loaduse_p1_monitor_sample E) s) = ctl s"
  "ctl (on b (icache_64set_monitor_sample E) s) = ctl s"
  "ctl (s\<lparr>main_time := n\<rparr>) = ctl s"
  by (simp_all add: on_def ctl_def loaduse_p1_monitor_sample_def icache_64set_monitor_sample_def Let_def)

lemma monitor_time:
  "main_time (on b (\<lambda>s. s\<lparr>dep := f (dep s)\<rparr>) s) = main_time s"
  "main_time (on b (loaduse_p1_monitor_sample E) s) = main_time s"
  "main_time (on b (icache_64set_monitor_sample E) s) = main_time s"
  by (simp_all add: on_def loaduse_p1_monitor_sample_def icache_64set_monitor_sample_def Let_def)

lemma dep_sample_ctl:
  "dep_sample_ports E s = Inr t \<Longrightarrow> ctl t = ctl s \<and> main_time t = main_time s"
  by (auto simp: dep_sample_ports_def bindR_Inr_iff ctl_def)

lemma low_phase_ctl: "ctl (low_phase E s) = ctl s \<and> main_time (low_phase E s) = main_time s + 1"
  by (simp add: low_phase_def Let_def monitor_ctl monitor_time)

lemma high_phase_ctl:
  "high_phase E s = Inr t \<Longrightarrow> ctl t = ctl s \<and> main_time t = main_time s + 1"
  using dep_sample_ctl [of E s]
  by (auto simp: high_phase_def bindR_Inr_iff Let_def monitor_ctl monitor_time split: if_splits)

lemma single_cycle_ctl:
  assumes "single_cycle E s = Inr t"
  shows "ctl t = ctl s \<and> main_time t = main_time s + 2"
proof -
  obtain u v where u: "top_eval E False s = Inr u" and v: "top_eval E True (low_phase E u) = Inr v"
    and t: "high_phase E v = Inr t"
    using assms by (auto simp: single_cycle_def bindR_Inr_iff)
  show ?thesis
    using top_eval_ctl [OF u] low_phase_ctl [of E u] top_eval_ctl [OF v] high_phase_ctl [OF t] by simp
qed

section \<open>Comparing\<close>

definition regs_agree :: "('v, 'r) env \<Rightarrow> ('v, 'r) sim \<Rightarrow> bool" where
  "regs_agree E s \<longleftrightarrow> (\<forall>i<33. ref_regcpy_to_dut (refsim E) (ref s) ! i = v_gpr (vtop E) (top s) ! i)"

lemma first_diff_None: "first_diff xs ys = None \<longleftrightarrow> (\<forall>i<33. xs ! i = ys ! i)"
  by (auto simp: first_diff_def find_None_iff)

lemma cpu_gpr_cong: "gpr_ptr t = gpr_ptr s \<Longrightarrow> top t = top s \<Longrightarrow> cpu_gpr E t = cpu_gpr E s"
  by (simp add: cpu_gpr_def)

lemma difftest_check_cases:
  assumes "difftest_check E s = Inr t"
  shows "top t = top s \<and> ref t = ref s \<and> wb_num t = wb_num s \<and> is_ebreak t = is_ebreak s
    \<and> gpr_ptr t = gpr_ptr s \<and> is_skip_ref t = is_skip_ref s
    \<and> (if regs_agree E s then difftest_error t = difftest_error s \<and> cpu_state t = cpu_state s
       else difftest_error t \<and> cpu_state t = NPC_ABORT)"
proof -
  let ?g = "v_gpr (vtop E) (top s)" and ?r = "ref_regcpy_to_dut (refsim E) (ref s)"
  have g: "gpr_ptr s" using assms
    by (auto simp: difftest_check_def ref_difftest_checkregs_def cpu_gpr_def split: if_splits)
  have ok: "regs_agree E s \<longleftrightarrow> first_diff ?r ?g = None" by (simp add: regs_agree_def first_diff_None)
  show ?thesis
  proof (cases "first_diff ?r ?g")
    case None
    with assms g ok show ?thesis by (simp add: difftest_check_def ref_difftest_checkregs_def cpu_gpr_def)
  next
    case (Some i)
    with assms g have "t = (add_log (L_regs (map (\<lambda>i. (regs ! i, ?g ! i)) [0..<33]))
        (set_cpu_state NPC_ABORT (add_log (L_diff i (?r ! i) (?g ! i)) s)))\<lparr>difftest_error := True\<rparr>"
      by (simp add: difftest_check_def ref_difftest_checkregs_def isa_reg_display_def cpu_gpr_def
          set_cpu_state_def add_log_def)
    with Some ok show ?thesis by (simp add: add_log_def set_cpu_state_def)
  qed
qed

lemma difftest_step_frame:
  "difftest_step E s = Inr t \<Longrightarrow> top t = top s \<and> gpr_ptr t = gpr_ptr s \<and> wb_num t = wb_num s
     \<and> is_ebreak t = is_ebreak s \<and> difftest_error t = difftest_error s \<and> cpu_state t = cpu_state s"
  by (auto simp: difftest_step_def bindR_Inr_iff split: if_splits)

lemma compare_step_cases:
  assumes "compare_step E s = Inr t"
  shows "top t = top s \<and> is_ebreak t = is_ebreak s \<and> wb_num t = wb_num s \<and> gpr_ptr t = gpr_ptr s
    \<and> (if regs_agree E t then difftest_error t = difftest_error s \<and> cpu_state t = cpu_state s
       else difftest_error t \<and> cpu_state t = NPC_ABORT)"
proof -
  from assms obtain u w where u: "difftest_step E s = Inr u"
    and w: "difftest_check E (if wb_intr (outputs E u)
        then u\<lparr>ref := ref_difftest_raise_intr (refsim E) (intr_num (outputs E u)) (ref u)\<rparr> else u) = Inr w"
    and t: "t = (if wb_device (outputs E w) then difftest_skip_ref w else w)"
    by (auto simp: compare_step_def bindR_Inr_iff Let_def)
  have "regs_agree E t = regs_agree E w"
    by (simp add: t regs_agree_def difftest_skip_ref_def)
  with difftest_step_frame [OF u] difftest_check_cases [OF w] show ?thesis
    by (auto simp: t difftest_skip_ref_def regs_agree_def split: if_splits)
qed

text \<open>The comparison an execution step makes, and that it succeeded.\<close>

definition compared :: "('v, 'r) env \<Rightarrow> ('v, 'r) sim \<Rightarrow> bool" where
  "compared E s \<longleftrightarrow> wb_sign (outputs E s) \<and> wb_num s \<noteq> 0"

lemma exec_once_cases:
  assumes "exec_once E s = Inr t"
  shows "top t = top s \<and> is_ebreak t = is_ebreak s \<and> gpr_ptr t = gpr_ptr s
    \<and> (if compared E s \<and> \<not> regs_agree E t then difftest_error t \<and> cpu_state t = NPC_ABORT
       else difftest_error t = difftest_error s \<and> cpu_state t = cpu_state s)"
proof -
  define u where "u = on (PERFORMANCE_MODEL (bld E)) (\<lambda>s. s\<lparr>dep := dependency_observer_update_roi
      (wb_sign (outputs E s)) (wb_pc (outputs E s)) (dep s)\<rparr>) s"
  have u: "top u = top s" "is_ebreak u = is_ebreak s" "gpr_ptr u = gpr_ptr s" "wb_num u = wb_num s"
      "difftest_error u = difftest_error s" "cpu_state u = cpu_state s" "outputs E u = outputs E s"
    by (simp_all add: u_def on_def outputs_def)
  let ?v = "u\<lparr>wb_pc_now := wb_pc (outputs E u)\<rparr>"
  consider (idle) "\<not> wb_sign (outputs E s)" "t = u"
    | (first) "wb_num s = 0" "t = ?v\<lparr>wb_num := wb_num u + 1\<rparr>"
    | (cmp) w where "compared E s" "compare_step E ?v = Inr w" "t = w\<lparr>wb_num := wb_num w + 1\<rparr>"
    using assms u by (auto simp: exec_once_def u_def [symmetric] Let_def bindR_Inr_iff compared_def
        split: if_splits)
  then show ?thesis
  proof cases
    case cmp
    from compare_step_cases [OF cmp(2)] cmp u show ?thesis
      by (auto simp: regs_agree_def split: if_splits)
  qed (use u in \<open>auto simp: compared_def\<close>)
qed

section \<open>Lockstep\<close>

text \<open>
  \<open>lockstep E s t\<close>: the loop goes from \<open>s\<close> to \<open>t\<close> by execution steps, each of which found the core
  and the reference in agreement whenever it compared them.
\<close>

inductive lockstep :: "('v, 'r) env \<Rightarrow> ('v, 'r) sim \<Rightarrow> ('v, 'r) sim \<Rightarrow> bool" for E where
  ls_stop: "lockstep E s s"
| ls_ebreak: "exec_once E s = Inr u \<Longrightarrow> compared E s \<longrightarrow> regs_agree E u \<Longrightarrow> is_ebreak u = 1 \<Longrightarrow>
    lockstep E s (set_cpu_state NPC_END u)"
| ls_step: "exec_once E s = Inr u \<Longrightarrow> compared E s \<longrightarrow> regs_agree E u \<Longrightarrow> is_ebreak u \<noteq> 1 \<Longrightarrow>
    single_cycle E u = Inr v \<Longrightarrow> lockstep E v t \<Longrightarrow> lockstep E s t"

lemma cpu_loop_stopped: "difftest_error s \<Longrightarrow> cpu_loop E n s = Inr s"
  by (cases n) simp_all

lemma cpu_loop_lockstep:
  "cpu_loop E n s = Inr t \<Longrightarrow> \<not> difftest_error t \<Longrightarrow> lockstep E s t"
proof (induction n arbitrary: s)
  case 0
  then show ?case by (simp add: ls_stop)
next
  case (Suc n)
  show ?case
  proof (cases "difftest_error s")
    case True
    with Suc.prems show ?thesis by simp
  next
    case False
    with Suc.prems obtain u where u: "exec_once E s = Inr u"
      and r: "(if is_ebreak u = 1 then Inr (set_cpu_state NPC_END u)
               else bindR (single_cycle E u) (cpu_loop E n)) = Inr t"
      by (auto simp: bindR_Inr_iff)
    have agree: "compared E s \<longrightarrow> regs_agree E u" if "\<not> difftest_error u"
      using exec_once_cases [OF u] that by (auto split: if_splits)
    show ?thesis
    proof (cases "is_ebreak u = 1")
      case True
      with r have "t = set_cpu_state NPC_END u" by simp
      moreover from this Suc.prems(2) have "\<not> difftest_error u" by (simp add: set_cpu_state_def)
      ultimately show ?thesis using agree True u by (simp add: ls_ebreak)
    next
      case False
      with r obtain v where v: "single_cycle E u = Inr v" "cpu_loop E n v = Inr t"
        by (auto simp: bindR_Inr_iff)
      have "\<not> difftest_error u"
      proof
        assume "difftest_error u"
        with single_cycle_ctl [OF v(1)] have "difftest_error v" by (simp add: ctl_def)
        with cpu_loop_stopped v(2) Suc.prems(2) show False by force
      qed
      with agree u False v Suc.IH [OF v(2) Suc.prems(2)] show ?thesis by (auto intro: ls_step)
    qed
  qed
qed

lemma cpu_exec_end_frame:
  "cpu_exec_end E s = Inr t \<Longrightarrow> top t = top s \<and> ref t = ref s \<and> difftest_error t = difftest_error s
     \<and> gpr_ptr t = gpr_ptr s"
  by (auto simp: cpu_exec_end_def add_log_def set_cpu_state_def bindR_Inr_iff split: if_splits)

lemma cpu_exec_running:
  assumes "cpu_state s = NPC_RUNNING"
  shows "cpu_exec E n s = bindR (cpu_loop E (unat n) s) (cpu_exec_end E)"
proof -
  have "set_cpu_state NPC_RUNNING s = s" using assms by (simp add: set_cpu_state_def)
  then show ?thesis using assms by (simp add: cpu_exec_def npc_defs)
qed

lemma cpu_exec_end_trap:
  assumes "cpu_gpr E u = Inr gpr"
  shows "cpu_exec_end E (set_cpu_state NPC_END u)
    = Inr (add_log (L_end (gpr ! 10 = 0) (wb_pc_now u)) (set_cpu_state NPC_END u))"
  using assms by (simp add: cpu_exec_end_def npc_defs set_cpu_state_def cpu_gpr_def split: if_splits)

lemma cpu_loop_mismatch:
  assumes "exec_once E s = Inr u" "difftest_error u" "\<not> difftest_error s" "is_ebreak u \<noteq> 1"
    "single_cycle E u = Inr v"
  shows "cpu_loop E (Suc n) s = Inr v"
proof -
  have "difftest_error v" using single_cycle_ctl [OF assms(5)] assms(2) by (simp add: ctl_def)
  with assms show ?thesis by (simp add: cpu_loop_stopped)
qed

text \<open>
  \<open>clean_steps E k s t\<close>: the loop has gone from \<open>s\<close> to \<open>t\<close> by \<open>k\<close> iterations, none of which found a difference or
  an \<open>ebreak\<close>, so that it is about to make the next one.
\<close>

inductive clean_steps :: "('v, 'r) env \<Rightarrow> nat \<Rightarrow> ('v, 'r) sim \<Rightarrow> ('v, 'r) sim \<Rightarrow> bool" for E where
  clean_none: "clean_steps E 0 s s"
| clean_more: "exec_once E s = Inr u \<Longrightarrow> compared E s \<longrightarrow> regs_agree E u \<Longrightarrow> is_ebreak u \<noteq> 1 \<Longrightarrow>
    single_cycle E u = Inr v \<Longrightarrow> clean_steps E k v t \<Longrightarrow> clean_steps E (Suc k) s t"

lemma clean_step_keeps:
  assumes "exec_once E s = Inr u" "compared E s \<longrightarrow> regs_agree E u" "single_cycle E u = Inr v"
  shows "difftest_error v = difftest_error s \<and> cpu_state v = cpu_state s"
  using exec_once_cases [OF assms(1)] assms(2) single_cycle_ctl [OF assms(3)] by (auto simp: ctl_def split: if_splits)

lemma clean_steps_loop:
  "clean_steps E k s t \<Longrightarrow> \<not> difftest_error s \<Longrightarrow>
     cpu_loop E (k + n) s = cpu_loop E n t \<and> \<not> difftest_error t \<and> cpu_state t = cpu_state s"
proof (induction rule: clean_steps.induct)
  case (clean_more s u v k t)
  note c = clean_step_keeps [OF clean_more(1,2,4)]
  show ?case using clean_more c by simp
qed simp

section \<open>A small core\<close>

text \<open>
  A core that retires one instruction per cycle, whose registers stay 0 and which executes \<open>ebreak\<close>
  after \<open>k\<close> cycles, and a reference whose registers all read \<open>g\<close> until they are copied into it.
\<close>

definition small_vtop :: "nat \<Rightarrow> nat vtop" where
  "small_vtop k = \<lparr>v_new = 0,
     v_eval = (\<lambda>c r v. if c then Set_gpr_ptr True (Set_ebreak (if v \<ge> k then 1 else 0) (Done (v + 1))) else Done v),
     v_out = (\<lambda>v. \<lparr>wb_sign = True, wb_pc = 0x80000000, wb_inst = 0, wb_intr = False, intr_num = 0,
       wb_device = False, perf_ports = load_use_sample, loaduse_p1_hit_bypass_event = 0,
       loaduse_p1_miss_hazard_event = 0, loaduse_p1_operand_bypass_event = 0\<rparr>),
     v_gpr = (\<lambda>_. replicate 33 0), v_icache = (\<lambda>_ _. [])\<rparr>"

definition small_ref :: "u64 list refsim" where
  "small_ref = \<lparr>ref_difftest_memcpy = (\<lambda>_ _ r. r), ref_regcpy_to_ref = (\<lambda>g _. g), ref_regcpy_to_dut = id,
     ref_difftest_exec = (\<lambda>_ r. r), ref_difftest_raise_intr = (\<lambda>_ r. r)\<rparr>"

definition small_env :: "nat \<Rightarrow> (nat, u64 list) env" where
  "small_env k = \<lparr>bld = \<lparr>PERFORMANCE_MODEL = False, ICACHE_64SET_MONITOR = False, LOADUSE_P1_MONITOR = False\<rparr>,
     host_clock = (\<lambda>_. (0, 0)), vtop = small_vtop k, refsim = small_ref\<rparr>"

definition small_sim :: "u64 \<Rightarrow> u8 \<Rightarrow> (nat, u64 list) sim" where
  "small_sim g e = \<lparr>top = 0, clk = False, rstn = True, main_time = 0, cpu_state = NPC_RUNNING,
     difftest_error = False, is_ebreak = e, wb_pc_now = 0x80000000, gpr_ptr = True, wb_num = 1,
     is_skip_ref = False, ref = replicate 33 g,
     sim_port = \<lparr>port_mem = pmem_init, port_timer = \<lparr>boot_time = 0, clock_calls = 0\<rparr>, port_console = []\<rparr>,
     dep = dep_state_init, hit_bypass_events = 0, miss_hazard_events = 0, operand_bypass_events = 0,
     icache_64set_executed = replicate 5 False, sim_log = []\<rparr>"

lemmas small_defs = small_env_def small_vtop_def small_ref_def small_sim_def

lemma small_cycle:
  "single_cycle (small_env k) s =
     Inr (s\<lparr>top := top s + 1, clk := True, main_time := main_time s + 2, gpr_ptr := True,
            is_ebreak := (if top s \<ge> k then 1 else 0)\<rparr>)"
  by (simp add: single_cycle_def top_eval_def low_phase_def high_phase_def on_def small_env_def small_vtop_def)

lemma first_diff_same: "first_diff xs xs = None"
  by (simp add: first_diff_None)

lemma small_exec_good: "exec_once (small_env k) (small_sim 0 e) = Inr ((small_sim 0 e)\<lparr>wb_num := 2\<rparr>)"
  by (simp add: exec_once_def on_def compare_step_def difftest_step_def difftest_check_def
      ref_difftest_checkregs_def cpu_gpr_def outputs_def small_defs first_diff_same)

lemma small_exec_bad:
  assumes "ref s = replicate 33 1" "gpr_ptr s" "\<not> is_skip_ref s" "wb_num s \<noteq> 0"
  shows "\<exists>u. exec_once (small_env k) s = Inr u \<and> difftest_error u \<and> is_ebreak u = is_ebreak s
     \<and> cpu_gpr (small_env k) u = Inr (replicate 33 0)"
proof -
  have "first_diff (replicate 33 1) (replicate 33 0) \<noteq> None" by (simp add: first_diff_None exI [of _ 0])
  then obtain i where "first_diff (replicate 33 1) (replicate 33 0) = Some i" by blast
  with assms show ?thesis
    by (simp add: exec_once_def on_def compare_step_def difftest_step_def difftest_check_def add_log_def
      ref_difftest_checkregs_def cpu_gpr_def outputs_def small_env_def small_vtop_def small_ref_def isa_reg_display_def
      set_cpu_state_def Let_def)
qed

section \<open>Properties\<close>

text \<open>
  C2. A run that ends without a difftest error was checked throughout: if \<open>cpu_exec\<close> returns with
  \<open>difftest_error\<close> clear, the core went through execution steps at each of which, whenever an
  instruction was retired after the first, all 33 registers of the core and of the reference agreed.
\<close>

theorem clean_run_is_lockstep:
  assumes "cpu_exec E n s = Inr t" and "cpu_state s = NPC_RUNNING" and "\<not> difftest_error t"
  shows "\<exists>u. lockstep E s u \<and> top t = top u \<and> ref t = ref u"
proof -
  obtain u where u: "cpu_loop E (unat n) s = Inr u" "cpu_exec_end E u = Inr t"
    using assms(1,2) by (auto simp: cpu_exec_running bindR_Inr_iff)
  from cpu_exec_end_frame [OF u(2)] assms(3) cpu_loop_lockstep [OF u(1)] show ?thesis by auto
qed

theorem clean_run_is_lockstep_witness:
  "\<exists>t u. cpu_exec (small_env 0) 5 (small_sim 0 1) = Inr t \<and> cpu_state t = NPC_END
     \<and> lockstep (small_env 0) (small_sim 0 1) u \<and> top t = top u \<and> ref t = ref u"
proof -
  have r: "cpu_state (small_sim 0 1) = NPC_RUNNING" "is_ebreak (small_sim 0 1) = 1" "\<not> difftest_error (small_sim 0 1)"
      "gpr_ptr (small_sim 0 1)"
    by (simp_all add: small_sim_def)
  let ?u = "(small_sim 0 1)\<lparr>wb_num := 2\<rparr>"
  obtain k where k: "unat (5 :: u32) = Suc k" by (rule unat_Suc [of "5 :: u32"]) simp_all
  have l: "cpu_loop (small_env 0) (Suc k) (small_sim 0 1) = Inr (set_cpu_state NPC_END ?u)"
    using r by (simp add: small_exec_good)
  have g: "cpu_gpr (small_env 0) ?u = Inr (v_gpr (small_vtop 0) 0)" using r by (simp add: cpu_gpr_def small_defs)
  have e: "cpu_exec (small_env 0) 5 (small_sim 0 1) =
      Inr (add_log (L_end (v_gpr (small_vtop 0) 0 ! 10 = 0) (wb_pc_now ?u)) (set_cpu_state NPC_END ?u))"
    unfolding cpu_exec_running [OF r(1)] k l bindR_simps by (rule cpu_exec_end_trap [OF g])
  then obtain t where t: "cpu_exec (small_env 0) 5 (small_sim 0 1) = Inr t" "cpu_state t = NPC_END" "\<not> difftest_error t"
    using r(3) by (simp add: add_log_def set_cpu_state_def)
  with clean_run_is_lockstep [OF t(1) r(1) t(3)] show ?thesis by blast
qed

text \<open>
  C28. A mismatch is caught at whatever step it occurs, unless an \<open>ebreak\<close> is pending at that step. After \<open>k\<close>
  iterations of the loop without a difference, fewer than \<open>cpu_exec\<close> was asked for, let a retired instruction leave
  the core and the reference in disagreement while \<open>is_ebreak\<close> is not set. Then the clock advances once more,
  \<open>cpu_exec\<close> returns in the state \<open>NPC_ABORT\<close> with the exit status 1, and every later \<open>cpu_exec\<close> leaves the core, the
  reference and the status as they are.
\<close>

theorem mismatch_aborts:
  assumes "clean_steps E k s w" and "k < unat n" and "cpu_state s = NPC_RUNNING" and "\<not> difftest_error s"
    and "exec_once E w = Inr u" and "compared E w" and "\<not> regs_agree E u"
    and "is_ebreak u \<noteq> 1" and "single_cycle E u = Inr v"
  shows "\<exists>t. cpu_exec E n s = Inr t \<and> cpu_state t = NPC_ABORT \<and> difftest_error t \<and> top t = top v
    \<and> is_exit_status_bad E t = Inr 1
    \<and> (\<forall>m. \<exists>t'. cpu_exec E m t = Inr t' \<and> top t' = top t \<and> ref t' = ref t
         \<and> cpu_state t' = NPC_ABORT \<and> is_exit_status_bad E t' = Inr 1)"
proof -
  have u: "difftest_error u" "cpu_state u = NPC_ABORT" using exec_once_cases [OF assms(5)] assms(6,7) by auto
  then have v: "difftest_error v" "cpu_state v = NPC_ABORT"
    using single_cycle_ctl [OF assms(9)] by (simp_all add: ctl_def)
  obtain j where j: "unat n = k + Suc j" using assms(2) less_iff_Suc_add by auto
  have w: "cpu_loop E (unat n) s = cpu_loop E (Suc j) w" "\<not> difftest_error w"
    using clean_steps_loop [OF assms(1,4), of "Suc j"] unfolding j by blast+
  have "cpu_exec E n s = Inr (add_log (L_abort (wb_pc_now v)) v)"
    using cpu_loop_mismatch [OF assms(5) u(1) w(2) assms(8,9), of j] v
    by (simp add: cpu_exec_running [OF assms(3)] w(1) cpu_exec_end_def npc_defs del: cpu_loop.simps)
  with v show ?thesis by (auto simp: add_log_def cpu_exec_def is_exit_status_bad_def npc_defs)
qed

text \<open>The first retired instruction is not compared, the second finds the reference at 1: one clean iteration and
  then the mismatch.\<close>

theorem mismatch_aborts_witness:
  "\<exists>t. cpu_exec (small_env 9) 100 ((small_sim 1 0)\<lparr>wb_num := 0\<rparr>) = Inr t \<and> cpu_state t = NPC_ABORT
     \<and> is_exit_status_bad (small_env 9) t = Inr 1"
proof -
  let ?E = "small_env 9" and ?s = "(small_sim 1 0)\<lparr>wb_num := 0\<rparr>"
  define w where "w = (small_sim 1 0)\<lparr>top := 1, clk := True, main_time := 2, is_ebreak := 0\<rparr>"
  have x: "exec_once ?E ?s = Inr (small_sim 1 0)" by (simp add: exec_once_def on_def outputs_def small_defs)
  have y: "single_cycle ?E (small_sim 1 0) = Inr w" unfolding small_cycle w_def by (simp add: small_sim_def)
  have c: "clean_steps ?E (Suc 0) ?s w"
    by (rule clean_more [OF x _ _ y clean_none]) (simp_all add: compared_def small_sim_def)
  obtain u where u: "exec_once ?E w = Inr u" "difftest_error u" "is_ebreak u = 0"
    using small_exec_bad [of w 9] by (auto simp: w_def small_sim_def)
  have r: "cpu_state ?s = NPC_RUNNING" "\<not> difftest_error ?s" "compared ?E w" "\<not> difftest_error w"
    by (simp_all add: w_def compared_def outputs_def small_defs)
  have a: "\<not> regs_agree ?E u" using exec_once_cases [OF u(1)] u(2) r(4) by (auto split: if_splits)
  have e: "is_ebreak u \<noteq> 1" using u(3) by simp
  obtain v where "single_cycle ?E u = Inr v" using small_cycle by blast
  from mismatch_aborts [OF c _ r(1,2) u(1) r(3) a e this, of 100] show ?thesis by auto
qed

text \<open>
  C40. An \<open>ebreak\<close> hides a mismatch found at the same step: the loop tests \<open>is_ebreak\<close> after
  \<open>difftest_check\<close> and overwrites \<open>NPC_ABORT\<close> with \<open>NPC_END\<close>, so that with 0 in register \<open>a0\<close> the run
  is reported as a good trap and the exit status is 0 although the comparison failed.
\<close>

theorem ebreak_hides_mismatch:
  assumes "exec_once E s = Inr u" and "difftest_error u" and "is_ebreak u = 1"
    and "cpu_gpr E u = Inr gpr" and "gpr ! 10 = 0"
    and "cpu_state s = NPC_RUNNING" and "\<not> difftest_error s" and "0 < n"
  shows "\<exists>t. cpu_exec E n s = Inr t \<and> difftest_error t \<and> cpu_state t = NPC_END
    \<and> last (sim_log t) = L_end True (wb_pc_now u) \<and> is_exit_status_bad E t = Inr 0"
proof -
  obtain k where k: "unat n = Suc k" using assms(8) by (rule unat_Suc)
  have "cpu_exec E n s = Inr (add_log (L_end True (wb_pc_now u)) (set_cpu_state NPC_END u))"
    using assms(1-3,5,7) cpu_exec_end_trap [OF assms(4)]
    by (simp add: cpu_exec_running [OF assms(6)] k)
  with assms show ?thesis
    by (auto simp: add_log_def set_cpu_state_def is_exit_status_bad_def cpu_gpr_def npc_defs split: if_splits)
qed

theorem ebreak_hides_mismatch_witness:
  "\<exists>t. cpu_exec (small_env 9) 100 (small_sim 1 1) = Inr t \<and> difftest_error t \<and> cpu_state t = NPC_END
     \<and> is_exit_status_bad (small_env 9) t = Inr 0"
proof -
  obtain u where u: "exec_once (small_env 9) (small_sim 1 1) = Inr u" "difftest_error u" "is_ebreak u = 1"
    "cpu_gpr (small_env 9) u = Inr (replicate 33 0)"
    using small_exec_bad [of "small_sim 1 1" 9] by (auto simp: small_sim_def)
  have c: "replicate 33 (0 :: u64) ! 10 = 0" "cpu_state (small_sim 1 1) = NPC_RUNNING"
      "\<not> difftest_error (small_sim 1 1)" by (simp_all add: small_sim_def)
  from ebreak_hides_mismatch [OF u c, of 100] show ?thesis by auto
qed

text \<open>
  After an access to a device the reference is not run but overwritten: if copying the registers
  to the reference and back gives them unchanged (the contract of \<open>difftest_regcpy\<close>), the comparison
  at the next retirement without an interrupt always succeeds and differential testing resumes.
\<close>

theorem device_step_resynchronizes:
  assumes "\<And>g r. ref_regcpy_to_dut (refsim E) (ref_regcpy_to_ref (refsim E) g r) = g"
    and "is_skip_ref s" and "\<not> wb_intr (outputs E s)" and "\<not> wb_device (outputs E s)"
    and "compare_step E s = Inr t"
  shows "regs_agree E t \<and> difftest_error t = difftest_error s \<and> cpu_state t = cpu_state s \<and> \<not> is_skip_ref t"
proof -
  obtain gpr where g: "cpu_gpr E s = Inr gpr" "gpr = v_gpr (vtop E) (top s)"
    using assms(5,2) by (cases "gpr_ptr s") (simp_all add: compare_step_def difftest_step_def cpu_gpr_def)
  let ?u = "s\<lparr>ref := ref_regcpy_to_ref (refsim E) gpr (ref s), is_skip_ref := False\<rparr>"
  have "regs_agree E ?u" using assms(1) g(2) by (simp add: regs_agree_def)
  moreover obtain w where "difftest_check E ?u = Inr w" "t = (if wb_device (outputs E w) then difftest_skip_ref w else w)"
    using assms(2,3,5) g(1) by (auto simp: compare_step_def difftest_step_def outputs_def bindR_Inr_iff)
  ultimately show ?thesis
    using difftest_check_cases [of E ?u w] assms(4) by (auto simp: outputs_def regs_agree_def)
qed

theorem device_step_resynchronizes_witness:
  "\<exists>t. compare_step (small_env 9) ((small_sim 1 0)\<lparr>is_skip_ref := True\<rparr>) = Inr t
     \<and> regs_agree (small_env 9) t \<and> \<not> difftest_error t \<and> \<not> is_skip_ref t"
proof -
  let ?s = "(small_sim 1 0)\<lparr>is_skip_ref := True\<rparr>"
  have l: "\<And>g r. ref_regcpy_to_dut (refsim (small_env 9)) (ref_regcpy_to_ref (refsim (small_env 9)) g r) = g"
    by (simp add: small_defs)
  have s: "is_skip_ref ?s" "\<not> wb_intr (outputs (small_env 9) ?s)" "\<not> wb_device (outputs (small_env 9) ?s)"
    by (simp_all add: outputs_def small_defs)
  obtain t where t: "compare_step (small_env 9) ?s = Inr t"
    by (simp add: compare_step_def difftest_step_def difftest_check_def ref_difftest_checkregs_def cpu_gpr_def
        outputs_def small_defs first_diff_same)
  from device_step_resynchronizes [OF l s t] t show ?thesis by (auto simp: small_sim_def)
qed

end
