(* ===== verification/Elf_Symbols.thy ===== *)
theory Elf_Symbols
  imports C_Lib
begin

text \<open>
  The function symbol table of the tracer: \<open>read_elf\<close> (\<open>src/sim/csrc/sdb.cpp\<close>) fills it from the
  symbol table of an ELF file, and \<open>ftrace\<close> (\<open>src/sim/csrc/sim_main.cpp\<close>) looks up calls and returns
  in it. A file is its list of bytes; a structure read past the end of the file is a fault. The
  offsets of the fields are those of \<open>Elf64_Ehdr\<close>, \<open>Elf64_Shdr\<close> (64 bytes) and \<open>Elf64_Sym\<close> (24 bytes).
\<close>

section \<open>Reading the file\<close>

type_synonym bytes = "u8 list"

definition file_le :: "bytes \<Rightarrow> nat \<Rightarrow> nat \<Rightarrow> u64 res" where
  "file_le f off n = (if off + n \<le> length f then Inr (le_load (\<lambda>i. f ! i) off n) else Inl Out_of_bounds)"

definition file_nat :: "bytes \<Rightarrow> nat \<Rightarrow> nat \<Rightarrow> nat res" where
  "file_nat f off n = map_sum id unat (file_le f off n)"

record Shdr =
  sh_name :: nat
  sh_offset :: nat
  sh_size :: nat

definition read_shdr :: "bytes \<Rightarrow> nat \<Rightarrow> Shdr res" where
  "read_shdr f off =
     bindR (file_nat f off 4) (\<lambda>n.
     bindR (file_nat f (off + 24) 8) (\<lambda>o'.
     bindR (file_nat f (off + 32) 8) (\<lambda>sz. Inr \<lparr>sh_name = n, sh_offset = o', sh_size = sz\<rparr>)))"

fun read_shdrs :: "bytes \<Rightarrow> nat \<Rightarrow> nat \<Rightarrow> Shdr list res" where
  "read_shdrs f off 0 = Inr []"
| "read_shdrs f off (Suc n) =
     bindR (read_shdr f off) (\<lambda>h. bindR (read_shdrs f (off + 64) n) (\<lambda>hs. Inr (h # hs)))"

definition read_section :: "bytes \<Rightarrow> Shdr \<Rightarrow> u8 list res" where
  "read_section f h = (if sh_offset h + sh_size h \<le> length f then Inr (slice f (sh_offset h) (sh_size h))
                       else Inl Out_of_bounds)"

text \<open>The C string at an offset of a table; a table without a terminating zero is overrun.\<close>

definition cstring :: "u8 list \<Rightarrow> nat \<Rightarrow> string res" where
  "cstring tab off =
     (if off < length tab \<and> 0 \<in> set (drop off tab)
      then Inr (map (\<lambda>b. char_of (unat b)) (takeWhile (\<lambda>b. b \<noteq> 0) (drop off tab)))
      else Inl Out_of_bounds)"

record Sym =
  st_name :: nat
  st_info :: u8
  st_value :: u64
  st_size :: u64

definition read_sym :: "u8 list \<Rightarrow> nat \<Rightarrow> Sym" where
  "read_sym d x =
     \<lparr>st_name = unat (le_load (\<lambda>i. d ! i) (24 * x) 4), st_info = d ! (24 * x + 4),
      st_value = le_load (\<lambda>i. d ! i) (24 * x + 8) 8, st_size = le_load (\<lambda>i. d ! i) (24 * x + 16) 8\<rparr>"

section \<open>The function table\<close>

text \<open>
  An entry of \<open>func\<close> keeps the offset of its name in the string table, which the source keeps as a
  pointer into it.
\<close>

record FN =
  fn_name :: nat
  fn_addr :: u64
  fn_size :: u64

definition func_capacity :: nat where "func_capacity = 32"

definition is_function :: "Sym \<Rightarrow> bool" where
  "is_function s \<longleftrightarrow> st_info s AND 0x0f = 0x02"

definition func_entry :: "Sym \<Rightarrow> FN" where
  "func_entry s = \<lparr>fn_name = st_name s, fn_addr = st_value s, fn_size = st_size s\<rparr>"

definition func_init :: "FN list" where
  "func_init = replicate 32 \<lparr>fn_name = 0, fn_addr = 0, fn_size = 0\<rparr>"

text \<open>The loop over the symbols: the table, the number of entries filled, the truncation flag.\<close>

definition symbol_step :: "Sym \<Rightarrow> FN list \<times> nat \<times> bool \<Rightarrow> FN list \<times> nat \<times> bool" where
  "symbol_step s st =
     (case st of (func, m, trunc) \<Rightarrow>
        if is_function s \<and> m < func_capacity then (func[m := func_entry s], Suc m, trunc)
        else if is_function s then (func, m, True)
        else st)"

definition load_symbols :: "Sym list \<Rightarrow> FN list \<Rightarrow> FN list \<times> nat \<times> bool" where
  "load_symbols syms func = fold symbol_step syms (func, 0, False)"

text \<open>The search for \<open>.strtab\<close>: the index of the first section of that name.\<close>

fun find_strtab :: "u8 list \<Rightarrow> Shdr list \<Rightarrow> nat \<Rightarrow> nat option res" where
  "find_strtab tab [] i = Inr None"
| "find_strtab tab (h # hs) i =
     bindR (cstring tab (sh_name h)) (\<lambda>n. if n = ''.strtab'' then Inr (Some i) else find_strtab tab hs (Suc i))"

datatype elf_result =
    Elf_exit
  | Elf_no_symtab
  | Elf_loaded "FN list" "u8 list option" bool

text \<open>
  The string table, and the index of the section taken for the symbol table: the one before it. When
  the string table is the first section that index is -1, an access outside the array.
\<close>

definition locate_symtab :: "bytes \<Rightarrow> u8 list \<Rightarrow> Shdr list \<Rightarrow> (nat \<times> u8 list option) res" where
  "locate_symtab f shstrtab shdr =
     bindR (find_strtab shstrtab shdr 0) (\<lambda>r.
       case r of
         None \<Rightarrow> Inr (0, None)
       | Some i \<Rightarrow> bindR (read_section f (shdr ! i)) (\<lambda>t.
           if i = 0 then Inl Out_of_bounds else Inr (i - 1, Some t)))"

definition read_symtab :: "bytes \<Rightarrow> u8 list \<Rightarrow> Shdr list \<Rightarrow> nat \<Rightarrow> u8 list option \<Rightarrow> FN list \<Rightarrow> elf_result res" where
  "read_symtab f shstrtab shdr j pstr func =
     (if j \<ge> length shdr then Inl Out_of_bounds
      else bindR (cstring shstrtab (sh_name (shdr ! j))) (\<lambda>name.
        if name = ''.symtab''
        then bindR (read_section f (shdr ! j)) (\<lambda>d.
          let (func', m, trunc) = load_symbols (map (read_sym d) [0..<length d div 24]) func
          in Inr (Elf_loaded func' pstr trunc))
        else Inr Elf_no_symtab))"

text \<open>\<open>read_elf\<close>: \<open>None\<close> is a file that cannot be opened.\<close>

definition read_elf :: "bytes option \<Rightarrow> FN list \<Rightarrow> elf_result res" where
  "read_elf fo func =
     (case fo of
        None \<Rightarrow> Inr Elf_exit
      | Some f \<Rightarrow>
          if length f < 64 then Inl Out_of_bounds
          else if take 4 f \<noteq> [0x7F, 0x45, 0x4C, 0x46] then Inr Elf_exit
          else
            bindR (file_nat f 40 8) (\<lambda>shoff.
            bindR (file_nat f 60 2) (\<lambda>shnum.
            bindR (file_nat f 62 2) (\<lambda>shstrndx.
            bindR (read_shdrs f shoff shnum) (\<lambda>shdr.
              if shstrndx \<ge> length shdr then Inl Out_of_bounds
              else
                bindR (read_section f (shdr ! shstrndx)) (\<lambda>shstrtab.
                bindR (locate_symtab f shstrtab shdr) (\<lambda>(j, pstr).
                  read_symtab f shstrtab shdr j pstr func)))))))"

section \<open>Tracing calls\<close>

datatype ftrace_line =
    F_call u64 nat u64
  | F_no_call
  | F_ret u64 nat
  | F_no_ret

text \<open>The first entry that contains the address, and the number of entries the loop looked at.\<close>

fun lookup_func :: "u64 \<Rightarrow> FN list \<Rightarrow> nat \<Rightarrow> nat \<times> FN option" where
  "lookup_func pc [] j = (j, None)"
| "lookup_func pc (f # fs) j =
     (if pc \<ge> fn_addr f \<and> pc < fn_addr f + fn_size f then (Suc j, Some f) else lookup_func pc fs (Suc j))"

definition ftrace :: "FN list \<Rightarrow> u32 \<Rightarrow> u64 \<Rightarrow> u64 \<Rightarrow> ftrace_line list" where
  "ftrace func inst_now pc_now pc_next =
     (let op = inst_now AND 0x7f in
      if op = 0x6f \<or> op = 0x63 then
        (case lookup_func pc_next func 0 of (j, r) \<Rightarrow>
           (case r of Some f \<Rightarrow> [F_call pc_now (fn_name f) pc_next] | None \<Rightarrow> []) @
           (if j = 32 then [F_no_call] else []))
      else if op = 0x67 then
        (case lookup_func pc_now func 0 of (j, r) \<Rightarrow>
           (case r of Some f \<Rightarrow> [F_ret pc_now (fn_name f)] | None \<Rightarrow> []) @
           (if j = 32 then [F_no_ret] else []))
      else [])"

section \<open>Lemmas\<close>

lemma load_symbols_inv:
  fixes syms func
  assumes "length func = func_capacity"
  defines "fs \<equiv> filter is_function syms"
  shows "load_symbols syms func =
    (map func_entry (take func_capacity fs) @ drop (length (take func_capacity fs)) func,
     min (length fs) func_capacity, length fs > func_capacity)"
  unfolding fs_def load_symbols_def
proof (induction syms rule: rev_induct)
  case (snoc x xs)
  let ?n = "length (filter is_function xs)"
  show ?case
  proof (cases "is_function x \<and> ?n < func_capacity")
    case True
    then have "(map func_entry (filter is_function xs) @ drop ?n func)[?n := func_entry x]
        = map func_entry (filter is_function xs) @ func_entry x # drop (Suc ?n) func"
      using assms(1) by (simp add: list_update_append Cons_nth_drop_Suc [symmetric])
    moreover obtain d where "func_capacity - ?n = Suc d" using True by (cases "func_capacity - ?n") auto
    ultimately show ?thesis using True snoc by (simp add: symbol_step_def)
  next
    case False
    with snoc show ?thesis by (auto simp: symbol_step_def)
  qed
qed simp

lemma lookup_func_None:
  "(\<forall>f\<in>set fs. \<not> (fn_addr f \<le> pc \<and> pc < fn_addr f + fn_size f)) \<Longrightarrow> lookup_func pc fs j = (j + length fs, None)"
  by (induction fs arbitrary: j) auto

lemma lookup_func_nth:
  assumes "k < length fs" "fn_addr (fs ! k) \<le> pc \<and> pc < fn_addr (fs ! k) + fn_size (fs ! k)"
    "\<forall>i<k. \<not> (fn_addr (fs ! i) \<le> pc \<and> pc < fn_addr (fs ! i) + fn_size (fs ! i))"
  shows "lookup_func pc fs j = (j + k + 1, Some (fs ! k))"
  using assms
proof (induction fs arbitrary: j k)
  case (Cons f fs)
  show ?case
  proof (cases k)
    case 0
    with Cons.prems show ?thesis by simp
  next
    case (Suc k')
    have "\<not> (fn_addr f \<le> pc \<and> pc < fn_addr f + fn_size f)" using Cons.prems(3) Suc by force
    moreover have "\<forall>i<k'. \<not> (fn_addr (fs ! i) \<le> pc \<and> pc < fn_addr (fs ! i) + fn_size (fs ! i))"
      using Cons.prems(3) Suc by (metis Suc_less_eq nth_Cons_Suc)
    ultimately show ?thesis using Cons Suc by auto
  qed
qed simp

section \<open>Properties\<close>



text \<open>
  The tracer names the first function that contains the target of a jump, but also claims that no
  function was found when that function is the last entry of the full table: for a target in entry
  \<open>k\<close> and in none before it, it logs the call, followed by the "no func" line exactly when \<open>k = 31\<close>.
\<close>

theorem ftrace_call:
  assumes "length func = 32" and "k < 32" and "inst AND 0x7f = 0x6f"
    and "fn_addr (func ! k) \<le> pc' \<and> pc' < fn_addr (func ! k) + fn_size (func ! k)"
    and "\<forall>i<k. \<not> (fn_addr (func ! i) \<le> pc' \<and> pc' < fn_addr (func ! i) + fn_size (func ! i))"
  shows "ftrace func inst pc pc' =
    F_call pc (fn_name (func ! k)) pc' # (if k = 31 then [F_no_call] else [])"
  using assms lookup_func_nth [of k func pc' 0] by (simp add: ftrace_def Let_def)

theorem ftrace_call_witness:
  "let func = (replicate 31 \<lparr>fn_name = 0, fn_addr = 0, fn_size = 0\<rparr>)
                @ [\<lparr>fn_name = 7, fn_addr = 0x80000000, fn_size = 16\<rparr>]
   in ftrace func 0x6f 0x80000100 0x80000008 = [F_call 0x80000100 7 0x80000008, F_no_call]"
proof -
  let ?e = "\<lparr>fn_name = 0, fn_addr = 0, fn_size = 0\<rparr> :: FN"
  let ?f = "replicate 31 ?e @ [\<lparr>fn_name = 7, fn_addr = 0x80000000, fn_size = 16\<rparr>]"
  have last: "?f ! 31 = \<lparr>fn_name = 7, fn_addr = 0x80000000, fn_size = 16\<rparr>" by (simp only: nth_append) simp
  have before: "?f ! i = ?e" if "i < 31" for i using that by (simp add: nth_append)
  have "ftrace ?f 0x6f 0x80000100 0x80000008 =
      F_call 0x80000100 (fn_name (?f ! 31)) 0x80000008 # (if (31 :: nat) = 31 then [F_no_call] else [])"
    by (rule ftrace_call) (simp_all add: last before)
  then show ?thesis by (simp add: last Let_def)
qed

end
