(* ===== verification/Sdb.thy ===== *)
theory Sdb
  imports Watchpoint Expr_Eval Sim_Core Elf_Symbols
begin

text \<open>
  The simple debugger (\<open>src/sim/csrc/sdb.cpp\<close>). The lines read from the terminal are a list, whose end is
  the end of input. The result of a command is a value of \<open>'a res option\<close>: \<open>None\<close> is a walk along a cyclic list,
  which never returns. The progress messages of the tokenizer and of the watchpoint pool are left out.
\<close>

section \<open>State\<close>

record ('v, 'r) dbg =
  d_sim :: "('v, 'r) sim"
  d_wp :: wp_state
  d_expr :: expr_state
  d_out :: "string list"

type_synonym 'a run = "'a res option"

definition bindO :: "'a run \<Rightarrow> ('a \<Rightarrow> 'b run) \<Rightarrow> 'b run" where
  "bindO m f = (case m of None \<Rightarrow> None | Some (Inl e) \<Rightarrow> Some (Inl e) | Some (Inr x) \<Rightarrow> f x)"

definition say :: "string \<Rightarrow> ('v, 'r) dbg \<Rightarrow> ('v, 'r) dbg" where
  "say t d = d\<lparr>d_out := d_out d @ [t]\<rparr>"

definition on_sim :: "(('v, 'r) sim \<Rightarrow> ('v, 'r) sim res) \<Rightarrow> ('v, 'r) dbg \<Rightarrow> ('v, 'r) dbg run" where
  "on_sim f d = Some (map_sum id (\<lambda>s. d\<lparr>d_sim := s\<rparr>) (f (d_sim d)))"

text \<open>
  Evaluating an expression in the current state of the core; \<open>below\<close> is the byte that the scan reads
  below the array of strings. The core exports its registers during the reset, before any command.
\<close>

definition run_expr :: "('v, 'r) env \<Rightarrow> char \<Rightarrow> string \<Rightarrow> ('v, 'r) dbg \<Rightarrow> (u32 option \<times> ('v, 'r) dbg) run" where
  "run_expr E below e d = Some (
     bindR (cpu_gpr E (d_sim d)) (\<lambda>gpr.
     bindR (expr (port_mem (sim_port (d_sim d))) below gpr (wb_pc_now (d_sim d)) (d_expr d) e)
       (\<lambda>(x, r). Inr (r, d\<lparr>d_expr := x\<rparr>))))"

section \<open>Commands\<close>

text \<open>
  A handler gets \<open>args\<close>, which is null when nothing follows the command and its delimiter, and the rest
  of the line from which its own calls of \<open>strtok\<close> go on.
\<close>

definition cmd_c :: "('v, 'r) env \<Rightarrow> ('v, 'r) dbg \<Rightarrow> ('v, 'r) dbg run" where
  "cmd_c E = on_sim (cpu_exec E (- 1))"

definition cmd_q :: "('v, 'r) env \<Rightarrow> ('v, 'r) dbg \<Rightarrow> ('v, 'r) dbg run" where
  "cmd_q E = on_sim (\<lambda>s. cpu_exec E 1 (set_cpu_state NPC_QUIT s))"

definition cmd_si :: "('v, 'r) env \<Rightarrow> string \<Rightarrow> ('v, 'r) dbg \<Rightarrow> ('v, 'r) dbg run" where
  "cmd_si E rest d =
     (if rest = [] then on_sim (cpu_exec E 1) d
      else case fst (strtok CHR '' '' rest) of
             None \<Rightarrow> Some (Inl Null_deref)
           | Some arg \<Rightarrow> on_sim (cpu_exec E (word_of_int (atoi arg))) d)"

definition wp_line :: "WP \<Rightarrow> string" where
  "wp_line w = ''Watchpoint '' @ int_text (NO w) @ '' expression is '' @
     (case wp_string w of Some t \<Rightarrow> t | None \<Rightarrow> ''(null)'') @ '', value is '' @ llu (wp_value w) @ nl"

partial_function (option) wp_lines :: "wp_state \<Rightarrow> nat option \<Rightarrow> string list option" where
  "wp_lines s p =
     (if p = None then Some []
      else Option.bind (wp_lines s (wp_next (node s (the p)))) (\<lambda>ls. Some (wp_line (node s (the p)) # ls)))"

definition cmd_info :: "('v, 'r) env \<Rightarrow> string \<Rightarrow> ('v, 'r) dbg \<Rightarrow> ('v, 'r) dbg run" where
  "cmd_info E rest d =
     (case fst (strtok CHR '' '' rest) of
        None \<Rightarrow> Some (Inl Null_deref)
      | Some arg1 \<Rightarrow>
          if first_char arg1 = CHR ''r'' then on_sim (isa_reg_display E) d
          else if first_char arg1 = CHR ''w'' then
            if wp_head (d_wp d) = None then Some (Inr (say (''No watchpoint to print'' @ nl) d))
            else Option.bind (wp_lines (d_wp d) (wp_head (d_wp d)))
                   (\<lambda>ls. Some (Inr (d\<lparr>d_out := d_out d @ ls\<rparr>)))
          else Some (Inr (say ''Error cmd'' d)))"

definition x_line :: "u64 \<Rightarrow> u64 \<Rightarrow> string" where
  "x_line addr v = ''0x'' @ hex_pad 8 (unat addr) @ '' value is: 0x'' @ hex_pad 8 (unat v) @ nl"

fun x_loop :: "pmem \<Rightarrow> nat \<Rightarrow> u64 \<Rightarrow> string list res" where
  "x_loop m 0 addr = Inr []"
| "x_loop m (Suc n) addr =
     bindR (paddr_read m addr 4) (\<lambda>v. bindR (x_loop m n (addr + 4)) (\<lambda>ls. Inr (x_line addr v # ls)))"

definition cmd_x :: "string \<Rightarrow> ('v, 'r) dbg \<Rightarrow> ('v, 'r) dbg run" where
  "cmd_x rest d =
     (let (arg1, rest1) = strtok CHR '' '' rest; (arg2, rest2) = strtok CHR '' '' rest1 in
      case (arg1, arg2) of
        (Some a1, Some a2) \<Rightarrow>
          Some (map_sum id (\<lambda>ls. d\<lparr>d_out := d_out d @ ls\<rparr>)
            (x_loop (port_mem (sim_port (d_sim d))) (nat (atoi a1)) (word_of_int (strtol0 a2))))
      | _ \<Rightarrow> Some (Inr (say ''Error cmd'' d)))"

definition cmd_p :: "('v, 'r) env \<Rightarrow> char \<Rightarrow> string \<Rightarrow> ('v, 'r) dbg \<Rightarrow> ('v, 'r) dbg run" where
  "cmd_p E below rest d =
     (case strtok_rest rest of
        None \<Rightarrow> Some (Inr (say ''Error cmd'' d))
      | Some arg1 \<Rightarrow>
          bindO (run_expr E below arg1 d) (\<lambda>(r, d).
            Some (Inr (case r of
                         None \<Rightarrow> say ''Regex failed'' d
                       | Some a \<Rightarrow> say (''Expression: '' @ arg1 @ '' = '' @ dec (unat a) @ nl) d))))"

text \<open>\<open>cmd_w\<close> ignores whether the expression could be read; the value is then 0.\<close>

definition cmd_w :: "('v, 'r) env \<Rightarrow> char \<Rightarrow> string \<Rightarrow> ('v, 'r) dbg \<Rightarrow> ('v, 'r) dbg run" where
  "cmd_w E below rest d =
     (case strtok_rest rest of
        None \<Rightarrow> Some (Inr (say ''Error cmd'' d))
      | Some arg1 \<Rightarrow>
          bindO (Some (new_wp (d_wp d))) (\<lambda>(p, w).
          bindO (run_expr E below arg1 (d\<lparr>d_wp := set_wp_string p arg1 w\<rparr>)) (\<lambda>(r, d).
            Some (Inr (say (''Watchpoint '' @ int_text (NO (node (d_wp d) p)) @
                            '' has created,expression is '' @ arg1 @ nl)
              (d\<lparr>d_wp := set_wp_value p (case r of Some a \<Rightarrow> ucast a | None \<Rightarrow> 0) (d_wp d)\<rparr>))))))"

partial_function (option) find_wp :: "wp_state \<Rightarrow> int \<Rightarrow> nat option \<Rightarrow> nat option option" where
  "find_wp s a p =
     (if p = None then Some None
      else if NO (node s (the p)) = a then Some p
      else find_wp s a (wp_next (node s (the p))))"

definition cmd_d :: "string \<Rightarrow> ('v, 'r) dbg \<Rightarrow> ('v, 'r) dbg run" where
  "cmd_d rest d =
     (case strtok_rest rest of
        None \<Rightarrow> Some (Inl Null_deref)
      | Some arg1 \<Rightarrow>
          Option.bind (find_wp (d_wp d) (atoi arg1) (wp_head (d_wp d))) (\<lambda>r.
            case r of
              None \<Rightarrow> Some (Inr d)
            | Some ptr \<Rightarrow> bindO (free_wp ptr (d_wp d)) (\<lambda>w. Some (Inr (d\<lparr>d_wp := w\<rparr>)))))"

section \<open>The command table\<close>

definition cmd_table :: "(string \<times> string) list" where
  "cmd_table = [
     (''help'', ''Display informations about all supported commands''),
     (''c'', ''   Continue the execution of the program''),
     (''q'', ''   Exit NEMU''),
     (''si'', ''  si [N]: Execute N step''),
     (''info'', ''info r: Print regs status''),
     (''x'', ''   x [N] [ADDR]: Print N word in the begin of memory[ADDR] ''),
     (''p'', ''   p EXPR: Calculate the expresion''),
     (''w'', ''   w EXPR: Set watchpoint''),
     (''d'', ''   p EXPR: Delete watchpoint N'')]"

definition help_line :: "string \<times> string \<Rightarrow> string" where
  "help_line c = fst c @ '' - '' @ snd c @ nl"

definition cmd_help :: "string \<Rightarrow> ('v, 'r) dbg \<Rightarrow> ('v, 'r) dbg run" where
  "cmd_help rest d =
     (case fst (strtok CHR '' '' rest) of
        None \<Rightarrow> Some (Inr (d\<lparr>d_out := d_out d @ map help_line cmd_table\<rparr>))
      | Some arg \<Rightarrow>
          (case find (\<lambda>c. fst c = arg) cmd_table of
             Some c \<Rightarrow> Some (Inr (say (help_line c) d))
           | None \<Rightarrow> Some (Inr (say (''Unknown command '' @ [CHR 0x27] @ arg @ [CHR 0x27] @ nl) d))))"

definition run_cmd :: "('v, 'r) env \<Rightarrow> char \<Rightarrow> string \<Rightarrow> string \<Rightarrow> ('v, 'r) dbg \<Rightarrow> ('v, 'r) dbg run" where
  "run_cmd E below cmd rest d =
     (if cmd = ''help'' then cmd_help rest d
      else if cmd = ''c'' then cmd_c E d
      else if cmd = ''q'' then cmd_q E d
      else if cmd = ''si'' then cmd_si E rest d
      else if cmd = ''info'' then cmd_info E rest d
      else if cmd = ''x'' then cmd_x rest d
      else if cmd = ''p'' then cmd_p E below rest d
      else if cmd = ''w'' then cmd_w E below rest d
      else if cmd = ''d'' then cmd_d rest d
      else Some (Inr (say (''Unknown command '' @ [CHR 0x27] @ cmd @ [CHR 0x27] @ nl) d)))"

fun sdb_loop :: "('v, 'r) env \<Rightarrow> char \<Rightarrow> string list \<Rightarrow> ('v, 'r) dbg \<Rightarrow> ('v, 'r) dbg run" where
  "sdb_loop E below [] d = Some (Inr d)"
| "sdb_loop E below (line # ls) d =
     (case strtok CHR '' '' line of
        (None, _) \<Rightarrow> sdb_loop E below ls d
      | (Some cmd, rest) \<Rightarrow>
          bindO (run_cmd E below cmd rest d) (\<lambda>d.
            if cpu_state (d_sim d) = NPC_QUIT then Some (Inr d) else sdb_loop E below ls d))"

definition sdb_mainloop :: "('v, 'r) env \<Rightarrow> char \<Rightarrow> bool \<Rightarrow> string list \<Rightarrow> ('v, 'r) dbg \<Rightarrow> ('v, 'r) dbg run" where
  "sdb_mainloop E below is_batch_mode ls d =
     (if is_batch_mode then cmd_c E d else sdb_loop E below ls d)"

section \<open>Lemmas on the parts\<close>

lemma bindO_simps [simp]:
  "bindO None f = None" "bindO (Some (Inl e)) f = Some (Inl e)" "bindO (Some (Inr x)) f = f x"
  by (simp_all add: bindO_def)

lemma bindO_Inr_iff: "bindO m f = Some (Inr y) \<longleftrightarrow> (\<exists>x. m = Some (Inr x) \<and> f x = Some (Inr y))"
  by (auto simp: bindO_def split: option.splits sum.splits)

lemma on_sim_Inr_iff: "on_sim f d = Some (Inr d') \<longleftrightarrow> (\<exists>t. f (d_sim d) = Inr t \<and> d' = d\<lparr>d_sim := t\<rparr>)"
  by (cases "f (d_sim d)") (auto simp: on_sim_def)

lemma run_expr_sim: "run_expr E below e d = Some (Inr (r, d')) \<Longrightarrow> d_sim d' = d_sim d \<and> d_wp d' = d_wp d"
  by (auto simp: run_expr_def bindR_Inr_iff)

text \<open>The core after the program ended: a command can only add to the log.\<close>

definition same_core :: "('v, 'r) sim \<Rightarrow> ('v, 'r) sim \<Rightarrow> bool" where
  "same_core s t \<longleftrightarrow> (\<exists>l. t = s\<lparr>sim_log := l\<rparr>)"

lemma same_core_refl [simp]: "same_core s s"
  unfolding same_core_def by (rule exI [of _ "sim_log s"]) simp

lemma same_core_trans: "same_core s t \<Longrightarrow> same_core t u \<Longrightarrow> same_core s u"
  by (auto simp: same_core_def)

lemma same_core_add_log [simp]: "same_core s (add_log e s)"
  by (auto simp: same_core_def add_log_def)

definition stopped :: "('v, 'r) sim \<Rightarrow> bool" where
  "stopped s \<longleftrightarrow> cpu_state s = NPC_END \<or> cpu_state s = NPC_ABORT"

lemma same_core_stopped: "same_core s t \<Longrightarrow> stopped s \<Longrightarrow> stopped t"
  by (auto simp: same_core_def stopped_def)

lemma cpu_exec_stopped: "stopped s \<Longrightarrow> cpu_exec E n s = Inr t \<Longrightarrow> same_core s t"
  by (auto simp: stopped_def cpu_exec_def npc_defs)

lemma reg_display_core: "isa_reg_display E s = Inr t \<Longrightarrow> same_core s t"
  by (auto simp: isa_reg_display_def bindR_Inr_iff)

lemma quiet_commands:
  "cmd_help rest d = Some (Inr d') \<Longrightarrow> d_sim d' = d_sim d"
  "cmd_x rest d = Some (Inr d') \<Longrightarrow> d_sim d' = d_sim d"
  "cmd_p E below rest d = Some (Inr d') \<Longrightarrow> d_sim d' = d_sim d"
  "cmd_w E below rest d = Some (Inr d') \<Longrightarrow> d_sim d' = d_sim d"
  "cmd_d rest d = Some (Inr d') \<Longrightarrow> d_sim d' = d_sim d"
proof -
  show "cmd_help rest d = Some (Inr d') \<Longrightarrow> d_sim d' = d_sim d"
    by (auto simp: cmd_help_def say_def split: option.splits)
  show "cmd_x rest d = Some (Inr d') \<Longrightarrow> d_sim d' = d_sim d"
    by (auto simp: cmd_x_def say_def map_sum_def Let_def split: prod.splits option.splits sum.splits)
  show "cmd_p E below rest d = Some (Inr d') \<Longrightarrow> d_sim d' = d_sim d"
    by (auto simp: cmd_p_def say_def bindO_Inr_iff dest!: run_expr_sim split: option.splits)
  show "cmd_w E below rest d = Some (Inr d') \<Longrightarrow> d_sim d' = d_sim d"
    by (auto simp: cmd_w_def say_def bindO_Inr_iff dest!: run_expr_sim split: option.splits)
  show "cmd_d rest d = Some (Inr d') \<Longrightarrow> d_sim d' = d_sim d"
    by (auto simp: cmd_d_def bindO_Inr_iff bind_eq_Some_conv split: option.splits)
qed

lemma info_core: "cmd_info E rest d = Some (Inr d') \<Longrightarrow> same_core (d_sim d) (d_sim d')"
  by (auto simp: cmd_info_def on_sim_Inr_iff say_def bind_eq_Some_conv dest: reg_display_core
      split: option.splits if_splits)

lemma run_cmd_stopped:
  assumes "run_cmd E below cmd rest d = Some (Inr d')" "cmd \<noteq> ''q''" "stopped (d_sim d)"
  shows "same_core (d_sim d) (d_sim d')"
proof -
  have exec: "on_sim (cpu_exec E n) d = Some (Inr d') \<Longrightarrow> same_core (d_sim d) (d_sim d')" for n
    using cpu_exec_stopped [OF assms(3)] by (auto simp: on_sim_Inr_iff)
  consider "cmd = ''c''" | "cmd = ''si''" | "cmd = ''info''" | "cmd \<notin> {''c'', ''si'', ''info''}" by blast
  then show ?thesis
  proof cases
    case 1
    with assms exec show ?thesis by (simp add: run_cmd_def cmd_c_def)
  next
    case 2
    with assms(1) exec show ?thesis by (auto simp: run_cmd_def cmd_si_def split: if_splits option.splits)
  next
    case 3
    with assms(1) info_core show ?thesis by (auto simp: run_cmd_def)
  next
    case 4
    with assms(1,2) have "d_sim d' = d_sim d"
      unfolding run_cmd_def by (auto simp: say_def dest: quiet_commands split: if_splits)
    then show ?thesis by simp
  qed
qed

section \<open>The lists of watchpoints\<close>

lemma find_wp_chain:
  assumes "chain (wp_pool s) p xs" "\<forall>x\<in>set xs. NO (node s x) = int x"
  shows "find_wp s (int w) p = Some (if w \<in> set xs then Some w else None)"
  using assms
proof (induction xs arbitrary: p)
  case Nil
  then show ?case by (subst find_wp.simps) simp
next
  case (Cons x xs)
  then show ?case by (subst find_wp.simps) (auto simp: node_def)
qed

lemma wp_lines_chain:
  assumes "chain (wp_pool s) p xs"
  shows "wp_lines s p = Some (map (\<lambda>x. wp_line (node s x)) xs)"
  using assms
proof (induction xs arbitrary: p)
  case Nil
  then show ?case by (subst wp_lines.simps) simp
next
  case (Cons x xs)
  then show ?case by (subst wp_lines.simps) (auto simp: node_def)
qed

lemma atoi_dec: "n < 2 ^ 31 \<Longrightarrow> atoi (dec n) = int n"
proof -
  assume n: "n < 2 ^ 31"
  have "sint (word_of_int (int n) :: u32) = int n"
    unfolding sint_sbintrunc' using n by (intro signed_take_bit_int_eq_self) simp_all
  then show ?thesis using n by (simp add: atoi_def skip_sign_dec digits_value_digits_of Let_def)
qed

section \<open>Printing memory\<close>

lemma strtok_blank:
  assumes "CHR '' '' \<notin> set t" "t \<noteq> []"
  shows "strtok CHR '' '' (t @ CHR '' '' # u) = (Some t, u)" "strtok CHR '' '' t = (Some t, [])"
proof -
  obtain c cs where c: "t = c # cs" using assms(2) by (cases t) auto
  have all: "\<forall>x\<in>set t. x \<noteq> CHR '' ''" using assms(1) by auto
  then have "takeWhile (\<lambda>c. c \<noteq> CHR '' '') (t @ CHR '' '' # u) = t"
    "dropWhile (\<lambda>c. c \<noteq> CHR '' '') (t @ CHR '' '' # u) = CHR '' '' # u"
    "takeWhile (\<lambda>c. c \<noteq> CHR '' '') t = t" "dropWhile (\<lambda>c. c \<noteq> CHR '' '') t = []"
    by (simp_all add: takeWhile_append2 dropWhile_append2)
  moreover have d: "dropWhile (\<lambda>c. c \<noteq> CHR '' '') cs = []" using all c by (intro dropWhile_all) auto
  ultimately show "strtok CHR '' '' (t @ CHR '' '' # u) = (Some t, u)" "strtok CHR '' '' t = (Some t, [])"
    using c all by (simp_all add: strtok_def d)
qed

lemma digits_no_blank: "CHR '' '' \<notin> set (dec n)" "CHR '' '' \<notin> set (''0x'' @ hex_pad w n)"
proof -
  have b: "\<not> digit_val (CHR '' '') < 16" by (simp add: digit_val_def is_digit_def is_lower_def is_upper_def)
  show "CHR '' '' \<notin> set (dec n)" using dec_digit [of "CHR '' ''" n] by (auto simp: is_digit_def)
  show "CHR '' '' \<notin> set (''0x'' @ hex_pad w n)" using hex_pad_digits [of "CHR '' ''" w n] b by auto
qed

lemma strtol0_hex: "n < 2 ^ 63 \<Longrightarrow> strtol0 (''0x'' @ hex_pad w n) = int n"
proof -
  assume n: "n < 2 ^ 63"
  obtain h hs where h: "hex_pad w n = h # hs" using hex_pad_nonempty [of w n] by (cases "hex_pad w n") auto
  have "digit_val h < 16" using hex_pad_digits [of h w n] h by simp
  then have "base0_value (''0x'' @ hex_pad w n) = n"
    using digits_value_hex_pad [of w n] by (simp add: h base0_value_def)
  moreover have "skip_sign (''0x'' @ hex_pad w n) = (False, ''0x'' @ hex_pad w n)"
    by (simp add: skip_sign_def is_space_def)
  ultimately show ?thesis using n by (simp add: strtol0_def Let_def)
qed

definition in_memory :: "u64 \<Rightarrow> nat \<Rightarrow> bool" where
  "in_memory a n \<longleftrightarrow> 0x80000000 \<le> unat a \<and> unat a + n \<le> 0x88000000"

lemma paddr_read_in_memory:
  assumes "in_memory a 4"
  shows "paddr_read m a 4 = Inr (le_load m (unat a - 0x80000000) 4)"
proof -
  have "addr_in_mem a" using assms by (simp add: addr_in_mem_iff in_memory_def)
  with assms access_ok_iff [of a 4] get_mem_addr_eq [of a] show ?thesis
    by (simp add: paddr_read_def in_memory_def)
qed

lemma x_loop_words:
  assumes "in_memory a (4 * n)"
  shows "x_loop m n a =
    Inr (map (\<lambda>i. x_line (a + of_nat (4 * i)) (le_load m (unat a - 0x80000000 + 4 * i) 4)) [0..<n])"
  using assms
proof (induction n arbitrary: a)
  case (Suc n)
  have a: "in_memory a 4" using Suc.prems by (simp add: in_memory_def)
  have u: "unat (a + 4) = unat a + 4"
    using unat_add_small [of a 4] Suc.prems by (simp add: in_memory_def)
  have "in_memory (a + 4) (4 * n)" using Suc.prems u by (simp add: in_memory_def)
  from Suc.IH [OF this] paddr_read_in_memory [OF a] u a show ?case
    by (simp add: upt_conv_Cons map_Suc_upt [symmetric] algebra_simps in_memory_def del: upt_Suc)
qed simp

text \<open>A debugger on the small core.\<close>

definition small_dbg :: "u64 \<Rightarrow> u8 \<Rightarrow> (nat, u64 list) dbg" where
  "small_dbg g e = \<lparr>d_sim = small_sim g e, d_wp = init_wp_pool, d_expr = expr_state_init, d_out = []\<rparr>"

section \<open>Properties\<close>

text \<open>
  C33. A finished program stays finished: once the core has ended or aborted, no sequence of debugger
  commands without \<open>q\<close> changes the core, the memory, the reference or the cpu state; only the log
  grows, and the exit status is the one of the moment the program stopped.
\<close>

theorem stopped_session:
  assumes "stopped (d_sim d)" and "sdb_loop E below ls d = Some (Inr d')"
    and "\<forall>line\<in>set ls. fst (strtok CHR '' '' line) \<noteq> Some ''q''"
  shows "\<exists>l. d_sim d' = (d_sim d)\<lparr>sim_log := l\<rparr>
    \<and> is_exit_status_bad E (d_sim d') = is_exit_status_bad E (d_sim d)"
proof -
  have "same_core (d_sim d) (d_sim d')"
    using assms
  proof (induction ls arbitrary: d)
    case (Cons line ls)
    obtain c rest where c: "strtok CHR '' '' line = (c, rest)" by fastforce
    show ?case
    proof (cases c)
      case None
      with Cons c show ?thesis by simp
    next
      case (Some cmd)
      with Cons.prems c obtain d1 where d1: "run_cmd E below cmd rest d = Some (Inr d1)"
        and r: "(if cpu_state (d_sim d1) = NPC_QUIT then Some (Inr d1) else sdb_loop E below ls d1) = Some (Inr d')"
        by (auto simp: bindO_Inr_iff)
      have s: "same_core (d_sim d) (d_sim d1)"
        using run_cmd_stopped [OF d1 _ Cons.prems(1)] Cons.prems(3) c Some by auto
      with same_core_stopped Cons.prems(1) have st: "stopped (d_sim d1)" by blast
      then have "cpu_state (d_sim d1) \<noteq> NPC_QUIT" by (auto simp: stopped_def npc_defs)
      with r Cons.IH [OF st] Cons.prems(3) same_core_trans [OF s] show ?thesis by auto
    qed
  qed simp
  then show ?thesis by (auto simp: same_core_def is_exit_status_bad_def cpu_gpr_def)
qed

theorem stopped_session_witness:
  "\<exists>d'. sdb_loop (small_env 9) CHR ''x'' [''c'', ''si''] ((small_dbg 0 1)\<lparr>d_sim := (small_sim 0 1)\<lparr>cpu_state := NPC_END\<rparr>\<rparr>)
       = Some (Inr d') \<and> cpu_state (d_sim d') = NPC_END \<and> top (d_sim d') = 0"
proof -
  let ?d = "(small_dbg 0 1)\<lparr>d_sim := (small_sim 0 1)\<lparr>cpu_state := NPC_END\<rparr>\<rparr>"
  have k: "strtok CHR '' '' ''c'' = (Some ''c'', [])" "strtok CHR '' '' ''si'' = (Some ''si'', [])"
    by (simp_all add: strtok_def)
  have s: "stopped (d_sim ?d)" by (simp add: stopped_def)
  have q: "\<forall>line\<in>set [''c'', ''si'']. fst (strtok CHR '' '' line) \<noteq> Some ''q''" by (simp add: k)
  obtain d' where d': "sdb_loop (small_env 9) CHR ''x'' [''c'', ''si''] ?d = Some (Inr d')"
    by (simp add: k run_cmd_def cmd_c_def cmd_si_def on_sim_def cpu_exec_def add_log_def npc_defs)
  from stopped_session [OF s d' q] obtain l where "d_sim d' = (d_sim ?d)\<lparr>sim_log := l\<rparr>" by blast
  with d' show ?thesis by (simp add: small_sim_def)
qed

text \<open>
  Leaving the debugger with \<open>q\<close> always reports success: whatever happened before, including an
  abort by differential testing, the session ends at that line with exit status 0.
\<close>

theorem quit_reports_success:
  assumes "strtok CHR '' '' line = (Some ''q'', rest)"
  shows "\<exists>d'. sdb_loop E below (line # ls) d = Some (Inr d')
    \<and> difftest_error (d_sim d') = difftest_error (d_sim d) \<and> is_exit_status_bad E (d_sim d') = Inr 0"
  using assms
  by (simp add: run_cmd_def cmd_q_def on_sim_def cpu_exec_def set_cpu_state_def is_exit_status_bad_def npc_defs)

theorem quit_reports_success_witness:
  "\<exists>d'. sdb_loop (small_env 9) CHR ''x'' [''q'', ''c'']
      \<lparr>d_sim = (small_sim 1 0)\<lparr>cpu_state := NPC_ABORT, difftest_error := True\<rparr>, d_wp = init_wp_pool,
       d_expr = expr_state_init, d_out = []\<rparr> = Some (Inr d')
     \<and> difftest_error (d_sim d') \<and> is_exit_status_bad (small_env 9) (d_sim d') = Inr 0"
proof -
  have "strtok CHR '' '' ''q'' = (Some ''q'', [])" by (simp add: strtok_def)
  from quit_reports_success [OF this, of "small_env 9" "CHR ''x''" "[''c'']"
      "\<lparr>d_sim = (small_sim 1 0)\<lparr>cpu_state := NPC_ABORT, difftest_error := True\<rparr>, d_wp = init_wp_pool,
       d_expr = expr_state_init, d_out = []\<rparr>"]
  show ?thesis by simp
qed

text \<open>
  The command \<open>x N ADDR\<close> prints memory: for a range inside the simulated memory it prints exactly
  \<open>N\<close> lines, the \<open>i\<close>-th with the address \<open>ADDR + 4 * i\<close> and the little-endian word stored there, and
  changes nothing else.
\<close>

theorem x_prints_words:
  assumes "n < 2 ^ 31" and "in_memory a (4 * n)"
  shows "cmd_x (dec n @ '' '' @ ''0x'' @ hex_pad 8 (unat a)) d =
    Some (Inr (d\<lparr>d_out := d_out d @
      map (\<lambda>i. x_line (a + of_nat (4 * i))
                 (le_load (port_mem (sim_port (d_sim d))) (unat a - 0x80000000 + 4 * i) 4)) [0..<n]\<rparr>))"
proof -
  have 1: "strtok CHR '' '' (dec n @ '' '' @ ''0x'' @ hex_pad 8 (unat a)) = (Some (dec n), ''0x'' @ hex_pad 8 (unat a))"
    using strtok_blank(1) [OF digits_no_blank(1), of n "''0x'' @ hex_pad 8 (unat a)"] by simp
  have 2: "strtok CHR '' '' (''0x'' @ hex_pad 8 (unat a)) = (Some (''0x'' @ hex_pad 8 (unat a)), [])"
    using strtok_blank(2) [OF digits_no_blank(2)] by simp
  have "unat a < 2 ^ 63" using assms(2) by (simp add: in_memory_def)
  then have "(word_of_int (strtol0 (''0x'' @ hex_pad 8 (unat a))) :: u64) = a"
    by (simp only: strtol0_hex) simp
  then show ?thesis
    using x_loop_words [OF assms(2)] assms(1) unfolding cmd_x_def 1 2 Let_def prod.case
    by (simp add: atoi_dec)
qed

theorem x_prints_words_witness:
  "cmd_x (dec 2 @ '' '' @ ''0x'' @ hex_pad 8 (unat (0x80000000 :: u64))) (small_dbg 0 0) =
     Some (Inr ((small_dbg 0 0)\<lparr>d_out := [x_line 0x80000000 0, x_line 0x80000004 0]\<rparr>))"
proof -
  have z: "le_load pmem_init k 4 = 0" for k by (simp add: numeral_eq_Suc pmem_init_def)
  have "in_memory 0x80000000 (4 * 2)" by (simp add: in_memory_def)
  from x_prints_words [OF _ this, of "small_dbg 0 0"] show ?thesis
    by (simp add: small_dbg_def small_sim_def z upt_conv_Cons)
qed

text \<open>
  C35. Creating a watchpoint and deleting it by its number restores the list of active watchpoints:
  \<open>w EXPR\<close> puts a new watchpoint in front of the list, \<open>d N\<close> with its number takes it out again
  without touching the others, provided the free list is not exhausted.
\<close>

theorem watchpoint_create_delete:
  assumes "wp_abs (d_wp d) A (f # g # F)" and "cmd_w E below e d = Some (Inr d1)" and "e \<noteq> []"
  shows "wp_abs (d_wp d1) (f # A) (g # F)
    \<and> (\<exists>d2. cmd_d (dec f) d1 = Some (Inr d2) \<and> wp_abs (d_wp d2) A (f # F) \<and> d_sim d2 = d_sim d)"
proof -
  obtain w where w: "new_wp (d_wp d) = Inr (f, w)" "wp_abs w (f # A) (g # F)"
    using wps.new_Cons [OF assms(1)] by blast
  from assms(2,3) w(1) obtain r d0 where "run_expr E below e (d\<lparr>d_wp := set_wp_string f e w\<rparr>) = Some (Inr (r, d0))"
    and d1: "d_wp d1 = set_wp_value f (case r of Some a \<Rightarrow> ucast a | None \<Rightarrow> 0) (d_wp d0)" "d_sim d1 = d_sim d0"
    by (auto simp: cmd_w_def strtok_rest_def bindO_Inr_iff say_def)
  with run_expr_sim have d0: "d_wp d0 = set_wp_string f e w" "d_sim d0 = d_sim d" by fastforce+
  have abs: "wp_abs (d_wp d1) (f # A) (g # F)" using w(2) d1 d0 by simp
  have f: "f < 32" using wp_abs_bound [OF abs, of f] by (simp add: NR_WP_def)
  have "find_wp (d_wp d1) (int f) (wp_head (d_wp d1)) = Some (Some f)"
    using find_wp_chain [of "d_wp d1" "wp_head (d_wp d1)" "f # A" f] wp_absD(2) [OF abs] wp_abs_NO [OF abs] by auto
  moreover obtain w2 where "free_wp f (d_wp d1) = Some (Inr w2)" "wp_abs w2 (remove1 f (f # A)) (f # F)"
    using wps.free_Cons [OF abs, of f] by auto
  ultimately show ?thesis
    using abs f d1(2) d0(2) by (simp add: cmd_d_def strtok_rest_def atoi_dec)
qed

theorem watchpoint_create_delete_witness:
  "\<exists>d1 d2. cmd_w (small_env 9) CHR ''x'' ''7'' (small_dbg 0 0) = Some (Inr d1)
     \<and> wp_abs (d_wp d1) [0] [1..<32] \<and> cmd_d (dec 0) d1 = Some (Inr d2)
     \<and> wp_abs (d_wp d2) [] (0 # [2..<32])"
proof -
  have e: "[0..<32] = 0 # 1 # [2..<(32 :: nat)]" "[1..<32] = 1 # [2..<(32 :: nat)]"
    by (simp_all only: upt_conv_Cons) simp_all
  have i: "wp_abs init_wp_pool [] (0 # 1 # [2..<32])" using init_wp_abs unfolding e(1) .
  then have a: "wp_abs (d_wp (small_dbg 0 0)) [] (0 # 1 # [2..<32])" by (simp only: small_dbg_def dbg.simps)
  obtain w where w: "new_wp init_wp_pool = Inr (0, w)"
    using wps.new_Cons [OF i] by blast
  have m: "match_hex ''7'' = None" "match_reg ''7'' = None" by (simp_all add: match_hex_def match_reg_def)
  have f: "find_rule rules ''7'' = Some (TK_NUM, 1)"
    by (simp add: rules_def m match_many_def match_lit_def is_digit_def Let_def)
  have t: "make_token ''7'' = Inr (Some [(TK_NUM, ''7'')])"
    by (simp add: make_token_def make_token_loop.simps f)
  have "\<exists>x v. expr mem CHR ''x'' gpr pc expr_state_init ''7'' = Inr (x, v)" for mem gpr pc
    by (simp add: expr_def t convert_step_def deref_str_def expr_state_init_def eval.simps Let_def
        numeral_eq_Suc)
  then obtain x v where "expr (port_mem (sim_port (small_sim 0 0))) CHR ''x'' (v_gpr (small_vtop 9) (top (small_sim 0 0)))
      (wb_pc_now (small_sim 0 0)) expr_state_init ''7'' = Inr (x, v)" by blast
  then obtain d1 where d1: "cmd_w (small_env 9) CHR ''x'' ''7'' (small_dbg 0 0) = Some (Inr d1)"
    by (simp add: cmd_w_def strtok_rest_def small_dbg_def w run_expr_def cpu_gpr_def small_env_def small_sim_def)
  from watchpoint_create_delete [OF a d1] d1 show ?thesis unfolding e(2) by blast
qed

end
