(* ===== verification/Itrace.thy ===== *)
theory Itrace
  imports C_Lib
begin

text \<open>
  The instruction trace: the wrapper around the LLVM disassembler (\<open>src/sim/csrc/disasm.cc\<close>) and the
  function \<open>itrace\<close> of \<open>src/sim/csrc/sim_main.cpp\<close>, which puts a line together in a buffer of 128
  characters.

  LLVM is a parameter (\<open>llvm\<close>): the targets it knows, their names, and the text it prints for the bytes of
  an instruction under the options that were set. The wrapper's three global pointers are null until
  \<open>init_disasm\<close> has run; they are set together, so they are one optional value.
\<close>

record 't disasm =
  dis_target :: 't
  dis_features :: "string list"
  dis_imm_hex :: bool
  dis_branch_address :: bool

record 't llvm =
  llvm_version_major :: nat
  lookup_target :: "string \<Rightarrow> 't option"
  target_name :: "'t \<Rightarrow> string"
  print_inst :: "'t disasm \<Rightarrow> u64 \<Rightarrow> u8 list \<Rightarrow> string"

definition init_disasm :: "'t llvm \<Rightarrow> string \<Rightarrow> 't disasm res" where
  "init_disasm L triple =
     (case lookup_target L triple of
        None \<Rightarrow> Inl Assert_fail
      | Some target \<Rightarrow>
          let isa = target_name L target in
          Inr \<lparr>dis_target = target,
               dis_features = (if isa = ''riscv32'' \<or> isa = ''riscv64'' then [''+m'', ''+a'', ''+c'', ''+f'', ''+d''] else []),
               dis_imm_hex = True,
               dis_branch_address = (llvm_version_major L \<ge> 11)\<rparr>)"

text \<open>\<open>find_first_not_of('\t')\<close>, stored in an \<open>int\<close>: \<open>npos\<close> becomes -1.\<close>

definition tab :: char where "tab = CHR 0x09"

definition first_not_tab :: "string \<Rightarrow> u64" where
  "first_not_tab s = (if list_all (\<lambda>c. c = tab) s then - 1 else of_nat (length (takeWhile (\<lambda>c. c = tab) s)))"

definition to_int32 :: "u64 \<Rightarrow> int" where
  "to_int32 v = sint (ucast v :: 32 word)"

text \<open>The text copied to the caller's buffer of \<open>size\<close> characters, up to the first null character.\<close>

definition disassemble :: "'t llvm \<Rightarrow> 't disasm option \<Rightarrow> int \<Rightarrow> u64 \<Rightarrow> u8 list \<Rightarrow> string res" where
  "disassemble L g size_arg pc code =
     (case g of
        None \<Rightarrow> Inl Null_deref
      | Some dis \<Rightarrow>
          let s = print_inst L dis pc code;
              skip = to_int32 (first_not_tab s)
          in if \<not> to_int32 (of_nat (length s)) - skip < size_arg then Inl Assert_fail
             else if skip < 0 \<or> skip > int (length s) then Inl Out_of_bounds
             else let t = takeWhile (\<lambda>c. c \<noteq> CHR 0x00) (drop (nat skip) s)
                  in if int (length t) < size_arg then Inr t else Inl Out_of_bounds)"

definition inst_byte :: "u32 \<Rightarrow> nat \<Rightarrow> u8" where
  "inst_byte w k = ucast (drop_bit (8 * k) w)"

definition itrace_head :: "u64 \<Rightarrow> u32 \<Rightarrow> string" where
  "itrace_head pc cpu_inst =
     ''0x'' @ hex_pad 16 (unat pc) @ '':'' @
     concat (map (\<lambda>i. '' '' @ hex_pad 2 (unat (inst_byte cpu_inst i))) [0..<4]) @ '' ''"

text \<open>The line, as it goes to the log in both modes.\<close>

definition itrace :: "'t llvm \<Rightarrow> 't disasm option \<Rightarrow> u64 \<Rightarrow> u32 \<Rightarrow> string res" where
  "itrace L g pc cpu_inst =
     (let p = itrace_head pc cpu_inst in
      bindR (disassemble L g (128 - int (length p)) pc (map (inst_byte cpu_inst) [0..<4])) (\<lambda>t.
        Inr (p @ t @ nl)))"

section \<open>The buffer\<close>

lemma length_itrace_head [simp]: "length (itrace_head pc w) = 32"
proof -
  have "length (hex_pad 16 (unat pc)) = 16" using length_hex_pad [of 16 "unat pc"] unsigned_less [of pc, where 'a = nat] by simp
  moreover have "length (hex_pad 2 (unat (inst_byte w i))) = 2" for i
    using length_hex_pad [of 2 "unat (inst_byte w i)"] unsigned_less [of "inst_byte w i", where 'a = nat] by simp
  ultimately show ?thesis by (simp add: itrace_head_def upt_rec)
qed

lemma to_int32_small: "n < 2 ^ 31 \<Longrightarrow> to_int32 (of_nat n) = int n"
proof -
  assume n: "n < 2 ^ 31"
  have "(ucast (of_nat n :: u64) :: 32 word) = of_nat n"
    using n by (simp add: unsigned_of_nat take_bit_nat_eq_self)
  moreover have "sint (of_nat n :: 32 word) = int n"
    using n by (simp add: signed_of_nat signed_take_bit_int_eq_self)
  ultimately show ?thesis by (simp add: to_int32_def)
qed

lemma to_int32_npos: "to_int32 (- 1) = - 1"
proof -
  have "(ucast (- 1 :: u64) :: 32 word) = - 1" by (rule bit_word_eqI) (simp add: bit_simps)
  then show ?thesis by (simp add: to_int32_def)
qed

lemma drop_takeWhile: "drop (length (takeWhile P xs)) xs = dropWhile P xs"
  by (metis append_eq_conv_conj takeWhile_dropWhile_id)

lemma length_takeWhile_drop: "length xs = length (takeWhile P xs) + length (dropWhile P xs)"
  by (metis length_append takeWhile_dropWhile_id)

lemma disassemble_cases:
  assumes "length (print_inst L dis pc code) < 2 ^ 31"
  defines "t \<equiv> dropWhile (\<lambda>c. c = tab) (print_inst L dis pc code)"
  shows "disassemble L (Some dis) sz pc code =
    (if t = [] then Inl (if int (length (print_inst L dis pc code)) + 1 < sz then Out_of_bounds else Assert_fail)
     else if int (length t) < sz then Inr (takeWhile (\<lambda>c. c \<noteq> CHR 0x00) t) else Inl Assert_fail)"
proof -
  define s where "s = print_inst L dis pc code"
  have t: "t = dropWhile (\<lambda>c. c = tab) s" by (simp add: t_def s_def)
  have ls: "to_int32 (of_nat (length s)) = int (length s)" using to_int32_small assms(1) by (simp add: s_def)
  show ?thesis
  proof (cases "t = []")
    case True
    then have "first_not_tab s = - 1" by (auto simp: t first_not_tab_def dropWhile_eq_Nil_conv list_all_iff)
    then show ?thesis
      using True ls by (simp add: disassemble_def s_def [symmetric] to_int32_npos Let_def)
  next
    case False
    let ?k = "length (takeWhile (\<lambda>c. c = tab) s)"
    have k: "length s = ?k + length t" by (simp add: t length_takeWhile_drop [symmetric])
    then have "to_int32 (of_nat ?k) = int ?k" using to_int32_small [of ?k] assms(1) by (simp add: s_def [symmetric])
    then have sk: "to_int32 (first_not_tab s) = int ?k"
      using False by (auto simp: t first_not_tab_def dropWhile_eq_Nil_conv list_all_iff)
    have "length (takeWhile (\<lambda>c. c \<noteq> CHR 0x00) t) \<le> length t" by (rule length_takeWhile_le)
    then show ?thesis
      using False ls sk k drop_takeWhile [of "\<lambda>c. c = tab" s]
      by (auto simp: disassemble_def s_def [symmetric] Let_def t [symmetric])
  qed
qed

text \<open>
  C39. A trace line: when the text of the instruction, its leading tabs left out, is shorter than 96
  characters, the line is the program counter, the four bytes of the instruction and that text, and with
  its null character it fits the buffer of 128; a longer text stops the simulator, and so does a
  disassembler that was not started. A text of nothing but tabs is read before its beginning.
\<close>

theorem itrace_line:
  assumes "length (print_inst L dis pc (map (inst_byte w) [0..<4])) < 2 ^ 31"
  defines "s \<equiv> print_inst L dis pc (map (inst_byte w) [0..<4])"
  defines "t \<equiv> dropWhile (\<lambda>c. c = tab) s"
  defines "line \<equiv> itrace_head pc w @ takeWhile (\<lambda>c. c \<noteq> CHR 0x00) t"
  shows "itrace L (Some dis) pc w =
      (if t = [] then Inl (if length s < 95 then Out_of_bounds else Assert_fail)
       else if length t < 96 then Inr (line @ nl) else Inl Assert_fail)
    \<and> (length t < 96 \<longrightarrow> length line < 128)
    \<and> itrace L None pc w = Inl Null_deref"
proof -
  have "length (takeWhile (\<lambda>c. c \<noteq> CHR 0x00) t) \<le> length t" by (rule length_takeWhile_le)
  then have "length t < 96 \<longrightarrow> length line < 128" by (simp add: line_def)
  moreover have "itrace L None pc w = Inl Null_deref" by (simp add: itrace_def disassemble_def Let_def)
  ultimately show ?thesis
    using disassemble_cases [OF assms(1), of 96]
    by (auto simp: itrace_def Let_def s_def [symmetric] t_def [symmetric] line_def)
qed

text \<open>A disassembler that knows one target and prints one instruction.\<close>

definition nop_llvm :: "unit llvm" where
  "nop_llvm = \<lparr>llvm_version_major = 14, lookup_target = (\<lambda>triple. if triple = ''riscv64-pc-linux-gnu'' then Some () else None),
     target_name = (\<lambda>_. ''riscv64''), print_inst = (\<lambda>_ _ _. [tab] @ ''nop'')\<rparr>"

theorem itrace_line_witness:
  "\<exists>dis. init_disasm nop_llvm ''riscv64-pc-linux-gnu'' = Inr dis
     \<and> itrace nop_llvm (Some dis) 0x80000000 0x13 = Inr (itrace_head 0x80000000 0x13 @ ''nop'' @ nl)"
proof -
  obtain dis where d: "init_disasm nop_llvm ''riscv64-pc-linux-gnu'' = Inr dis"
    by (simp add: init_disasm_def nop_llvm_def Let_def)
  have p: "print_inst nop_llvm dis pc code = [tab] @ ''nop''" for pc code by (simp add: nop_llvm_def)
  from itrace_line [of nop_llvm dis "0x80000000" "0x13"] d show ?thesis by (simp add: p tab_def)
qed

end
