(* ===== verification/Npc_Main.thy ===== *)
theory Npc_Main
  imports Sdb Itrace Regex_Rules
begin

text \<open>
  Start-up and the main program: the command line, the image and the reference
  (\<open>src/sim/csrc/init.cpp\<close>), the log (\<open>init_log\<close> and the macros of \<open>src/sim/csrc/include/utils.h\<close>), \<open>init_sim\<close> and
  \<open>end_sim\<close> of \<open>src/sim/csrc/sim_main.cpp\<close>, reading a line (\<open>rl_gets\<close> of \<open>src/sim/csrc/sdb.cpp\<close>) and \<open>main\<close>
  (\<open>src/sim/csrc/npc_main.cpp\<close>). The options are the list that \<open>getopt_long\<close> reports. The properties say in
  which state a session starts and what an exit status of 0 means.
\<close>

section \<open>The log\<close>

text \<open>Where \<open>log_fp\<close> points, \<open>None\<close> being the null pointer, and what was written so far.\<close>

datatype log_dest = To_stdout | To_file string

record logger =
  log_fp :: "log_dest option"
  log_stdout :: string
  log_text :: string

definition CONFIG_ITRACE_COND :: bool where "CONFIG_ITRACE_COND = False"

definition log_write :: "string \<Rightarrow> logger \<Rightarrow> logger res" where
  "log_write t l =
     (case log_fp l of
        None \<Rightarrow> Inl Null_deref
      | Some To_stdout \<Rightarrow> Inr (l\<lparr>log_stdout := log_stdout l @ t\<rparr>)
      | Some (To_file f) \<Rightarrow> Inr (l\<lparr>log_text := log_text l @ t\<rparr>))"

definition Log :: "string \<Rightarrow> logger \<Rightarrow> logger res" where
  "Log t l = log_write t (if CONFIG_ITRACE_COND then l\<lparr>log_stdout := log_stdout l @ t\<rparr> else l)"

text \<open>The result of \<open>fopen\<close> is not checked.\<close>

definition init_log :: "(string \<Rightarrow> bool) \<Rightarrow> string option \<Rightarrow> logger res" where
  "init_log can_open log_file =
     (let fp = (case log_file of None \<Rightarrow> Some To_stdout | Some f \<Rightarrow> if can_open f then Some (To_file f) else None)
      in Log (''Log is written to '' @ (case log_file of Some f \<Rightarrow> f | None \<Rightarrow> ''stdout'') @ nl)
           \<lparr>log_fp = fp, log_stdout = [], log_text = []\<rparr>)"

text \<open>The trace of an instruction goes to the log file only in batch mode, and through \<open>Log\<close> otherwise.\<close>

definition trace_inst :: "'t llvm \<Rightarrow> 't disasm option \<Rightarrow> bool \<Rightarrow> u64 \<Rightarrow> u32 \<Rightarrow> logger \<Rightarrow> logger res" where
  "trace_inst L g is_batch_mode pc cpu_inst l =
     bindR (itrace L g pc cpu_inst) (\<lambda>line. if is_batch_mode then log_write line l else Log line l)"

section \<open>Reading lines\<close>

text \<open>\<open>rl_gets\<close>: the line just read, the lines still to come and the history. The buffer of the line before is
  released first, so only one is alive.\<close>

definition rl_gets :: "string list \<times> string list \<Rightarrow> string option \<times> string list \<times> string list" where
  "rl_gets s = (case s of
      ([], hist) \<Rightarrow> (None, [], hist)
    | (line # ls, hist) \<Rightarrow> (Some line, ls, if line \<noteq> [] then hist @ [line] else hist))"

lemma sdb_loop_rl_gets:
  "sdb_loop E below ls d =
     (case rl_gets (ls, hist) of
        (None, _) \<Rightarrow> Some (Inr d)
      | (Some line, ls', _) \<Rightarrow>
          (case strtok CHR '' '' line of
             (None, _) \<Rightarrow> sdb_loop E below ls' d
           | (Some cmd, rest) \<Rightarrow>
               bindO (run_cmd E below cmd rest d) (\<lambda>d.
                 if cpu_state (d_sim d) = NPC_QUIT then Some (Inr d) else sdb_loop E below ls' d)))"
  by (cases ls) (simp_all add: rl_gets_def)

section \<open>Start-up\<close>

text \<open>The options that \<open>getopt_long\<close> reports, in order; \<open>Opt_image\<close> is an argument that is no option.\<close>

datatype opt = Opt_batch | Opt_log string | Opt_diff string | Opt_port string | Opt_help
  | Opt_ftrace string | Opt_image string | Opt_unknown

record args =
  is_batch :: bool
  log_file :: "string option"
  diff_so_file :: "string option"
  img_file :: "string option"
  func_table :: "FN list"

definition args_init :: args where
  "args_init = \<lparr>is_batch = False, log_file = None, diff_so_file = None, img_file = None, func_table = func_init\<rparr>"

text \<open>\<open>Inr None\<close> is a call of \<open>exit(0)\<close>.\<close>

fun parse_args :: "(string \<Rightarrow> bytes option) \<Rightarrow> opt list \<Rightarrow> args \<Rightarrow> args option res" where
  "parse_args files [] a = Inr (Some a)"
| "parse_args files (Opt_batch # os) a = parse_args files os (a\<lparr>is_batch := True\<rparr>)"
| "parse_args files (Opt_log f # os) a = parse_args files os (a\<lparr>log_file := Some f\<rparr>)"
| "parse_args files (Opt_diff f # os) a = parse_args files os (a\<lparr>diff_so_file := Some f\<rparr>)"
| "parse_args files (Opt_ftrace f # os) a =
     bindR (read_elf (files f) (func_table a)) (\<lambda>r.
       case r of
         Elf_exit \<Rightarrow> Inr None
       | Elf_no_symtab \<Rightarrow> parse_args files os a
       | Elf_loaded fs pstr trunc \<Rightarrow> parse_args files os (a\<lparr>func_table := fs\<rparr>))"
| "parse_args files (Opt_image f # os) a = Inr (Some (a\<lparr>img_file := Some f\<rparr>))"
| "parse_args files (Opt_port p # os) a = Inr None"
| "parse_args files (Opt_help # os) a = Inr None"
| "parse_args files (Opt_unknown # os) a = Inr None"

definition sim_init :: "('v, 'r) env \<Rightarrow> 'r \<Rightarrow> environ \<Rightarrow> ('v, 'r) sim" where
  "sim_init E r0 env = \<lparr>top = v_new (vtop E), clk = False, rstn = False, main_time = 0, cpu_state = NPC_RUNNING,
     difftest_error = False, is_ebreak = 0, wb_pc_now = CONFIG_PC_RET, gpr_ptr = False, wb_num = 0,
     is_skip_ref = False, ref = r0,
     sim_port = \<lparr>port_mem = pmem_init, port_timer = \<lparr>boot_time = 0, clock_calls = 0\<rparr>, port_console = []\<rparr>,
     dep = (if PERFORMANCE_MODEL (bld E) then dependency_observer_init_from_env env dep_state_init else dep_state_init),
     hit_bypass_events = 0, miss_hazard_events = 0, operand_bypass_events = 0,
     icache_64set_executed = replicate 5 False, sim_log = []\<rparr>"

text \<open>
  The image file is opened without a check, so a missing file is used as a null pointer; the reference
  is loaded from the file given by \<open>--diff\<close>, which has to exist (\<open>CONFIG_DIFFTEST\<close> is 1).
\<close>

definition init_args ::
    "('v, 'r) env \<Rightarrow> (string \<Rightarrow> bytes option) \<Rightarrow> (string \<Rightarrow> 'r option) \<Rightarrow> opt list \<Rightarrow> ('v, 'r) sim
     \<Rightarrow> (args \<times> ('v, 'r) sim) option res" where
  "init_args E files libs os s =
     bindR (parse_args files os args_init) (\<lambda>r.
       case r of
         None \<Rightarrow> Inr None
       | Some a \<Rightarrow>
           bindR (case img_file a of
                    None \<Rightarrow> load_img (port_mem (sim_port s)) None
                  | Some f \<Rightarrow> (case files f of None \<Rightarrow> Inl Null_deref
                              | Some bs \<Rightarrow> load_img (port_mem (sim_port s)) (Some bs))) (\<lambda>(size, m).
           let s = s\<lparr>sim_port := (sim_port s)\<lparr>port_mem := m\<rparr>\<rparr>
           in bindR (init_difftest E (Option.bind (diff_so_file a) libs) (map m [0..<nat size]) s)
                (\<lambda>s. Inr (Some (a, s)))))"

text \<open>\<open>init_sdb\<close> compiles the rules of the tokenizer and links the pool of watchpoints.\<close>

definition init_sdb :: "(piece list option list \<times> string list) \<times> wp_state" where
  "init_sdb = (init_regex rule_table, init_wp_pool)"

definition init_monitor ::
    "('v, 'r) env \<Rightarrow> 't llvm \<Rightarrow> (string \<Rightarrow> bytes option) \<Rightarrow> (string \<Rightarrow> bool) \<Rightarrow> (string \<Rightarrow> 'r option) \<Rightarrow> opt list
     \<Rightarrow> ('v, 'r) sim \<Rightarrow> (args \<times> logger \<times> 't disasm \<times> ('v, 'r) dbg) option res" where
  "init_monitor E L files can_open libs os s =
     bindR (init_args E files libs os s) (\<lambda>r.
       case r of
         None \<Rightarrow> Inr None
       | Some (a, s) \<Rightarrow>
           bindR (init_log can_open (log_file a)) (\<lambda>lg.
           let wp = snd init_sdb in
           bindR (init_disasm L ''riscv64-pc-linux-gnu'') (\<lambda>dis.
             Inr (Some (a, lg, dis, \<lparr>d_sim = s, d_wp = wp, d_expr = expr_state_init, d_out = []\<rparr>)))))"

definition init_sim ::
    "('v, 'r) env \<Rightarrow> 't llvm \<Rightarrow> 'r \<Rightarrow> environ \<Rightarrow> (string \<Rightarrow> bytes option) \<Rightarrow> (string \<Rightarrow> bool) \<Rightarrow> (string \<Rightarrow> 'r option)
     \<Rightarrow> opt list \<Rightarrow> (args \<times> logger \<times> 't disasm \<times> ('v, 'r) dbg) option res" where
  "init_sim E L r0 env files can_open libs os =
     bindR (reset E 5 (sim_init E r0 env)) (init_monitor E L files can_open libs os)"

text \<open>\<open>end_sim\<close> deletes the core, unless the observers are built in; \<open>None\<close> is a deleted object.\<close>

definition end_sim :: "('v, 'r) env \<Rightarrow> 'v option \<Rightarrow> 'v option" where
  "end_sim E obj = (if PERFORMANCE_MODEL (bld E) then obj else None)"

section \<open>The main program\<close>

text \<open>The exit status: the first monitor that fails decides, in the order of the source.\<close>

definition main_status :: "('v, 'r) env \<Rightarrow> (string \<Rightarrow> bool) \<Rightarrow> ('v, 'r) sim \<Rightarrow> int res" where
  "main_status E can_open s =
     bindR (is_exit_status_bad E s) (\<lambda>exit_status.
       let dependency_status = fst (dependency_observer_finalize can_open (dep s) exit_status);
           monitor_status = icache_64set_monitor_finalize E s;
           loaduse_p1_status = loaduse_p1_monitor_finalize s
       in Inr (if ICACHE_64SET_MONITOR (bld E) \<and> monitor_status \<noteq> 0 then monitor_status
               else if LOADUSE_P1_MONITOR (bld E) \<and> loaduse_p1_status \<noteq> 0 then loaduse_p1_status
               else if PERFORMANCE_MODEL (bld E) \<and> dependency_status \<noteq> 0 then dependency_status
               else exit_status))"

definition npc_main ::
    "('v, 'r) env \<Rightarrow> 't llvm \<Rightarrow> 'r \<Rightarrow> environ \<Rightarrow> (string \<Rightarrow> bytes option) \<Rightarrow> (string \<Rightarrow> bool) \<Rightarrow> (string \<Rightarrow> 'r option)
     \<Rightarrow> char \<Rightarrow> opt list \<Rightarrow> string list \<Rightarrow> int run" where
  "npc_main E L r0 env files can_open libs below os ls =
     bindO (Some (init_sim E L r0 env files can_open libs os)) (\<lambda>r.
       case r of
         None \<Rightarrow> Some (Inr 0)
       | Some (a, lg, dis, d) \<Rightarrow>
           bindO (sdb_mainloop E below (is_batch a) ls d) (\<lambda>d. Some (main_status E can_open (d_sim d))))"

section \<open>The start of a session\<close>

lemma cycles_ctl: "cycles E n s = Inr t \<Longrightarrow> ctl t = ctl s"
  by (induction n arbitrary: s) (auto simp: bindR_Inr_iff dest!: single_cycle_ctl)

lemma reset_ctl: "reset E n s = Inr t \<Longrightarrow> ctl t = ctl s \<and> rstn t"
  by (auto simp: reset_def bindR_Inr_iff ctl_def dest!: cycles_ctl)

text \<open>The image that is copied, and the machine it is copied to.\<close>

lemma init_args_image:
  assumes "init_args E files libs os s = Inr (Some (a, t))" "img_file a = Some f"
  shows "\<exists>bs so r1. files f = Some bs \<and> bs \<noteq> [] \<and> length bs \<le> unat CONFIG_MSIZE
    \<and> diff_so_file a = Some so \<and> libs so = Some r1 \<and> gpr_ptr s
    \<and> t = s\<lparr>sim_port := (sim_port s)\<lparr>port_mem := \<lambda>i. if i < length bs then bs ! i else port_mem (sim_port s) i\<rparr>,
           ref := ref_regcpy_to_ref (refsim E) (v_gpr (vtop E) (top s)) (ref_difftest_memcpy (refsim E) CONFIG_PC_RET bs r1)\<rparr>"
proof -
  have a: "parse_args files os args_init = Inr (Some a)"
    using assms(1) by (auto simp: init_args_def bindR_Inr_iff Let_def split: option.splits)
  obtain bs where bs: "files f = Some bs"
    using assms a by (cases "files f") (auto simp: init_args_def)
  let ?m = "\<lambda>i. if i < length bs then bs ! i else port_mem (sim_port s) i"
  let ?u = "s\<lparr>sim_port := (sim_port s)\<lparr>port_mem := ?m\<rparr>\<rparr>"
  have l: "bs \<noteq> []" "length bs \<le> unat CONFIG_MSIZE"
    using assms a bs by (auto simp: init_args_def load_img_def split: if_splits)
  have img: "map ?m [0..<length bs] = bs" by (rule nth_equalityI) simp_all
  have d: "init_difftest E (Option.bind (diff_so_file a) libs) bs ?u = Inr t"
    using assms a bs l img by (simp add: init_args_def load_img_def bindR_Inr_iff Let_def)
  then obtain so r1 where so: "diff_so_file a = Some so" "libs so = Some r1"
    by (auto simp: init_difftest_def split: option.splits simp: bind_eq_Some_conv)
  then show ?thesis using d bs l by (auto simp: init_difftest_def cpu_gpr_def split: if_splits)
qed

lemma session_starts:
  assumes "init_sim E L r0 env files can_open libs os = Inr (Some (a, lg, dis, d))" "img_file a = Some f"
  shows "log_fp lg \<noteq> None \<and> cpu_state (d_sim d) = NPC_RUNNING \<and> \<not> difftest_error (d_sim d) \<and> wb_num (d_sim d) = 0
    \<and> rstn (d_sim d) \<and> gpr_ptr (d_sim d) \<and> wp_abs (d_wp d) [] [0..<32]
    \<and> (\<exists>bs so r1. files f = Some bs \<and> 0 < length bs \<and> length bs \<le> unat CONFIG_MSIZE
         \<and> map (port_mem (sim_port (d_sim d))) [0..<length bs] = bs
         \<and> diff_so_file a = Some so \<and> libs so = Some r1
         \<and> ref (d_sim d) = ref_regcpy_to_ref (refsim E) (v_gpr (vtop E) (top (d_sim d)))
                             (ref_difftest_memcpy (refsim E) CONFIG_PC_RET bs r1))"
proof -
  obtain s where s: "reset E 5 (sim_init E r0 env) = Inr s" "init_monitor E L files can_open libs os s = Inr (Some (a, lg, dis, d))"
    using assms(1) by (auto simp: init_sim_def bindR_Inr_iff)
  obtain t where t: "init_args E files libs os s = Inr (Some (a, t))" "init_log can_open (log_file a) = Inr lg"
      "d_sim d = t" "d_wp d = init_wp_pool"
    using s(2) by (auto simp: init_monitor_def bindR_Inr_iff init_sdb_def Let_def split: option.splits)
  have c: "cpu_state s = NPC_RUNNING" "\<not> difftest_error s" "wb_num s = 0" "rstn s"
    using reset_ctl [OF s(1)] by (simp_all add: ctl_def sim_init_def)
  obtain bs so r1 where i: "files f = Some bs" "bs \<noteq> []" "length bs \<le> unat CONFIG_MSIZE" "diff_so_file a = Some so"
      "libs so = Some r1" "gpr_ptr s"
      and eq: "t = s\<lparr>sim_port := (sim_port s)\<lparr>port_mem := \<lambda>i. if i < length bs then bs ! i else port_mem (sim_port s) i\<rparr>,
           ref := ref_regcpy_to_ref (refsim E) (v_gpr (vtop E) (top s)) (ref_difftest_memcpy (refsim E) CONFIG_PC_RET bs r1)\<rparr>"
    using init_args_image [OF t(1) assms(2)] by blast
  have "log_fp lg \<noteq> None"
    using t(2) by (auto simp: init_log_def Log_def log_write_def CONFIG_ITRACE_COND_def Let_def split: option.splits log_dest.splits)
  moreover have "map (port_mem (sim_port t)) [0..<length bs] = bs" by (rule nth_equalityI) (simp_all add: eq)
  ultimately show ?thesis using i c t(3,4) init_wp_abs by (simp add: eq)
qed

text \<open>
  C16. A session with an image starts in a defined state. When \<open>init_sim\<close> succeeds, the log can be written, the
  simulator is running with no instruction retired and no difference recorded, the core is out of reset
  and has exported its registers, and all 32 watchpoints are free. The file of the image has at least one
  byte and fits into the memory, the memory begins with its bytes, and the reference has received the same
  bytes at the reset address and the registers the core has at that moment.
\<close>

theorem session_start:
  assumes "init_sim E L r0 env files can_open libs os = Inr (Some (a, lg, dis, d))" "img_file a = Some f"
  shows "log_fp lg \<noteq> None \<and> cpu_state (d_sim d) = NPC_RUNNING \<and> \<not> difftest_error (d_sim d) \<and> wb_num (d_sim d) = 0
    \<and> rstn (d_sim d) \<and> gpr_ptr (d_sim d) \<and> wp_abs (d_wp d) [] [0..<32]
    \<and> (\<exists>bs so r1. files f = Some bs \<and> 0 < length bs \<and> length bs \<le> unat CONFIG_MSIZE
         \<and> map (port_mem (sim_port (d_sim d))) [0..<length bs] = bs
         \<and> diff_so_file a = Some so \<and> libs so = Some r1
         \<and> ref (d_sim d) = ref_regcpy_to_ref (refsim E) (v_gpr (vtop E) (top (d_sim d)))
                             (ref_difftest_memcpy (refsim E) CONFIG_PC_RET bs r1))"
  by (rule session_starts [OF assms])

text \<open>The small core with an image of one instruction.\<close>

definition boot_opts :: "opt list" where
  "boot_opts = [Opt_batch, Opt_diff ''ref.so'', Opt_image ''a.bin'']"

lemma small_cycles:
  "\<exists>s'. cycles (small_env k) n s = Inr s' \<and> (n \<noteq> 0 \<longrightarrow> gpr_ptr s') \<and> top s' = top s + n
    \<and> (n \<noteq> 0 \<longrightarrow> is_ebreak s' = (if top s + n - 1 \<ge> k then 1 else 0))"
proof (induction n arbitrary: s)
  case (Suc n)
  define s1 where "s1 = s\<lparr>top := top s + 1, clk := True, main_time := main_time s + 2, gpr_ptr := True,
            is_ebreak := (if top s \<ge> k then 1 else 0)\<rparr>"
  have "single_cycle (small_env k) s = Inr s1" by (simp add: s1_def small_cycle)
  then show ?case using Suc.IH [of s1] by (cases n) (auto simp: s1_def)
qed simp

lemma small_boot:
  "\<exists>a lg dis d. init_sim (small_env k) nop_llvm (replicate 33 0) (\<lambda>_. None) (\<lambda>_. Some [0x13, 0, 0, 0]) (\<lambda>_. True)
       (\<lambda>_. Some (replicate 33 0)) boot_opts = Inr (Some (a, lg, dis, d))
     \<and> img_file a = Some ''a.bin'' \<and> is_batch a \<and> top (d_sim d) = 5 \<and> is_ebreak (d_sim d) = (if 4 \<ge> k then 1 else 0)"
proof -
  let ?s = "(sim_init (small_env k) (replicate 33 0) (\<lambda>_. None))\<lparr>rstn := False\<rparr>"
  obtain s where s: "cycles (small_env k) 5 ?s = Inr s" "gpr_ptr s" "top s = 5" "is_ebreak s = (if 4 \<ge> k then 1 else 0)"
    using small_cycles [of k 5 ?s] by (auto simp: sim_init_def small_defs)
  then have r: "reset (small_env k) 5 (sim_init (small_env k) (replicate 33 0) (\<lambda>_. None)) = Inr (s\<lparr>rstn := True\<rparr>)"
    by (simp add: reset_def)
  show ?thesis
    using s(2-4) unfolding init_sim_def r
    by (simp add: init_monitor_def init_args_def boot_opts_def args_init_def load_img_def CONFIG_MSIZE_def init_difftest_def
        cpu_gpr_def init_log_def Log_def log_write_def CONFIG_ITRACE_COND_def init_disasm_def nop_llvm_def Let_def)
qed

theorem session_start_witness:
  "\<exists>a lg dis d. init_sim (small_env 9) nop_llvm (replicate 33 0) (\<lambda>_. None) (\<lambda>_. Some [0x13, 0, 0, 0]) (\<lambda>_. True)
       (\<lambda>_. Some (replicate 33 0)) boot_opts = Inr (Some (a, lg, dis, d))
     \<and> port_mem (sim_port (d_sim d)) 0 = 0x13 \<and> ref (d_sim d) = replicate 33 0
     \<and> cpu_state (d_sim d) = NPC_RUNNING"
proof -
  obtain a lg dis d where b: "init_sim (small_env 9) nop_llvm (replicate 33 0) (\<lambda>_. None) (\<lambda>_. Some [0x13, 0, 0, 0]) (\<lambda>_. True)
       (\<lambda>_. Some (replicate 33 0)) boot_opts = Inr (Some (a, lg, dis, d))" "img_file a = Some ''a.bin''"
    using small_boot [of 9] by blast
  from session_start [OF b] b(1) show ?thesis by (auto simp: small_env_def small_ref_def small_vtop_def)
qed

section \<open>The exit status\<close>

lemma main_status_zero:
  assumes "main_status E can_open s = Inr 0"
  shows "is_exit_status_bad E s = Inr 0
    \<and> (ICACHE_64SET_MONITOR (bld E) \<longrightarrow> icache_64set_monitor_finalize E s = 0)
    \<and> (LOADUSE_P1_MONITOR (bld E) \<longrightarrow> loaduse_p1_monitor_finalize s = 0)
    \<and> (PERFORMANCE_MODEL (bld E) \<longrightarrow> fst (dependency_observer_finalize can_open (dep s) 0) = 0)"
proof -
  obtain e where e: "is_exit_status_bad E s = Inr e" using assms by (auto simp: main_status_def bindR_Inr_iff)
  have "e = 0" using assms e by (simp add: main_status_def Let_def split: if_splits)
  then show ?thesis using assms e by (auto simp: main_status_def Let_def split: if_splits)
qed

lemma cpu_exec_end_state:
  "cpu_exec_end E u = Inr t \<Longrightarrow> cpu_state t \<noteq> NPC_QUIT \<and> (cpu_state t = NPC_END \<longrightarrow> cpu_state u = NPC_END)"
  by (auto simp: cpu_exec_end_def add_log_def set_cpu_state_def bindR_Inr_iff npc_defs split: if_splits)

lemma exit_zero_state:
  assumes "is_exit_status_bad E t = Inr 0" "cpu_state t \<noteq> NPC_QUIT"
  shows "cpu_state t = NPC_END \<and> v_gpr (vtop E) (top t) ! 10 = 0"
  using assms by (auto simp: is_exit_status_bad_def cpu_gpr_def bindR_Inr_iff split: if_splits)

text \<open>The loop ends in \<open>NPC_END\<close> only at an \<open>ebreak\<close>, and only when all earlier comparisons succeeded.\<close>

lemma cpu_loop_end:
  assumes "cpu_loop E n s = Inr t" "cpu_state t = NPC_END" "cpu_state s = NPC_RUNNING" "\<not> difftest_error s"
  shows "\<exists>u v. lockstep E s u \<and> exec_once E u = Inr v \<and> is_ebreak v = 1 \<and> t = set_cpu_state NPC_END v"
  using assms
proof (induction n arbitrary: s)
  case 0
  then show ?case by (auto simp: npc_defs)
next
  case (Suc n)
  then obtain u where u: "exec_once E s = Inr u"
    and r: "(if is_ebreak u = 1 then Inr (set_cpu_state NPC_END u) else bindR (single_cycle E u) (cpu_loop E n)) = Inr t"
    by (auto simp: bindR_Inr_iff)
  show ?case
  proof (cases "is_ebreak u = 1")
    case True
    then show ?thesis using u r ls_stop [of E s] by auto
  next
    case False
    with r obtain v where v: "single_cycle E u = Inr v" "cpu_loop E n v = Inr t" by (auto simp: bindR_Inr_iff)
    have c: "cpu_state v = cpu_state u" "difftest_error v = difftest_error u"
      using single_cycle_ctl [OF v(1)] by (simp_all add: ctl_def)
    have "\<not> (compared E s \<and> \<not> regs_agree E u)"
    proof
      assume "compared E s \<and> \<not> regs_agree E u"
      then have "difftest_error v" "cpu_state v = NPC_ABORT" using exec_once_cases [OF u] c by auto
      with v(2) Suc.prems(2) show False by (auto simp: cpu_loop_stopped npc_defs)
    qed
    moreover from this have "cpu_state v = NPC_RUNNING" "\<not> difftest_error v"
      using exec_once_cases [OF u] c Suc.prems(3,4) by (simp_all split: if_splits)
    ultimately show ?thesis using Suc.IH [OF v(2) Suc.prems(2)] ls_step [OF u _ False v(1)] by blast
  qed
qed

text \<open>
  C5. What an exit status of 0 of the simulator means in batch mode with an image: the program ran to an \<open>ebreak\<close>
  with 0 in register \<open>a0\<close>; from the state in which the session begins up to that last step, core and
  reference agreed whenever they were compared; and every monitor that is built in has accepted the run.
\<close>

theorem batch_exit_zero:
  assumes "npc_main E L r0 env files can_open libs below os ls = Some (Inr 0)"
    and "init_sim E L r0 env files can_open libs os = Inr (Some (a, lg, dis, d))" "img_file a = Some f" "is_batch a"
  shows "\<exists>t u v. cpu_exec E (- 1) (d_sim d) = Inr t \<and> cpu_state t = NPC_END \<and> v_gpr (vtop E) (top t) ! 10 = 0
    \<and> lockstep E (d_sim d) u \<and> exec_once E u = Inr v \<and> is_ebreak v = 1 \<and> top t = top v
    \<and> (ICACHE_64SET_MONITOR (bld E) \<longrightarrow> icache_64set_monitor_finalize E t = 0)
    \<and> (LOADUSE_P1_MONITOR (bld E) \<longrightarrow> loaduse_p1_monitor_finalize t = 0)
    \<and> (PERFORMANCE_MODEL (bld E) \<longrightarrow> fst (dependency_observer_finalize can_open (dep t) 0) = 0)"
proof -
  have run: "cpu_state (d_sim d) = NPC_RUNNING" "\<not> difftest_error (d_sim d)"
    using session_starts [OF assms(2,3)] by simp_all
  obtain t where t: "cpu_exec E (- 1) (d_sim d) = Inr t" "main_status E can_open t = Inr 0"
    using assms(1,2,4) by (auto simp: npc_main_def sdb_mainloop_def cmd_c_def bindO_Inr_iff on_sim_Inr_iff)
  obtain w where w: "cpu_loop E (unat (- 1 :: u32)) (d_sim d) = Inr w" "cpu_exec_end E w = Inr t"
    using t(1) by (auto simp: cpu_exec_running [OF run(1)] bindR_Inr_iff)
  have e: "cpu_state t = NPC_END" "v_gpr (vtop E) (top t) ! 10 = 0"
    using exit_zero_state cpu_exec_end_state [OF w(2)] main_status_zero [OF t(2)] by blast+
  obtain u v where "lockstep E (d_sim d) u" "exec_once E u = Inr v" "is_ebreak v = 1" "w = set_cpu_state NPC_END v"
    using cpu_loop_end [OF w(1) _ run] cpu_exec_end_state [OF w(2)] e(1) by blast
  moreover from this have "top t = top v" using cpu_exec_end_frame [OF w(2)] by (simp add: set_cpu_state_def)
  ultimately show ?thesis using t(1) e main_status_zero [OF t(2)] by blast
qed

lemma small_ebreak:
  assumes "cpu_state s = NPC_RUNNING" "\<not> difftest_error s" "wb_num s = 0" "is_ebreak s = 1" "gpr_ptr s"
  shows "\<exists>t. cpu_exec (small_env 0) (- 1) s = Inr t \<and> main_status (small_env 0) can_open t = Inr 0"
proof -
  let ?u = "s\<lparr>wb_pc_now := 0x80000000, wb_num := 1\<rparr>"
  obtain k where k: "unat (- 1 :: u32) = Suc k" by (rule unat_Suc [of "- 1 :: u32"]) (simp_all add: word_gt_0)
  have u: "exec_once (small_env 0) s = Inr ?u" using assms(3) by (simp add: exec_once_def on_def outputs_def small_defs)
  have g: "cpu_gpr (small_env 0) ?u = Inr (replicate 33 0)" using assms(5) by (simp add: cpu_gpr_def small_defs)
  let ?t = "add_log (L_end True 0x80000000) (set_cpu_state NPC_END ?u)"
  have "cpu_loop (small_env 0) (Suc k) s = Inr (set_cpu_state NPC_END ?u)" using assms(2,4) u by simp
  then have "cpu_exec (small_env 0) (- 1) s = Inr ?t"
    unfolding cpu_exec_running [OF assms(1)] k using cpu_exec_end_trap [OF g] by simp
  moreover have "main_status (small_env 0) can_open ?t = Inr 0"
    using assms(5)
    by (simp add: main_status_def is_exit_status_bad_def set_cpu_state_def add_log_def cpu_gpr_def small_defs Let_def)
  ultimately show ?thesis by blast
qed

theorem batch_exit_zero_witness:
  "\<exists>d t u. init_sim (small_env 0) nop_llvm (replicate 33 0) (\<lambda>_. None) (\<lambda>_. Some [0x13, 0, 0, 0]) (\<lambda>_. True)
       (\<lambda>_. Some (replicate 33 0)) boot_opts = Inr (Some d)
     \<and> npc_main (small_env 0) nop_llvm (replicate 33 0) (\<lambda>_. None) (\<lambda>_. Some [0x13, 0, 0, 0]) (\<lambda>_. True)
       (\<lambda>_. Some (replicate 33 0)) CHR ''x'' boot_opts [] = Some (Inr 0)
     \<and> cpu_exec (small_env 0) (- 1) (d_sim (snd (snd (snd d)))) = Inr t \<and> cpu_state t = NPC_END
     \<and> lockstep (small_env 0) (d_sim (snd (snd (snd d)))) u"
proof -
  obtain a lg dis d where b: "init_sim (small_env 0) nop_llvm (replicate 33 0) (\<lambda>_. None) (\<lambda>_. Some [0x13, 0, 0, 0]) (\<lambda>_. True)
       (\<lambda>_. Some (replicate 33 0)) boot_opts = Inr (Some (a, lg, dis, d))" "img_file a = Some ''a.bin''" "is_batch a"
      and e: "is_ebreak (d_sim d) = 1"
    using small_boot [of 0] by auto
  have "cpu_state (d_sim d) = NPC_RUNNING" "\<not> difftest_error (d_sim d)" "wb_num (d_sim d) = 0" "gpr_ptr (d_sim d)"
    using session_starts [OF b(1,2)] by simp_all
  then obtain t where "cpu_exec (small_env 0) (- 1) (d_sim d) = Inr t" "main_status (small_env 0) (\<lambda>_. True) t = Inr 0"
    using small_ebreak [of "d_sim d" "\<lambda>_. True"] e by blast
  then have m: "npc_main (small_env 0) nop_llvm (replicate 33 0) (\<lambda>_. None) (\<lambda>_. Some [0x13, 0, 0, 0]) (\<lambda>_. True)
       (\<lambda>_. Some (replicate 33 0)) CHR ''x'' boot_opts [] = Some (Inr 0)"
    using b(1,3) by (simp add: npc_main_def sdb_mainloop_def cmd_c_def on_sim_def)
  obtain t u where "cpu_exec (small_env 0) (- 1) (d_sim d) = Inr t" "cpu_state t = NPC_END" "lockstep (small_env 0) (d_sim d) u" using batch_exit_zero [OF m b] by blast
  then show ?thesis using b(1) m by (intro exI [of _ "(a, lg, dis, d)"] exI [of _ t] exI [of _ u]) simp
qed

section \<open>Every session returns\<close>

text \<open>The pool of watchpoints is two chains, and a command comes back with such a pool or with a fault.\<close>

definition wp_inv :: "('v, 'r) dbg \<Rightarrow> bool" where
  "wp_inv d \<longleftrightarrow> (\<exists>A F. wp_abs (d_wp d) A F)"

definition returns :: "('v, 'r) dbg run \<Rightarrow> bool" where
  "returns m \<longleftrightarrow> (\<exists>r. m = Some r \<and> (\<forall>d. r = Inr d \<longrightarrow> wp_inv d))"

lemma returns_simps [simp]: "returns (Some (Inl e))" "returns (Some (Inr d)) \<longleftrightarrow> wp_inv d"
  by (simp_all add: returns_def)

lemma wp_invI: "wp_abs (d_wp d) A F \<Longrightarrow> wp_inv d"
  by (auto simp: wp_inv_def)

lemma wp_inv_simps [simp]:
  "wp_inv (say t d) = wp_inv d" "wp_inv (d\<lparr>d_sim := s\<rparr>) = wp_inv d" "wp_inv (d\<lparr>d_out := l\<rparr>) = wp_inv d"
  by (simp_all add: wp_inv_def say_def)

lemma returns_on_sim [simp]: "wp_inv d \<Longrightarrow> returns (on_sim f d)"
  by (cases "f (d_sim d)") (simp_all add: on_sim_def)

lemma returns_bind:
  assumes "m \<noteq> None" "\<And>x. m = Some (Inr x) \<Longrightarrow> returns (f x)"
  shows "returns (bindO m f)"
proof -
  obtain r where r: "m = Some r" using assms(1) by blast
  then show ?thesis using assms(2) by (cases r) simp_all
qed

lemma find_wp_returns:
  "chain (wp_pool s) p xs \<Longrightarrow> \<exists>r. find_wp s a p = Some r \<and> (\<forall>w. r = Some w \<longrightarrow> w \<in> set xs)"
proof (induction xs arbitrary: p)
  case Nil
  then show ?case by (subst find_wp.simps) simp
next
  case (Cons x xs)
  have "chain (wp_pool s) (wp_next (node s x)) xs" "p = Some x" using Cons.prems by (simp_all add: node_def)
  with Cons.IH [of "wp_next (node s x)"] show ?case by (subst find_wp.simps) auto
qed

lemma cmd_info_returns: "wp_inv d \<Longrightarrow> returns (cmd_info E rest d)"
proof -
  assume d: "wp_inv d"
  then obtain A where "chain (wp_pool (d_wp d)) (wp_head (d_wp d)) A" by (auto simp: wp_inv_def wp_abs_def)
  from wp_lines_chain [OF this] d show ?thesis by (auto simp: cmd_info_def split: option.splits)
qed

lemma cmd_w_returns: "wp_inv d \<Longrightarrow> returns (cmd_w E below rest d)"
proof -
  assume "wp_inv d"
  then obtain A F where w: "wp_abs (d_wp d) A F" by (auto simp: wp_inv_def)
  have run: "run_expr E below e d' \<noteq> None" for e d' by (simp add: run_expr_def)
  show ?thesis
  proof (cases "strtok_rest rest")
    case None
    then show ?thesis using \<open>wp_inv d\<close> by (simp add: cmd_w_def)
  next
    case (Some e)
    show ?thesis unfolding cmd_w_def Some option.case
    proof (rule returns_bind, goal_cases)
      case (2 x)
      obtain p v where x: "x = (p, v)" by fastforce
      with 2 obtain F' where v: "wp_abs v (p # A) F'" using wps.new_conserves [OF w] by auto
      show ?case unfolding x prod.case
        by (rule returns_bind [OF run])
           (use v in \<open>auto dest!: run_expr_sim intro!: wp_invI [where A = "p # A" and F = F'] simp: say_def\<close>)
    qed simp
  qed
qed

lemma cmd_d_returns: "wp_inv d \<Longrightarrow> returns (cmd_d rest d)"
proof -
  assume "wp_inv d"
  then obtain A F where w: "wp_abs (d_wp d) A F" by (auto simp: wp_inv_def)
  have free: "\<exists>r. free_wp p (d_wp d) = Some r \<and> (\<forall>v. r = Inr v \<longrightarrow> (\<exists>A F. wp_abs v A F))" if "p \<in> set A" for p
    using wps.free_Cons [of "d_wp d" A _ _ p] wps.free_Nil [of "d_wp d" A p] w that by (cases F) fastforce+
  show ?thesis
  proof (cases "strtok_rest rest")
    case None
    then show ?thesis by (simp add: cmd_d_def)
  next
    case (Some e)
    obtain q where q: "find_wp (d_wp d) (atoi e) (wp_head (d_wp d)) = Some q" "\<forall>p. q = Some p \<longrightarrow> p \<in> set A"
      using find_wp_returns [of "d_wp d" "wp_head (d_wp d)" A "atoi e"] w by (auto simp: wp_abs_def)
    show ?thesis
    proof (cases q)
      case None
      then show ?thesis using q(1) Some \<open>wp_inv d\<close> by (simp add: cmd_d_def)
    next
      case p: (Some p)
      with q(2) free obtain r where r: "free_wp p (d_wp d) = Some r" "\<forall>v. r = Inr v \<longrightarrow> (\<exists>A F. wp_abs v A F)" by blast
      have "cmd_d rest d = bindO (Some r) (\<lambda>w. Some (Inr (d\<lparr>d_wp := w\<rparr>)))" using q(1) p Some r(1) by (simp add: cmd_d_def)
      then show ?thesis using r(2) by (cases r) (simp_all add: wp_inv_def)
    qed
  qed
qed

lemma quiet_returns:
  "wp_inv d \<Longrightarrow> returns (cmd_help rest d)" "wp_inv d \<Longrightarrow> returns (cmd_si E rest d)" "wp_inv d \<Longrightarrow> returns (cmd_c E d)"
  "wp_inv d \<Longrightarrow> returns (cmd_q E d)"
  by (auto simp: cmd_help_def cmd_si_def cmd_c_def cmd_q_def split: option.splits)

lemma cmd_x_returns: "wp_inv d \<Longrightarrow> returns (cmd_x rest d)"
proof -
  assume d: "wp_inv d"
  have "returns (Some (map_sum id (\<lambda>ls. d\<lparr>d_out := d_out d @ ls\<rparr>) m))" for m using d by (cases m) simp_all
  then show ?thesis using d by (auto simp: cmd_x_def Let_def split_def split: option.split)
qed

lemma cmd_p_returns: "wp_inv d \<Longrightarrow> returns (cmd_p E below rest d)"
proof -
  assume d: "wp_inv d"
  have run: "run_expr E below e d \<noteq> None" for e by (simp add: run_expr_def)
  have "wp_inv d'" if "run_expr E below e d = Some (Inr (r, d'))" for e r d'
    using run_expr_sim [OF that] d by (simp add: wp_inv_def)
  then show ?thesis using d by (auto simp: cmd_p_def intro!: returns_bind run split: option.split)
qed

lemma run_cmd_returns: "wp_inv d \<Longrightarrow> returns (run_cmd E below cmd rest d)"
  by (simp add: run_cmd_def quiet_returns cmd_x_returns cmd_p_returns cmd_info_returns cmd_w_returns cmd_d_returns)

lemma sdb_loop_returns: "wp_inv d \<Longrightarrow> returns (sdb_loop E below ls d)"
proof (induction ls arbitrary: d)
  case (Cons line ls)
  obtain c rest where c: "strtok CHR '' '' line = (c, rest)" by fastforce
  show ?case
  proof (cases c)
    case None
    then show ?thesis using Cons c by simp
  next
    case (Some cmd)
    obtain r where r: "run_cmd E below cmd rest d = Some r" "\<forall>d'. r = Inr d' \<longrightarrow> wp_inv d'"
      using run_cmd_returns [OF Cons.prems, of E below cmd rest] by (auto simp: returns_def)
    then show ?thesis using Cons.IH c Some by (cases r) simp_all
  qed
qed simp

lemma init_sim_pool: "init_sim E L r0 env files can_open libs os = Inr (Some (a, lg, dis, d)) \<Longrightarrow> wp_inv d"
  using init_wp_abs
  by (intro wp_invI [where A = "[]" and F = "[0..<32]"])
     (auto simp: init_sim_def init_monitor_def init_sdb_def bindR_Inr_iff Let_def split: option.splits)

text \<open>
  C17. The simulator comes back from every session: whatever the core, the reference, the files, the options and the
  lines typed are, none of the walks along the lists of watchpoints runs forever, so that the main program
  ends with a status or stops at a fault.
\<close>

theorem main_returns: "\<exists>r. npc_main E L r0 env files can_open libs below os ls = Some r"
proof (cases "init_sim E L r0 env files can_open libs os")
  case (Inr q)
  show ?thesis
  proof (cases q)
    case (Some st)
    obtain a lg dis d where st: "st = (a, lg, dis, d)" by (metis prod.exhaust)
    have "returns (sdb_mainloop E below (is_batch a) ls d)"
      using init_sim_pool [of E L r0 env files can_open libs os a lg dis d] Inr Some st
      by (simp add: sdb_mainloop_def quiet_returns sdb_loop_returns)
    then obtain r where "sdb_mainloop E below (is_batch a) ls d = Some r" by (auto simp: returns_def)
    then show ?thesis using Inr Some st by (cases r) (simp_all add: npc_main_def)
  qed (simp add: npc_main_def Inr)
qed (simp add: npc_main_def)

end
