(* ===== verification/Cache_Observer.thy ===== *)
theory Cache_Observer
  imports Roi
begin

text \<open>
  The cache observer (\<open>src/models/cache/monitor/cache_observer.cpp\<close>, \<open>.h\<close>): counters of the
  instruction and data cache, an exclusive attribution of every cycle to one cause, and a trace of
  the data cache accesses. The counters wrap at 64 bits. Writing a file is modelled by the text
  written; whether \<open>fopen\<close> succeeds is the parameter \<open>can_open\<close>.
\<close>

section \<open>State\<close>

record Counts =
  k_cycles :: u64
  k_writeback_observations :: u64
  k_icache_accesses :: u64
  k_icache_hits :: u64
  k_icache_misses :: u64
  k_icache_refill_starts :: u64
  k_icache_refill_completions :: u64
  k_icache_miss_stall_cycles :: u64
  k_icache_total_stall_cycles :: u64
  k_dcache_accesses :: u64
  k_dcache_load_accesses :: u64
  k_dcache_store_accesses :: u64
  k_dcache_hits :: u64
  k_dcache_misses :: u64
  k_dcache_load_hits :: u64
  k_dcache_load_misses :: u64
  k_dcache_store_hits :: u64
  k_dcache_store_misses :: u64
  k_dcache_refill_starts :: u64
  k_dcache_refill_completions :: u64
  k_dcache_dirty_evictions :: u64
  k_dcache_writeback_starts :: u64
  k_dcache_writeback_completions :: u64
  k_dcache_miss_stall_cycles :: u64
  k_dcache_writeback_stall_cycles :: u64
  k_dcache_total_stall_cycles :: u64
  k_exclusive_dcache_cycles :: u64
  k_exclusive_divider_cycles :: u64
  k_exclusive_branch_cycles :: u64
  k_exclusive_dependency_cycles :: u64
  k_exclusive_icache_cycles :: u64
  k_exclusive_other_cycles :: u64

record CacheObserverSample =
  cs_icache_access :: u8
  cs_icache_hit :: u8
  cs_icache_miss :: u8
  cs_icache_refill_start :: u8
  cs_icache_refill_complete :: u8
  cs_icache_miss_stall :: u8
  cs_icache_total_stall :: u8
  cs_dcache_access :: u8
  cs_dcache_load_access :: u8
  cs_dcache_store_access :: u8
  cs_dcache_hit :: u8
  cs_dcache_miss :: u8
  cs_dcache_refill_start :: u8
  cs_dcache_refill_complete :: u8
  cs_dcache_dirty_eviction :: u8
  cs_dcache_writeback_start :: u8
  cs_dcache_writeback_complete :: u8
  cs_dcache_miss_stall :: u8
  cs_dcache_writeback_stall :: u8
  cs_dcache_total_stall :: u8
  cs_dcache_address :: u32
  cs_dcache_wmask :: u8
  cs_branch_recovery :: u8
  cs_dependency :: u8
  cs_divider :: u8

record cache_state =
  cache_output_path :: "string option"
  cache_trace_path :: "string option"
  cache_trace_file :: "string option"
  cache_trace_open_failed :: bool
  cache_trace_sequence :: u64
  cache_trace_cycle :: u64
  cache_roi_requested :: bool
  cache_roi_active :: bool
  cache_roi_started :: bool
  cache_roi_ended :: bool
  cache_roi_start_pc :: u64
  cache_roi_end_pc :: u64
  cache_counts :: Counts

definition counts_zero :: Counts where
  "counts_zero = \<lparr>k_cycles = 0, k_writeback_observations = 0, k_icache_accesses = 0, k_icache_hits = 0,
     k_icache_misses = 0, k_icache_refill_starts = 0, k_icache_refill_completions = 0,
     k_icache_miss_stall_cycles = 0, k_icache_total_stall_cycles = 0, k_dcache_accesses = 0,
     k_dcache_load_accesses = 0, k_dcache_store_accesses = 0, k_dcache_hits = 0, k_dcache_misses = 0,
     k_dcache_load_hits = 0, k_dcache_load_misses = 0, k_dcache_store_hits = 0, k_dcache_store_misses = 0,
     k_dcache_refill_starts = 0, k_dcache_refill_completions = 0, k_dcache_dirty_evictions = 0,
     k_dcache_writeback_starts = 0, k_dcache_writeback_completions = 0, k_dcache_miss_stall_cycles = 0,
     k_dcache_writeback_stall_cycles = 0, k_dcache_total_stall_cycles = 0,
     k_exclusive_dcache_cycles = 0, k_exclusive_divider_cycles = 0, k_exclusive_branch_cycles = 0,
     k_exclusive_dependency_cycles = 0, k_exclusive_icache_cycles = 0, k_exclusive_other_cycles = 0\<rparr>"

definition cache_state_init :: cache_state where
  "cache_state_init = \<lparr>cache_output_path = None, cache_trace_path = None, cache_trace_file = None,
     cache_trace_open_failed = False, cache_trace_sequence = 0, cache_trace_cycle = 0,
     cache_roi_requested = False, cache_roi_active = False, cache_roi_started = False,
     cache_roi_ended = False, cache_roi_start_pc = 0, cache_roi_end_pc = 0,
     cache_counts = counts_zero\<rparr>"

section \<open>Operations\<close>

definition cache_collecting :: "cache_state \<Rightarrow> bool" where
  "cache_collecting s \<longleftrightarrow> cache_output_path s \<noteq> None \<and> (\<not> cache_roi_requested s \<or> cache_roi_active s)"

definition trace_header :: string where
  "trace_header = ''sequence_number,simulation_cycle,phase,address,operation,wmask,'' @
     ''rtl_hit,rtl_miss,rtl_dirty_eviction'' @ nl"

text \<open>\<open>cache_trace_file\<close> is the text written so far to an open trace file.\<close>

definition cache_observer_init :: "environ \<Rightarrow> (string \<Rightarrow> bool) \<Rightarrow> cache_state \<Rightarrow> cache_state" where
  "cache_observer_init env can_open s0 =
     (let out = env ''CACHE_PROFILE_OUT''; tr = env ''DCACHE_TRACE_OUT'';
          (has_start, a) = cache_parse_u64_env env ''PERF_ROI_START_PC'' (cache_roi_start_pc s0);
          (has_end, z) = cache_parse_u64_env env ''PERF_ROI_END_PC'' (cache_roi_end_pc s0);
          requested = (has_start \<or> has_end);
          bad = (out \<noteq> None \<and> (has_start \<noteq> has_end \<or> requested \<and> a = z));
          opened = (case tr of None \<Rightarrow> False | Some f \<Rightarrow> can_open f)
      in s0\<lparr>cache_output_path := (if bad then None else out), cache_trace_path := tr,
            cache_trace_file := (if opened then Some trace_header else None),
            cache_trace_open_failed := (tr \<noteq> None \<and> \<not> opened),
            cache_trace_sequence := 0, cache_trace_cycle := 0,
            cache_roi_requested := requested, cache_roi_active := \<not> requested,
            cache_roi_started := \<not> requested, cache_roi_ended := False,
            cache_roi_start_pc := a, cache_roi_end_pc := z, cache_counts := counts_zero\<rparr>)"

definition cache_observer_update_roi :: "bool \<Rightarrow> u64 \<Rightarrow> cache_state \<Rightarrow> cache_state" where
  "cache_observer_update_roi wb_sign wb_pc s =
     (if cache_output_path s = None \<or> \<not> cache_roi_requested s \<or> \<not> wb_sign then s
      else if \<not> cache_roi_started s \<and> wb_pc = cache_roi_start_pc s
      then s\<lparr>cache_counts := counts_zero, cache_roi_started := True, cache_roi_active := True\<rparr>
      else if cache_roi_active s \<and> wb_pc = cache_roi_end_pc s
      then s\<lparr>cache_roi_active := False, cache_roi_ended := True\<rparr>
      else s)"

definition cache_observer_cycle :: "cache_state \<Rightarrow> cache_state" where
  "cache_observer_cycle s0 =
     (let s = (if cache_trace_file s0 \<noteq> None \<and> \<not> cache_roi_ended s0
               then s0\<lparr>cache_trace_cycle := cache_trace_cycle s0 + 1\<rparr> else s0)
      in if cache_collecting s
         then s\<lparr>cache_counts := (cache_counts s)\<lparr>k_cycles := k_cycles (cache_counts s) + 1\<rparr>\<rparr> else s)"

definition trace_line :: "cache_state \<Rightarrow> CacheObserverSample \<Rightarrow> string" where
  "trace_line s x =
     llu (cache_trace_sequence s) @ '','' @ llu (cache_trace_cycle s) @ '','' @
     (if cache_roi_active s then ''ROI'' else ''PRE_ROI'') @ '',0x'' @
     hex_pad 8 (unat (cs_dcache_address x)) @ '','' @
     (if cs_dcache_store_access x \<noteq> 0 then ''STORE'' else ''LOAD'') @ '',0x'' @
     hex_pad 2 (unat (cs_dcache_wmask x)) @ '','' @ dec (unat (cs_dcache_hit x)) @ '','' @
     dec (unat (cs_dcache_miss x)) @ '','' @ dec (unat (cs_dcache_dirty_eviction x)) @ nl"

definition count_sample :: "CacheObserverSample \<Rightarrow> Counts \<Rightarrow> Counts" where
  "count_sample x c = c\<lparr>
     k_icache_accesses := k_icache_accesses c + ucast (cs_icache_access x),
     k_icache_hits := k_icache_hits c + ucast (cs_icache_hit x),
     k_icache_misses := k_icache_misses c + ucast (cs_icache_miss x),
     k_icache_refill_starts := k_icache_refill_starts c + ucast (cs_icache_refill_start x),
     k_icache_refill_completions := k_icache_refill_completions c + ucast (cs_icache_refill_complete x),
     k_icache_miss_stall_cycles := k_icache_miss_stall_cycles c + ucast (cs_icache_miss_stall x),
     k_icache_total_stall_cycles := k_icache_total_stall_cycles c + ucast (cs_icache_total_stall x),
     k_dcache_accesses := k_dcache_accesses c + ucast (cs_dcache_access x),
     k_dcache_load_accesses := k_dcache_load_accesses c + ucast (cs_dcache_load_access x),
     k_dcache_store_accesses := k_dcache_store_accesses c + ucast (cs_dcache_store_access x),
     k_dcache_hits := k_dcache_hits c + ucast (cs_dcache_hit x),
     k_dcache_misses := k_dcache_misses c + ucast (cs_dcache_miss x),
     k_dcache_load_hits := k_dcache_load_hits c + b2w (cs_dcache_hit x \<noteq> 0 \<and> cs_dcache_load_access x \<noteq> 0),
     k_dcache_load_misses := k_dcache_load_misses c + b2w (cs_dcache_miss x \<noteq> 0 \<and> cs_dcache_load_access x \<noteq> 0),
     k_dcache_store_hits := k_dcache_store_hits c + b2w (cs_dcache_hit x \<noteq> 0 \<and> cs_dcache_store_access x \<noteq> 0),
     k_dcache_store_misses := k_dcache_store_misses c + b2w (cs_dcache_miss x \<noteq> 0 \<and> cs_dcache_store_access x \<noteq> 0),
     k_dcache_refill_starts := k_dcache_refill_starts c + ucast (cs_dcache_refill_start x),
     k_dcache_refill_completions := k_dcache_refill_completions c + ucast (cs_dcache_refill_complete x),
     k_dcache_dirty_evictions := k_dcache_dirty_evictions c + ucast (cs_dcache_dirty_eviction x),
     k_dcache_writeback_starts := k_dcache_writeback_starts c + ucast (cs_dcache_writeback_start x),
     k_dcache_writeback_completions := k_dcache_writeback_completions c + ucast (cs_dcache_writeback_complete x),
     k_dcache_miss_stall_cycles := k_dcache_miss_stall_cycles c + ucast (cs_dcache_miss_stall x),
     k_dcache_writeback_stall_cycles := k_dcache_writeback_stall_cycles c + ucast (cs_dcache_writeback_stall x),
     k_dcache_total_stall_cycles := k_dcache_total_stall_cycles c + ucast (cs_dcache_total_stall x)\<rparr>"

definition count_exclusive :: "CacheObserverSample \<Rightarrow> Counts \<Rightarrow> Counts" where
  "count_exclusive x c =
     (if cs_dcache_total_stall x \<noteq> 0
      then c\<lparr>k_exclusive_dcache_cycles := k_exclusive_dcache_cycles c + 1\<rparr>
      else if cs_divider x \<noteq> 0
      then c\<lparr>k_exclusive_divider_cycles := k_exclusive_divider_cycles c + 1\<rparr>
      else if cs_branch_recovery x \<noteq> 0
      then c\<lparr>k_exclusive_branch_cycles := k_exclusive_branch_cycles c + 1\<rparr>
      else if cs_dependency x \<noteq> 0
      then c\<lparr>k_exclusive_dependency_cycles := k_exclusive_dependency_cycles c + 1\<rparr>
      else if cs_icache_total_stall x \<noteq> 0
      then c\<lparr>k_exclusive_icache_cycles := k_exclusive_icache_cycles c + 1\<rparr>
      else c\<lparr>k_exclusive_other_cycles := k_exclusive_other_cycles c + 1\<rparr>)"

definition cache_observer_sample :: "CacheObserverSample \<Rightarrow> cache_state \<Rightarrow> cache_state" where
  "cache_observer_sample x s0 =
     (let s = (case cache_trace_file s0 of
                 Some txt \<Rightarrow>
                   if \<not> cache_roi_ended s0 \<and> cs_dcache_access x \<noteq> 0
                   then s0\<lparr>cache_trace_file := Some (txt @ trace_line s0 x),
                           cache_trace_sequence := cache_trace_sequence s0 + 1\<rparr>
                   else s0
               | None \<Rightarrow> s0)
      in if \<not> cache_collecting s then s
         else s\<lparr>cache_counts := count_exclusive x (count_sample x (cache_counts s))\<rparr>)"

definition cache_observer_sample_writeback :: "bool \<Rightarrow> u64 \<Rightarrow> cache_state \<Rightarrow> cache_state" where
  "cache_observer_sample_writeback wb_sign wb_pc s =
     (if \<not> cache_collecting s \<or> \<not> wb_sign then s
      else if cache_roi_requested s \<and> (wb_pc = cache_roi_start_pc s \<or> wb_pc = cache_roi_end_pc s) then s
      else s\<lparr>cache_counts := (cache_counts s)\<lparr>k_writeback_observations :=
               k_writeback_observations (cache_counts s) + 1\<rparr>\<rparr>)"

section \<open>The report\<close>

definition exclusive_sum :: "Counts \<Rightarrow> u64" where
  "exclusive_sum c = k_exclusive_dcache_cycles c + k_exclusive_divider_cycles c +
     k_exclusive_branch_cycles c + k_exclusive_dependency_cycles c + k_exclusive_icache_cycles c +
     k_exclusive_other_cycles c"

definition cache_roi_valid :: "cache_state \<Rightarrow> bool" where
  "cache_roi_valid s \<longleftrightarrow> \<not> cache_roi_requested s \<or> cache_roi_started s \<and> cache_roi_ended s"

definition counter_invariants :: "Counts \<Rightarrow> bool" where
  "counter_invariants c \<longleftrightarrow>
     k_icache_accesses c = k_icache_hits c + k_icache_misses c \<and>
     k_dcache_accesses c = k_dcache_load_accesses c + k_dcache_store_accesses c \<and>
     k_dcache_accesses c = k_dcache_hits c + k_dcache_misses c \<and>
     k_dcache_load_accesses c = k_dcache_load_hits c + k_dcache_load_misses c \<and>
     k_dcache_store_accesses c = k_dcache_store_hits c + k_dcache_store_misses c \<and>
     exclusive_sum c = k_cycles c"

definition cache_report :: "cache_state \<Rightarrow> int \<Rightarrow> string" where
  "cache_report s exit_status =
     (let c = cache_counts s in
      ''{'' @ nl @ ''  '' @ quoted ''schema_version'' @ '': '' @ quoted ''a2-cache-c0-v1'' @ '','' @ nl @
      ''  '' @ quoted ''roi_valid'' @ '': '' @ bool_text (cache_roi_valid s) @ '','' @ nl @
      ''  '' @ quoted ''retirement_status'' @ '': '' @ quoted ''NOT_QUALIFIED_PARTIAL_WB_EVENT'' @ '','' @ nl @
      num_field ''roi_cycles'' (k_cycles c) @
      num_field ''writeback_observations'' (k_writeback_observations c) @
      num_field ''icache_accesses'' (k_icache_accesses c) @
      num_field ''icache_hits'' (k_icache_hits c) @
      num_field ''icache_misses'' (k_icache_misses c) @
      num_field ''icache_miss_allocated_in_roi'' (k_icache_misses c) @
      num_field ''icache_refill_started_in_roi'' (k_icache_refill_starts c) @
      num_field ''icache_refill_completed_in_roi'' (k_icache_refill_completions c) @
      num_field ''icache_miss_stall_cycles'' (k_icache_miss_stall_cycles c) @
      num_field ''icache_total_stall_cycles'' (k_icache_total_stall_cycles c) @
      num_field ''dcache_accesses'' (k_dcache_accesses c) @
      num_field ''dcache_load_accesses'' (k_dcache_load_accesses c) @
      num_field ''dcache_store_accesses'' (k_dcache_store_accesses c) @
      num_field ''dcache_hits'' (k_dcache_hits c) @
      num_field ''dcache_misses'' (k_dcache_misses c) @
      num_field ''dcache_load_hits'' (k_dcache_load_hits c) @
      num_field ''dcache_load_misses'' (k_dcache_load_misses c) @
      num_field ''dcache_store_hits'' (k_dcache_store_hits c) @
      num_field ''dcache_store_misses'' (k_dcache_store_misses c) @
      num_field ''dcache_miss_allocated_in_roi'' (k_dcache_misses c) @
      num_field ''dcache_refill_started_in_roi'' (k_dcache_refill_starts c) @
      num_field ''dcache_refill_completed_in_roi'' (k_dcache_refill_completions c) @
      num_field ''dcache_dirty_evictions'' (k_dcache_dirty_evictions c) @
      num_field ''dcache_writeback_started_in_roi'' (k_dcache_writeback_starts c) @
      num_field ''dcache_writeback_completed_in_roi'' (k_dcache_writeback_completions c) @
      num_field ''dcache_miss_stall_cycles'' (k_dcache_miss_stall_cycles c) @
      num_field ''dcache_writeback_stall_cycles'' (k_dcache_writeback_stall_cycles c) @
      num_field ''dcache_total_stall_cycles'' (k_dcache_total_stall_cycles c) @
      num_field ''exclusive_dcache_cycles'' (k_exclusive_dcache_cycles c) @
      num_field ''exclusive_divider_cycles'' (k_exclusive_divider_cycles c) @
      num_field ''exclusive_branch_cycles'' (k_exclusive_branch_cycles c) @
      num_field ''exclusive_dependency_cycles'' (k_exclusive_dependency_cycles c) @
      num_field ''exclusive_icache_cycles'' (k_exclusive_icache_cycles c) @
      num_field ''exclusive_other_cycles'' (k_exclusive_other_cycles c) @
      num_field ''exclusive_cycle_sum'' (exclusive_sum c) @
      ''  '' @ quoted ''counter_invariants_pass'' @ '': '' @ bool_text (counter_invariants c) @ '','' @ nl @
      ''  '' @ quoted ''exit_status'' @ '': '' @ int_text exit_status @ nl @ ''}'' @ nl)"

text \<open>The result is the returned status, the report if one is written, and the state (trace closed).\<close>

definition cache_observer_finalize ::
    "(string \<Rightarrow> bool) \<Rightarrow> cache_state \<Rightarrow> int \<Rightarrow> int \<times> string option \<times> cache_state" where
  "cache_observer_finalize can_open s0 exit_status =
     (let s = s0\<lparr>cache_trace_file := None\<rparr> in
      case cache_output_path s of
        None \<Rightarrow> (if cache_trace_open_failed s then 1 else 0, None, s)
      | Some path \<Rightarrow>
          if \<not> can_open path then (1, None, s)
          else (if cache_roi_valid s \<and> counter_invariants (cache_counts s) \<and> \<not> cache_trace_open_failed s
                then 0 else 1, Some (cache_report s exit_status), s))"

section \<open>The window of interest\<close>

text \<open>
  The events a driver produces: one clock cycle, which calls \<open>cache_observer_cycle\<close> and then
  \<open>cache_observer_sample\<close>, so that every counted cycle has one sample, and the observation of a write-back.
\<close>

datatype cache_event = C_tick CacheObserverSample | C_writeback bool u64

fun cache_own :: "cache_event \<Rightarrow> cache_state \<Rightarrow> cache_state res" where
  "cache_own (C_tick x) s = Inr (cache_observer_sample x (cache_observer_cycle s))"
| "cache_own (C_writeback w pc) s = Inr (cache_observer_sample_writeback w pc s)"

definition cache_enabled :: "cache_state \<Rightarrow> bool" where
  "cache_enabled s \<longleftrightarrow> cache_output_path s \<noteq> None"

definition cache_flags :: "cache_state \<Rightarrow> bool \<times> bool \<times> bool" where
  "cache_flags s = (cache_roi_active s, cache_roi_started s, cache_roi_ended s)"

definition cache_markers :: "cache_state \<Rightarrow> u64 \<times> u64" where
  "cache_markers s = (cache_roi_start_pc s, cache_roi_end_pc s)"

text \<open>The part of the state that only \<open>cache_observer_update_roi\<close> changes.\<close>

definition cache_control :: "cache_state \<Rightarrow> string option \<times> bool \<times> bool \<times> (bool \<times> bool \<times> bool) \<times> (u64 \<times> u64)" where
  "cache_control s = (cache_output_path s, cache_trace_open_failed s, cache_roi_requested s, cache_flags s, cache_markers s)"

lemmas cache_control_defs = cache_control_def cache_flags_def cache_markers_def

lemma cycle_control: "cache_control (cache_observer_cycle s) = cache_control s"
  by (simp add: cache_observer_cycle_def cache_control_defs Let_def)

lemma sample_control: "cache_control (cache_observer_sample x s) = cache_control s"
  by (simp add: cache_observer_sample_def cache_control_defs Let_def split: option.split)

lemma writeback_control: "cache_control (cache_observer_sample_writeback w pc s) = cache_control s"
  by (simp add: cache_observer_sample_writeback_def cache_control_defs)

lemma cache_own_control: "cache_own e s = Inr t \<Longrightarrow> cache_control t = cache_control s"
  using sample_control cycle_control writeback_control by (cases e) auto

lemma cache_collecting_control: "cache_control t = cache_control s \<Longrightarrow> cache_collecting t = cache_collecting s"
  by (simp add: cache_collecting_def cache_control_defs)

interpretation cacheo: roi_observer cache_enabled cache_roi_requested cache_flags cache_markers
  cache_observer_update_roi cache_own
proof unfold_locales
  fix e s t
  assume "cache_own e s = Inr t"
  from cache_own_control [OF this]
  show "cache_enabled t = cache_enabled s \<and> cache_roi_requested t = cache_roi_requested s
     \<and> cache_markers t = cache_markers s \<and> cache_flags t = cache_flags s"
    by (simp add: cache_control_def cache_enabled_def)
qed (auto simp: cache_observer_update_roi_def cache_flags_def cache_markers_def cache_enabled_def phase_flags_def)

section \<open>Counters\<close>

text \<open>A sample of well-behaved caches: event bits, each access a hit or a miss, a load or a store.\<close>

definition sample_ok :: "CacheObserverSample \<Rightarrow> bool" where
  "sample_ok x \<longleftrightarrow>
     {cs_icache_access x, cs_dcache_access x} \<subseteq> {0, 1} \<and>
     (cs_icache_hit x, cs_icache_miss x) \<in> (if cs_icache_access x = 0 then {(0, 0)} else {(1, 0), (0, 1)}) \<and>
     (cs_dcache_hit x, cs_dcache_miss x) \<in> (if cs_dcache_access x = 0 then {(0, 0)} else {(1, 0), (0, 1)}) \<and>
     (cs_dcache_load_access x, cs_dcache_store_access x)
       \<in> (if cs_dcache_access x = 0 then {(0, 0)} else {(1, 0), (0, 1)})"

definition access_balance :: "Counts \<Rightarrow> bool" where
  "access_balance c \<longleftrightarrow>
     k_icache_accesses c = k_icache_hits c + k_icache_misses c \<and>
     k_dcache_accesses c = k_dcache_load_accesses c + k_dcache_store_accesses c \<and>
     k_dcache_accesses c = k_dcache_hits c + k_dcache_misses c \<and>
     k_dcache_load_accesses c = k_dcache_load_hits c + k_dcache_load_misses c \<and>
     k_dcache_store_accesses c = k_dcache_store_hits c + k_dcache_store_misses c"

lemma counter_invariants_iff: "counter_invariants c \<longleftrightarrow> access_balance c \<and> exclusive_sum c = k_cycles c"
  by (auto simp: counter_invariants_def access_balance_def)

lemma counts_update_frame [simp]:
  "access_balance (c\<lparr>k_cycles := n\<rparr>) = access_balance c"
  "access_balance (c\<lparr>k_writeback_observations := n\<rparr>) = access_balance c"
  "exclusive_sum (c\<lparr>k_cycles := n\<rparr>) = exclusive_sum c"
  "exclusive_sum (c\<lparr>k_writeback_observations := n\<rparr>) = exclusive_sum c"
  by (simp_all add: access_balance_def exclusive_sum_def)

lemma count_exclusive_frame:
  "access_balance (count_exclusive x c) = access_balance c"
  "k_cycles (count_exclusive x c) = k_cycles c"
  "exclusive_sum (count_exclusive x c) = exclusive_sum c + 1"
  by (simp_all add: count_exclusive_def access_balance_def exclusive_sum_def)

lemma count_sample_frame:
  "k_cycles (count_sample x c) = k_cycles c"
  "exclusive_sum (count_sample x c) = exclusive_sum c"
  by (simp_all add: count_sample_def exclusive_sum_def)

lemma count_sample_balance:
  "sample_ok x \<Longrightarrow> access_balance c \<Longrightarrow> access_balance (count_sample x c)"
  by (auto simp: sample_ok_def access_balance_def count_sample_def split: if_splits)

lemma counts_after_tick:
  "cache_counts (cache_observer_sample x (cache_observer_cycle s)) =
     (if cache_collecting s
      then count_exclusive x (count_sample x ((cache_counts s)\<lparr>k_cycles := k_cycles (cache_counts s) + 1\<rparr>))
      else cache_counts s)"
proof -
  have "cache_collecting (cache_observer_cycle s) = cache_collecting s"
    by (rule cache_collecting_control [OF cycle_control])
  moreover have "cache_counts (cache_observer_cycle s) = (if cache_collecting s
      then (cache_counts s)\<lparr>k_cycles := k_cycles (cache_counts s) + 1\<rparr> else cache_counts s)"
    by (auto simp: cache_observer_cycle_def cache_collecting_def Let_def)
  ultimately show ?thesis
    by (auto simp: cache_observer_sample_def cache_collecting_def Let_def split: option.split)
qed

lemma tick_exclusive:
  "exclusive_sum (cache_counts s) = k_cycles (cache_counts s) \<Longrightarrow>
   exclusive_sum (cache_counts (cache_observer_sample x (cache_observer_cycle s)))
     = k_cycles (cache_counts (cache_observer_sample x (cache_observer_cycle s)))"
  by (simp add: counts_after_tick count_exclusive_frame count_sample_frame)

lemma tick_balance:
  "sample_ok x \<Longrightarrow> access_balance (cache_counts s) \<Longrightarrow>
   access_balance (cache_counts (cache_observer_sample x (cache_observer_cycle s)))"
  by (simp add: counts_after_tick count_exclusive_frame count_sample_balance)

text \<open>Every event keeps a property of the counters that write-backs, resets and ticks keep.\<close>

lemma cache_run_counts:
  assumes "run_events cache_observer_update_roi cache_own es s = Inr t" "P (cache_counts s)"
    and "\<And>x s. C_tick x \<in> {e. Own e \<in> set es} \<Longrightarrow> P (cache_counts s) \<Longrightarrow>
          P (cache_counts (cache_observer_sample x (cache_observer_cycle s)))"
    and "\<And>c n. P c \<Longrightarrow> P (c\<lparr>k_writeback_observations := n\<rparr>)" "P counts_zero"
  shows "P (cache_counts t)"
  using assms(1-3)
proof (induction es arbitrary: s)
  case (Cons e es)
  show ?case
  proof (cases e)
    case (Retire w pc)
    with Cons.prems assms(5) have "P (cache_counts (cache_observer_update_roi w pc s))"
      by (simp add: cache_observer_update_roi_def)
    with Retire Cons show ?thesis by auto
  next
    case (Own o')
    with Cons.prems assms(4) have "\<exists>u. cache_own o' s = Inr u \<and> P (cache_counts u)"
      by (cases o') (auto simp: cache_observer_sample_writeback_def)
    with Own Cons show ?thesis by auto
  qed
qed simp

lemma cache_run_total: "\<exists>t. run_events cache_observer_update_roi cache_own es s = Inr t"
proof (induction es arbitrary: s)
  case (Cons e es)
  show ?case
  proof (cases e)
    case (Own o')
    with Cons show ?thesis by (cases o') auto
  qed (use Cons in auto)
qed simp

lemma counts_zero_ok: "access_balance counts_zero" "exclusive_sum counts_zero = k_cycles counts_zero"
  by (simp_all add: access_balance_def exclusive_sum_def counts_zero_def)

lemma cache_init_counts: "cache_counts (cache_observer_init env can_open s0) = counts_zero"
  by (simp add: cache_observer_init_def Let_def split: prod.splits)

lemma cache_run_partition:
  assumes "run_events cache_observer_update_roi cache_own es (cache_observer_init env can_open s0) = Inr t"
  shows "exclusive_sum (cache_counts t) = k_cycles (cache_counts t)"
  by (rule cache_run_counts [where P = "\<lambda>c. exclusive_sum c = k_cycles c", OF assms])
     (simp_all add: cache_init_counts counts_zero_ok tick_exclusive)

lemma cache_run_balance:
  assumes "run_events cache_observer_update_roi cache_own es (cache_observer_init env can_open s0) = Inr t"
    and "\<forall>x. Own (C_tick x) \<in> set es \<longrightarrow> sample_ok x"
  shows "access_balance (cache_counts t)"
  by (rule cache_run_counts [where P = access_balance, OF assms(1)])
     (use assms(2) in \<open>simp_all add: cache_init_counts counts_zero_ok tick_balance\<close>)

lemma cache_run_open_failed:
  "run_events cache_observer_update_roi cache_own es s = Inr t \<Longrightarrow>
   cache_trace_open_failed t = cache_trace_open_failed s"
proof (induction es arbitrary: s)
  case (Cons e es)
  show ?case
  proof (cases e)
    case (Retire w pc)
    with Cons show ?thesis by (simp add: cache_observer_update_roi_def split: if_splits)
  next
    case (Own o')
    with Cons.prems obtain u where "cache_own o' s = Inr u" "run_events cache_observer_update_roi cache_own es u = Inr t"
      by (auto simp: bindR_Inr_iff)
    with Cons.IH cache_own_control [of o' s u] show ?thesis by (simp add: cache_control_def)
  qed
qed simp

section \<open>The trace\<close>

definition numbered :: "nat \<Rightarrow> string list \<Rightarrow> bool" where
  "numbered k lines \<longleftrightarrow> (\<forall>i<length lines. \<exists>rest. lines ! i = llu (of_nat (k + i)) @ '','' @ rest)"

definition trace_inv :: "cache_state \<Rightarrow> bool" where
  "trace_inv s \<longleftrightarrow> (\<forall>txt. cache_trace_file s = Some txt \<longrightarrow>
     (\<exists>lines. txt = trace_header @ concat lines \<and> cache_trace_sequence s = of_nat (length lines)
        \<and> numbered 0 lines))"

lemma trace_inv_frame:
  "cache_trace_file t = cache_trace_file s \<Longrightarrow> cache_trace_sequence t = cache_trace_sequence s \<Longrightarrow>
   trace_inv s \<Longrightarrow> trace_inv t"
  by (simp add: trace_inv_def)

lemma trace_line_number: "\<exists>rest. trace_line s x = llu (cache_trace_sequence s) @ '','' @ rest"
  by (simp add: trace_line_def)

lemma sample_trace_inv:
  assumes "trace_inv s"
  shows "trace_inv (cache_observer_sample x s)"
proof (cases "cache_trace_file s \<noteq> None \<and> \<not> cache_roi_ended s \<and> cs_dcache_access x \<noteq> 0")
  case False
  then show ?thesis
    by (intro trace_inv_frame [OF _ _ assms])
       (auto simp: cache_observer_sample_def Let_def split: option.splits)
next
  case True
  then obtain tx where f: "cache_trace_file s = Some tx" by blast
  with assms obtain ls where ls: "tx = trace_header @ concat ls" "cache_trace_sequence s = of_nat (length ls)"
    "numbered 0 ls" by (auto simp: trace_inv_def)
  let ?ls = "ls @ [trace_line s x]"
  have n: "numbered 0 ?ls"
    using ls(2,3) trace_line_number [of s x] by (auto simp: numbered_def nth_append less_Suc_eq)
  have t: "cache_trace_file (cache_observer_sample x s) = Some (trace_header @ concat ?ls)"
      "cache_trace_sequence (cache_observer_sample x s) = of_nat (length ?ls)"
    using True f ls by (auto simp: cache_observer_sample_def Let_def)
  show ?thesis unfolding trace_inv_def t using n by blast
qed

lemma tick_trace_open:
  "cache_trace_file s \<noteq> None \<Longrightarrow> cache_trace_file (cache_observer_sample x (cache_observer_cycle s)) \<noteq> None"
proof -
  assume "cache_trace_file s \<noteq> None"
  then have "cache_trace_file (cache_observer_cycle s) \<noteq> None" by (simp add: cache_observer_cycle_def Let_def)
  then show ?thesis by (auto simp: cache_observer_sample_def Let_def)
qed

lemma cache_own_trace_inv: "trace_inv s \<Longrightarrow> cache_own e s = Inr t \<Longrightarrow> trace_inv t"
proof (cases e)
  case (C_tick x)
  assume "trace_inv s" "cache_own e s = Inr t"
  moreover from \<open>trace_inv s\<close> have "trace_inv (cache_observer_cycle s)"
    by (rule trace_inv_frame [rotated 2]) (simp_all add: cache_observer_cycle_def Let_def)
  ultimately show ?thesis using C_tick sample_trace_inv by auto
next
  case (C_writeback w pc)
  assume "trace_inv s" "cache_own e s = Inr t"
  with C_writeback show ?thesis
    by (auto simp: trace_inv_def cache_observer_sample_writeback_def split: if_splits)
qed

lemma cache_run_trace_inv:
  "run_events cache_observer_update_roi cache_own es s = Inr t \<Longrightarrow> trace_inv s \<Longrightarrow> trace_inv t"
proof (induction es arbitrary: s)
  case (Cons e es)
  show ?case
  proof (cases e)
    case (Retire w pc)
    have "trace_inv (cache_observer_update_roi w pc s)"
      by (rule trace_inv_frame [OF _ _ Cons.prems(2)]) (simp_all add: cache_observer_update_roi_def)
    with Retire Cons show ?thesis by simp
  next
    case (Own o')
    with Cons.prems obtain u where "cache_own o' s = Inr u" "run_events cache_observer_update_roi cache_own es u = Inr t"
      by (auto simp: bindR_Inr_iff)
    with Cons cache_own_trace_inv [of s o' u] show ?thesis by blast
  qed
qed simp

definition idle_sample :: CacheObserverSample where
  "idle_sample = \<lparr>cs_icache_access = 0, cs_icache_hit = 0, cs_icache_miss = 0, cs_icache_refill_start = 0,
     cs_icache_refill_complete = 0, cs_icache_miss_stall = 0, cs_icache_total_stall = 0, cs_dcache_access = 0,
     cs_dcache_load_access = 0, cs_dcache_store_access = 0, cs_dcache_hit = 0, cs_dcache_miss = 0,
     cs_dcache_refill_start = 0, cs_dcache_refill_complete = 0, cs_dcache_dirty_eviction = 0,
     cs_dcache_writeback_start = 0, cs_dcache_writeback_complete = 0, cs_dcache_miss_stall = 0,
     cs_dcache_writeback_stall = 0, cs_dcache_total_stall = 0, cs_dcache_address = 0, cs_dcache_wmask = 0,
     cs_branch_recovery = 0, cs_dependency = 0, cs_divider = 0\<rparr>"

section \<open>Properties\<close>

text \<open>
  C19. The exclusive attribution is a partition of the counted cycles: from any initialisation and
  after any sequence of retirements, clock cycles and write-backs, the six exclusive counters add up
  to the cycle counter (modulo \<open>2 ^ 64\<close>), whatever the sampled signals were.
\<close>

theorem cache_cycles_partition:
  "\<exists>t. run_events cache_observer_update_roi cache_own es (cache_observer_init env can_open s0) = Inr t
     \<and> exclusive_sum (cache_counts t) = k_cycles (cache_counts t)"
  using cache_run_total [of es "cache_observer_init env can_open s0"] cache_run_partition by blast

text \<open>
  C32. The observer's self-check accepts every run of well-behaved caches: if in each sample an access
  is a hit or a miss and a load or a store, the counter invariants hold at the end, so a run whose
  files can be opened is reported with status 0 exactly when the requested window was closed.
\<close>

theorem cache_self_check:
  assumes "\<forall>x. Own (C_tick x) \<in> set es \<longrightarrow> sample_ok x"
    and "run_events cache_observer_update_roi cache_own es (cache_observer_init env (\<lambda>_. True) s0) = Inr t"
    and "cache_output_path t = Some path"
  shows "counter_invariants (cache_counts t)
    \<and> cache_observer_finalize (\<lambda>_. True) t st =
        (if cache_roi_requested t \<longrightarrow> cache_roi_started t \<and> cache_roi_ended t then 0 else 1,
         Some (cache_report (t\<lparr>cache_trace_file := None\<rparr>) st), t\<lparr>cache_trace_file := None\<rparr>)"
proof -
  have "\<not> cache_trace_open_failed t"
    using cache_run_open_failed [OF assms(2)]
    by (simp add: cache_observer_init_def Let_def split: prod.splits option.splits)
  then show ?thesis
    using assms(3) cache_run_balance [OF assms(2,1)] cache_run_partition [OF assms(2)]
    by (auto simp: counter_invariants_iff cache_observer_finalize_def cache_roi_valid_def Let_def)
qed

theorem cache_self_check_witness:
  "\<exists>t. run_events cache_observer_update_roi cache_own
          [Own (C_tick (idle_sample\<lparr>cs_dcache_access := 1, cs_dcache_store_access := 1, cs_dcache_miss := 1\<rparr>)),
           Own (C_writeback True 0x80000000)]
          (cache_observer_init [''CACHE_PROFILE_OUT'' \<mapsto> ''out.json''] (\<lambda>_. True) cache_state_init) = Inr t
     \<and> k_dcache_store_misses (cache_counts t) = 1
     \<and> counter_invariants (cache_counts t) \<and> fst (cache_observer_finalize (\<lambda>_. True) t 0) = 0"
proof -
  let ?x = "idle_sample\<lparr>cs_dcache_access := 1, cs_dcache_store_access := 1, cs_dcache_miss := 1\<rparr>"
  let ?es = "[Own (C_tick ?x), Own (C_writeback True 0x80000000)]"
  let ?s = "cache_observer_init [''CACHE_PROFILE_OUT'' \<mapsto> ''out.json''] (\<lambda>_. True) cache_state_init"
  have s: "cache_output_path ?s = Some ''out.json''" "\<not> cache_roi_requested ?s"
    by (simp_all add: cache_observer_init_def cache_parse_u64_env_def Let_def)
  obtain t where t: "run_events cache_observer_update_roi cache_own ?es ?s = Inr t"
    using cache_run_total by blast
  have "cache_control t = cache_control ?s"
    using t sample_control cycle_control writeback_control by auto
  with s have o: "cache_output_path t = Some ''out.json''" "\<not> cache_roi_requested t"
    by (simp_all add: cache_control_def)
  have ok: "\<forall>x. Own (C_tick x) \<in> set ?es \<longrightarrow> sample_ok x" by (simp add: sample_ok_def idle_sample_def)
  have "cache_collecting ?s" using s by (simp add: cache_collecting_def)
  then have "k_dcache_store_misses (cache_counts t) = 1"
    using t by (auto simp: cache_observer_sample_writeback_def counts_after_tick cache_init_counts
        count_exclusive_def count_sample_def counts_zero_def idle_sample_def)
  then show ?thesis using t cache_self_check [OF ok t o(1), of 0] o(2) by auto
qed

text \<open>
  The data cache trace is well-formed: whatever happens after initialisation, an open trace file
  holds the header followed by lines whose sequence numbers are \<open>0, 1, 2, ...\<close> in order.
\<close>

theorem cache_trace_numbered:
  assumes "run_events cache_observer_update_roi cache_own es (cache_observer_init env can_open s0) = Inr t"
    and "cache_trace_file t = Some txt"
  shows "\<exists>lines. txt = trace_header @ concat lines \<and> cache_trace_sequence t = of_nat (length lines)
    \<and> numbered 0 lines"
proof -
  have "trace_inv (cache_observer_init env can_open s0)"
    by (auto simp: trace_inv_def cache_observer_init_def Let_def numbered_def split: prod.splits
        intro!: exI [of _ "[]"])
  from cache_run_trace_inv [OF assms(1) this] assms(2) show ?thesis by (simp add: trace_inv_def)
qed

theorem cache_trace_numbered_witness:
  "\<exists>t txt lines. run_events cache_observer_update_roi cache_own
      [Own (C_tick (idle_sample\<lparr>cs_dcache_access := 1\<rparr>)), Own (C_tick (idle_sample\<lparr>cs_dcache_access := 1\<rparr>))]
      (cache_observer_init [''DCACHE_TRACE_OUT'' \<mapsto> ''t.csv''] (\<lambda>_. True) cache_state_init) = Inr t
    \<and> cache_trace_file t = Some txt \<and> txt = trace_header @ concat lines \<and> numbered 0 lines"
proof -
  let ?es = "[Own (C_tick (idle_sample\<lparr>cs_dcache_access := 1\<rparr>)), Own (C_tick (idle_sample\<lparr>cs_dcache_access := 1\<rparr>))]"
  let ?s = "cache_observer_init [''DCACHE_TRACE_OUT'' \<mapsto> ''t.csv''] (\<lambda>_. True) cache_state_init"
  obtain t where t: "run_events cache_observer_update_roi cache_own ?es ?s = Inr t"
    using cache_run_total by blast
  have "cache_trace_file ?s \<noteq> None" by (simp add: cache_observer_init_def cache_parse_u64_env_def Let_def)
  then have "cache_trace_file t \<noteq> None" using t tick_trace_open by auto
  with t cache_trace_numbered [OF t] show ?thesis by blast
qed

end
