(* ===== verification/Perf_Observer.thy ===== *)
theory Perf_Observer
  imports Roi
begin

text \<open>
  The attribution observer (\<open>src/models/attribution/monitor/perf_observer.cpp\<close>, \<open>.h\<close>): write-back,
  branch and predictor observations, stall counters, episode counters and the exclusive attribution
  of cycles. The variables that \<open>reset_counts\<close> clears are the record \<open>perf_counts\<close>, the others the
  rest of \<open>perf_state\<close>. The 35 arguments of \<open>perf_observer_sample_raw\<close> are the record \<open>raw_sample\<close>.
\<close>

section \<open>State\<close>

record PerfObservation =
  po_cycle :: u64
  po_pc :: u64
  po_inst :: u32
  po_intr :: bool
  po_device :: bool

record ConditionalBranchObservation =
  cb_cycle :: u64
  cb_pc :: u64
  cb_actual_taken :: bool
  cb_predicted_taken :: bool

record PredictorTimelineObservation =
  pt_cycle :: u64
  pt_event_id :: u64
  pt_kind :: string
  pt_pc :: u64
  pt_index :: u16
  pt_valid :: bool
  pt_counter :: u8
  pt_fallback_sign :: bool
  pt_predicted_taken :: bool
  pt_actual_taken :: bool

record PredictorWarmupUpdateObservation =
  pw_sequence :: u64
  pw_cycle :: u64
  pw_pc :: u64
  pw_actual_taken :: bool

record perf_counts =
  cycle_count :: u64
  wb_intr_count :: u64
  wb_device_count :: u64
  observations :: "PerfObservation list"
  conditional_branch_observations :: "ConditionalBranchObservation list"
  predictor_timeline_observations :: "PredictorTimelineObservation list"
  branch_resolved_count :: u64
  branch_direction_error_count :: u64
  jalr_target_error_count :: u64
  icache_miss_count :: u64
  dcache_miss_count :: u64
  icache_wait_cycles :: u64
  dcache_memory_wait_cycles :: u64
  load_use_stall_cycles :: u64
  divider_wait_cycles :: u64
  flush_count :: u64
  flush_branch_count :: u64
  flush_interrupt_count :: u64
  dependency_stall_cycles :: u64
  exclusive_dcache_memory_wait_cycles :: u64
  exclusive_divider_block_cycles :: u64
  exclusive_branch_recovery_cycles :: u64
  exclusive_dependency_load_use_cycles :: u64
  exclusive_icache_wait_cycles :: u64
  exclusive_other_unclassified_cycles :: u64
  dependency_load_use_episode_count :: u64
  branch_recovery_episode_count :: u64
  conditional_direction_recovery_episode_count :: u64
  jalr_target_recovery_episode_count :: u64
  other_recovery_episode_count :: u64
  previous_load_use_stall :: bool
  previous_flush_branch :: bool
  previous_conditional_direction_recovery :: bool
  previous_jalr_target_recovery :: bool
  previous_other_recovery :: bool

record perf_state =
  perf_output_path :: "string option"
  perf_workload :: string
  perf_git_commit :: string
  perf_roi_requested :: bool
  perf_roi_active :: bool
  perf_roi_started :: bool
  perf_roi_ended :: bool
  perf_roi_start_pc :: u64
  perf_roi_end_pc :: u64
  perf_counts :: perf_counts
  predictor_warmup_updates :: "PredictorWarmupUpdateObservation list"
  predictor_warmup_update_sequence :: u64

record raw_sample =
  r_branch_resolved :: bool
  r_branch_direction_error :: bool
  r_jalr_target_error :: bool
  r_icache_miss :: bool
  r_dcache_miss :: bool
  r_icache_wait :: bool
  r_dcache_memory_wait :: bool
  r_load_use_stall :: bool
  r_divider_wait :: bool
  r_flush_event :: bool
  r_flush_branch :: bool
  r_flush_interrupt :: bool
  r_dependency_stall :: bool
  r_conditional_direction_recovery :: bool
  r_jalr_target_recovery :: bool
  r_other_recovery :: bool
  r_conditional_branch_resolved :: bool
  r_conditional_branch_pc :: u64
  r_conditional_branch_actual_taken :: bool
  r_conditional_branch_predicted_taken :: bool
  r_predictor_lookup_event :: bool
  r_predictor_lookup_pc :: u64
  r_predictor_lookup_id :: u64
  r_predictor_lookup_valid :: bool
  r_predictor_lookup_counter :: u8
  r_predictor_fetch_event :: bool
  r_predictor_fetch_pc :: u64
  r_predictor_fetch_conditional :: bool
  r_predictor_fetch_fallback_sign :: bool
  r_predictor_fetch_predicted_taken :: bool
  r_predictor_fetch_id :: u64
  r_predictor_update_event :: bool
  r_predictor_update_pc :: u64
  r_predictor_update_actual_taken :: bool
  r_predictor_update_id :: u64

definition perf_zero :: perf_counts where
  "perf_zero = \<lparr>cycle_count = 0, wb_intr_count = 0, wb_device_count = 0, observations = [],
     conditional_branch_observations = [], predictor_timeline_observations = [],
     branch_resolved_count = 0, branch_direction_error_count = 0, jalr_target_error_count = 0,
     icache_miss_count = 0, dcache_miss_count = 0, icache_wait_cycles = 0, dcache_memory_wait_cycles = 0,
     load_use_stall_cycles = 0, divider_wait_cycles = 0, flush_count = 0, flush_branch_count = 0,
     flush_interrupt_count = 0, dependency_stall_cycles = 0, exclusive_dcache_memory_wait_cycles = 0,
     exclusive_divider_block_cycles = 0, exclusive_branch_recovery_cycles = 0,
     exclusive_dependency_load_use_cycles = 0, exclusive_icache_wait_cycles = 0,
     exclusive_other_unclassified_cycles = 0, dependency_load_use_episode_count = 0,
     branch_recovery_episode_count = 0, conditional_direction_recovery_episode_count = 0,
     jalr_target_recovery_episode_count = 0, other_recovery_episode_count = 0,
     previous_load_use_stall = False, previous_flush_branch = False,
     previous_conditional_direction_recovery = False, previous_jalr_target_recovery = False,
     previous_other_recovery = False\<rparr>"

definition perf_state_init :: perf_state where
  "perf_state_init = \<lparr>perf_output_path = None, perf_workload = [], perf_git_commit = [],
     perf_roi_requested = False, perf_roi_active = False, perf_roi_started = False, perf_roi_ended = False,
     perf_roi_start_pc = 0, perf_roi_end_pc = 0, perf_counts = perf_zero,
     predictor_warmup_updates = [], predictor_warmup_update_sequence = 0\<rparr>"

section \<open>Operations\<close>

definition env_or :: "environ \<Rightarrow> string \<Rightarrow> string \<Rightarrow> string" where
  "env_or env name fallback = (case env name of Some v \<Rightarrow> if v \<noteq> [] then v else fallback | None \<Rightarrow> fallback)"

definition perf_collecting :: "perf_state \<Rightarrow> bool" where
  "perf_collecting s \<longleftrightarrow> perf_output_path s \<noteq> None \<and> (\<not> perf_roi_requested s \<or> perf_roi_active s)"

definition perf_reset_counts :: "perf_state \<Rightarrow> perf_state" where
  "perf_reset_counts s = s\<lparr>perf_counts := perf_zero\<rparr>"

text \<open>
  With an empty \<open>PERF_RAW_OUT\<close> the function returns at once and \<open>output_path\<close> stays the empty string,
  which the other functions take for a path.
\<close>

definition perf_observer_init :: "environ \<Rightarrow> perf_state \<Rightarrow> perf_state" where
  "perf_observer_init env s0 =
     (let out = env ''PERF_RAW_OUT''; s = s0\<lparr>perf_output_path := out\<rparr> in
      if out = None \<or> out = Some [] then s
      else
        let s = s\<lparr>perf_workload := env_or env ''PERF_WORKLOAD'' ''unspecified'',
                  perf_git_commit := env_or env ''PERF_GIT_COMMIT'' ''unspecified''\<rparr>;
            (has_start, a) = perf_parse_u64_env env ''PERF_ROI_START_PC'' (perf_roi_start_pc s);
            (has_end, z) = perf_parse_u64_env env ''PERF_ROI_END_PC'' (perf_roi_end_pc s);
            requested = (has_start \<or> has_end);
            s = s\<lparr>perf_roi_start_pc := a, perf_roi_end_pc := z, perf_roi_requested := requested\<rparr>
        in if has_start \<noteq> has_end \<or> requested \<and> a = z then s\<lparr>perf_output_path := None\<rparr>
           else perf_reset_counts
                  (s\<lparr>perf_roi_active := \<not> requested, perf_roi_started := \<not> requested,
                     perf_roi_ended := False, predictor_warmup_updates := [],
                     predictor_warmup_update_sequence := 0\<rparr>))"

definition perf_observer_update_roi :: "bool \<Rightarrow> u64 \<Rightarrow> perf_state \<Rightarrow> perf_state" where
  "perf_observer_update_roi wb_sign wb_pc s =
     (if perf_output_path s = None \<or> \<not> perf_roi_requested s \<or> \<not> wb_sign then s
      else if \<not> perf_roi_started s \<and> wb_pc = perf_roi_start_pc s
      then (perf_reset_counts s)\<lparr>perf_roi_started := True, perf_roi_active := True\<rparr>
      else if perf_roi_active s \<and> wb_pc = perf_roi_end_pc s
      then s\<lparr>perf_roi_active := False, perf_roi_ended := True\<rparr>
      else s)"

definition warmup_update :: "raw_sample \<Rightarrow> perf_state \<Rightarrow> perf_state" where
  "warmup_update r s =
     (if perf_output_path s \<noteq> None \<and> perf_roi_requested s \<and> \<not> perf_roi_started s \<and> r_predictor_update_event r
      then s\<lparr>predictor_warmup_updates := predictor_warmup_updates s @
               [\<lparr>pw_sequence = predictor_warmup_update_sequence s, pw_cycle = cycle_count (perf_counts s),
                 pw_pc = r_predictor_update_pc r, pw_actual_taken = r_predictor_update_actual_taken r\<rparr>],
             predictor_warmup_update_sequence := predictor_warmup_update_sequence s + 1\<rparr>
      else s)"

definition count_raw :: "raw_sample \<Rightarrow> perf_counts \<Rightarrow> perf_counts" where
  "count_raw r c = c\<lparr>
     branch_resolved_count := branch_resolved_count c + b2w (r_branch_resolved r),
     branch_direction_error_count := branch_direction_error_count c + b2w (r_branch_direction_error r),
     jalr_target_error_count := jalr_target_error_count c + b2w (r_jalr_target_error r),
     icache_miss_count := icache_miss_count c + b2w (r_icache_miss r),
     dcache_miss_count := dcache_miss_count c + b2w (r_dcache_miss r),
     icache_wait_cycles := icache_wait_cycles c + b2w (r_icache_wait r),
     dcache_memory_wait_cycles := dcache_memory_wait_cycles c + b2w (r_dcache_memory_wait r),
     load_use_stall_cycles := load_use_stall_cycles c + b2w (r_load_use_stall r),
     divider_wait_cycles := divider_wait_cycles c + b2w (r_divider_wait r),
     flush_count := flush_count c + b2w (r_flush_event r),
     flush_branch_count := flush_branch_count c + b2w (r_flush_branch r),
     flush_interrupt_count := flush_interrupt_count c + b2w (r_flush_interrupt r),
     dependency_stall_cycles := dependency_stall_cycles c + b2w (r_dependency_stall r)\<rparr>"

definition count_episodes :: "raw_sample \<Rightarrow> perf_counts \<Rightarrow> perf_counts" where
  "count_episodes r c = c\<lparr>
     dependency_load_use_episode_count := dependency_load_use_episode_count c +
       b2w (r_load_use_stall r \<and> \<not> previous_load_use_stall c),
     branch_recovery_episode_count := branch_recovery_episode_count c +
       b2w (r_flush_branch r \<and> \<not> previous_flush_branch c),
     conditional_direction_recovery_episode_count := conditional_direction_recovery_episode_count c +
       b2w (r_conditional_direction_recovery r \<and> \<not> previous_conditional_direction_recovery c),
     jalr_target_recovery_episode_count := jalr_target_recovery_episode_count c +
       b2w (r_jalr_target_recovery r \<and> \<not> previous_jalr_target_recovery c),
     other_recovery_episode_count := other_recovery_episode_count c +
       b2w (r_other_recovery r \<and> \<not> previous_other_recovery c)\<rparr>"

definition observe_branch :: "raw_sample \<Rightarrow> perf_counts \<Rightarrow> perf_counts" where
  "observe_branch r c =
     (if r_conditional_branch_resolved r
      then c\<lparr>conditional_branch_observations := conditional_branch_observations c @
               [\<lparr>cb_cycle = cycle_count c, cb_pc = r_conditional_branch_pc r,
                 cb_actual_taken = r_conditional_branch_actual_taken r,
                 cb_predicted_taken = r_conditional_branch_predicted_taken r\<rparr>]\<rparr>
      else c)"

definition pht_index :: "u64 \<Rightarrow> u16" where
  "pht_index pc = ucast (drop_bit 2 pc AND 0x3ff)"

definition timeline_events :: "raw_sample \<Rightarrow> u64 \<Rightarrow> PredictorTimelineObservation list" where
  "timeline_events r now =
     (if r_predictor_lookup_event r
      then [\<lparr>pt_cycle = now, pt_event_id = r_predictor_lookup_id r, pt_kind = ''lookup'',
             pt_pc = r_predictor_lookup_pc r, pt_index = pht_index (r_predictor_lookup_pc r),
             pt_valid = r_predictor_lookup_valid r, pt_counter = r_predictor_lookup_counter r,
             pt_fallback_sign = False, pt_predicted_taken = False, pt_actual_taken = False\<rparr>] else []) @
     (if r_predictor_fetch_event r \<and> r_predictor_fetch_conditional r
      then [\<lparr>pt_cycle = now, pt_event_id = r_predictor_fetch_id r, pt_kind = ''prediction'',
             pt_pc = r_predictor_fetch_pc r, pt_index = pht_index (r_predictor_fetch_pc r),
             pt_valid = False, pt_counter = 0, pt_fallback_sign = r_predictor_fetch_fallback_sign r,
             pt_predicted_taken = r_predictor_fetch_predicted_taken r, pt_actual_taken = False\<rparr>] else []) @
     (if r_predictor_update_event r
      then [\<lparr>pt_cycle = now, pt_event_id = r_predictor_update_id r, pt_kind = ''update'',
             pt_pc = r_predictor_update_pc r, pt_index = pht_index (r_predictor_update_pc r),
             pt_valid = False, pt_counter = 0, pt_fallback_sign = False, pt_predicted_taken = False,
             pt_actual_taken = r_predictor_update_actual_taken r\<rparr>] else [])"

definition observe_timeline :: "raw_sample \<Rightarrow> perf_counts \<Rightarrow> perf_counts" where
  "observe_timeline r c = c\<lparr>predictor_timeline_observations :=
     predictor_timeline_observations c @ timeline_events r (cycle_count c)\<rparr>"

definition remember_previous :: "raw_sample \<Rightarrow> perf_counts \<Rightarrow> perf_counts" where
  "remember_previous r c = c\<lparr>previous_load_use_stall := r_load_use_stall r,
     previous_flush_branch := r_flush_branch r,
     previous_conditional_direction_recovery := r_conditional_direction_recovery r,
     previous_jalr_target_recovery := r_jalr_target_recovery r,
     previous_other_recovery := r_other_recovery r\<rparr>"

definition perf_exclusive :: "raw_sample \<Rightarrow> perf_counts \<Rightarrow> perf_counts" where
  "perf_exclusive r c =
     (if r_dcache_memory_wait r
      then c\<lparr>exclusive_dcache_memory_wait_cycles := exclusive_dcache_memory_wait_cycles c + 1\<rparr>
      else if r_divider_wait r
      then c\<lparr>exclusive_divider_block_cycles := exclusive_divider_block_cycles c + 1\<rparr>
      else if r_flush_branch r
      then c\<lparr>exclusive_branch_recovery_cycles := exclusive_branch_recovery_cycles c + 1\<rparr>
      else if r_load_use_stall r
      then c\<lparr>exclusive_dependency_load_use_cycles := exclusive_dependency_load_use_cycles c + 1\<rparr>
      else if r_icache_wait r
      then c\<lparr>exclusive_icache_wait_cycles := exclusive_icache_wait_cycles c + 1\<rparr>
      else c\<lparr>exclusive_other_unclassified_cycles := exclusive_other_unclassified_cycles c + 1\<rparr>)"

definition perf_observer_sample_raw :: "raw_sample \<Rightarrow> perf_state \<Rightarrow> perf_state" where
  "perf_observer_sample_raw r s0 =
     (let s = warmup_update r s0 in
      if \<not> perf_collecting s then s
      else s\<lparr>perf_counts := perf_exclusive r (remember_previous r (observe_timeline r
               (observe_branch r (count_episodes r (count_raw r (perf_counts s))))))\<rparr>)"

definition perf_observer_cycle :: "perf_state \<Rightarrow> perf_state" where
  "perf_observer_cycle s =
     (if perf_collecting s
      then s\<lparr>perf_counts := (perf_counts s)\<lparr>cycle_count := cycle_count (perf_counts s) + 1\<rparr>\<rparr> else s)"

definition perf_observer_sample :: "bool \<Rightarrow> u64 \<Rightarrow> u32 \<Rightarrow> bool \<Rightarrow> bool \<Rightarrow> perf_state \<Rightarrow> perf_state" where
  "perf_observer_sample wb_sign wb_pc wb_inst wb_intr wb_device s =
     (if \<not> perf_collecting s \<or> \<not> wb_sign then s
      else if perf_roi_requested s \<and> (wb_pc = perf_roi_start_pc s \<or> wb_pc = perf_roi_end_pc s) then s
      else s\<lparr>perf_counts := (perf_counts s)\<lparr>
             observations := observations (perf_counts s) @
               [\<lparr>po_cycle = cycle_count (perf_counts s), po_pc = wb_pc, po_inst = wb_inst,
                 po_intr = wb_intr, po_device = wb_device\<rparr>],
             wb_intr_count := wb_intr_count (perf_counts s) + b2w wb_intr,
             wb_device_count := wb_device_count (perf_counts s) + b2w wb_device\<rparr>\<rparr>)"

section \<open>The report\<close>

fun json_escape :: "string \<Rightarrow> string" where
  "json_escape [] = []"
| "json_escape (c # cs) =
     (if c = CHR 0x22 \<or> c = CHR 0x5C then [CHR 0x5C, c] else [c]) @ json_escape cs"

definition write_json_string :: "string \<Rightarrow> string" where
  "write_json_string v = [CHR 0x22] @ json_escape v @ [CHR 0x22]"

definition perf_exclusive_sum :: "perf_counts \<Rightarrow> u64" where
  "perf_exclusive_sum c = exclusive_dcache_memory_wait_cycles c + exclusive_divider_block_cycles c +
     exclusive_branch_recovery_cycles c + exclusive_dependency_load_use_cycles c +
     exclusive_icache_wait_cycles c + exclusive_other_unclassified_cycles c"

text \<open>The items of an array, separated by commas, one per line.\<close>

fun json_items :: "('a \<Rightarrow> string) \<Rightarrow> 'a list \<Rightarrow> string" where
  "json_items f [] = []"
| "json_items f (x # xs) = f x @ (if xs = [] then [] else '','') @ nl @ json_items f xs"

definition field :: "string \<Rightarrow> string \<Rightarrow> string" where
  "field name v = quoted name @ '': '' @ v"

definition warmup_text :: "PredictorWarmupUpdateObservation \<Rightarrow> string" where
  "warmup_text w = ''    {'' @ field ''sequence'' (llu (pw_sequence w)) @ '', '' @
     field ''cycle'' (llu (pw_cycle w)) @ '', '' @ field ''pc'' (hex16 (pw_pc w)) @ '', '' @
     field ''actual_taken'' (bool_text (pw_actual_taken w)) @ ''}''"

definition timeline_text :: "PredictorTimelineObservation \<Rightarrow> string" where
  "timeline_text t = ''    {'' @ field ''cycle'' (llu (pt_cycle t)) @ '', '' @
     field ''kind'' (quoted (pt_kind t)) @ '', '' @ field ''pc'' (hex16 (pt_pc t)) @ '', '' @
     field ''event_id'' (llu (pt_event_id t)) @ '', '' @ field ''index'' (dec (unat (pt_index t))) @ '', '' @
     field ''valid'' (bool_text (pt_valid t)) @ '', '' @ field ''counter'' (dec (unat (pt_counter t))) @ '', '' @
     field ''fallback_sign'' (bool_text (pt_fallback_sign t)) @ '', '' @
     field ''predicted_taken'' (bool_text (pt_predicted_taken t)) @ '', '' @
     field ''actual_taken'' (bool_text (pt_actual_taken t)) @ ''}''"

definition branch_text :: "ConditionalBranchObservation \<Rightarrow> string" where
  "branch_text b = ''    {'' @ field ''cycle'' (llu (cb_cycle b)) @ '', '' @ field ''pc'' (hex16 (cb_pc b)) @
     '', '' @ field ''actual_taken'' (bool_text (cb_actual_taken b)) @ '', '' @
     field ''predicted_taken'' (bool_text (cb_predicted_taken b)) @ ''}''"

definition observation_text :: "PerfObservation \<Rightarrow> string" where
  "observation_text b = ''    {'' @ field ''cycle'' (llu (po_cycle b)) @ '', '' @
     field ''wb_pc'' (hex16 (po_pc b)) @ '', '' @ field ''wb_inst'' (hex8 (po_inst b)) @ '', '' @
     field ''wb_intr'' (bool_text (po_intr b)) @ '', '' @
     field ''wb_device'' (bool_text (po_device b)) @ ''}''"

definition counters_text :: "perf_counts \<Rightarrow> string" where
  "counters_text c =
     num_field ''simulator_cycle_count'' (cycle_count c) @
     num_field ''wb_observation_count'' (of_nat (length (observations c))) @
     num_field ''wb_intr_count'' (wb_intr_count c) @
     num_field ''wb_device_count'' (wb_device_count c) @
     num_field ''branch_resolved_observation_count'' (branch_resolved_count c) @
     num_field ''branch_direction_error_count'' (branch_direction_error_count c) @
     num_field ''jalr_target_error_count'' (jalr_target_error_count c) @
     num_field ''icache_miss_observation_count'' (icache_miss_count c) @
     num_field ''dcache_miss_observation_count'' (dcache_miss_count c) @
     num_field ''icache_wait_cycles'' (icache_wait_cycles c) @
     num_field ''dcache_memory_wait_cycles'' (dcache_memory_wait_cycles c) @
     num_field ''load_use_stall_cycles'' (load_use_stall_cycles c) @
     num_field ''divider_wait_cycles'' (divider_wait_cycles c) @
     num_field ''flush_observation_count'' (flush_count c) @
     num_field ''flush_branch_count'' (flush_branch_count c) @
     num_field ''flush_interrupt_count'' (flush_interrupt_count c) @
     num_field ''dependency_stall_cycles'' (dependency_stall_cycles c) @
     num_field ''exclusive_dcache_memory_wait_cycles'' (exclusive_dcache_memory_wait_cycles c) @
     num_field ''exclusive_divider_block_cycles'' (exclusive_divider_block_cycles c) @
     num_field ''exclusive_branch_recovery_cycles'' (exclusive_branch_recovery_cycles c) @
     num_field ''exclusive_dependency_load_use_cycles'' (exclusive_dependency_load_use_cycles c) @
     num_field ''exclusive_icache_wait_cycles'' (exclusive_icache_wait_cycles c) @
     num_field ''exclusive_other_unclassified_cycles'' (exclusive_other_unclassified_cycles c) @
     num_field ''exclusive_cycle_sum'' (perf_exclusive_sum c) @
     ''  '' @ field ''exclusive_cycle_sum_matches_roi'' (bool_text (perf_exclusive_sum c = cycle_count c)) @ '','' @ nl @
     num_field ''dependency_load_use_episode_count'' (dependency_load_use_episode_count c) @
     num_field ''branch_recovery_episode_count'' (branch_recovery_episode_count c) @
     num_field ''conditional_direction_recovery_episode_count'' (conditional_direction_recovery_episode_count c) @
     num_field ''jalr_target_recovery_episode_count'' (jalr_target_recovery_episode_count c) @
     num_field ''other_recovery_episode_count'' (other_recovery_episode_count c)"

definition perf_report :: "perf_state \<Rightarrow> u64 \<Rightarrow> u64 \<Rightarrow> int \<Rightarrow> string" where
  "perf_report s brn_num bflush_num exit_status =
     (let c = perf_counts s in
      ''{'' @ nl @ ''  '' @ field ''schema_version'' (write_json_string ''a2-raw-v4'') @ '','' @ nl @
      ''  '' @ field ''git_commit'' (write_json_string (perf_git_commit s)) @ '','' @ nl @
      ''  '' @ field ''a2_base_commit'' (write_json_string ''df956d23cc420b761104f359792cfbd5bb5e4747'') @ '','' @ nl @
      ''  '' @ field ''workload'' (write_json_string (perf_workload s)) @ '','' @ nl @
      ''  '' @ field ''measurement_scope'' (quoted (if perf_roi_requested s then ''pc_marker_roi'' else ''full_run'')) @ '','' @ nl @
      ''  '' @ field ''roi_valid'' (bool_text (perf_roi_requested s \<and> perf_roi_started s \<and> perf_roi_ended s)) @ '','' @ nl @
      (if perf_roi_requested s
       then ''  '' @ field ''roi_start_pc'' (hex16 (perf_roi_start_pc s)) @ '','' @ nl @
            ''  '' @ field ''roi_end_pc'' (hex16 (perf_roi_end_pc s)) @ '','' @ nl else []) @
      counters_text c @
      ''  '' @ quoted ''predictor_warmup_updates'' @ '': ['' @ nl @
      json_items warmup_text (predictor_warmup_updates s) @ ''  ],'' @ nl @
      ''  '' @ quoted ''predictor_timeline_observations'' @ '': ['' @ nl @
      json_items timeline_text (predictor_timeline_observations c) @ ''  ],'' @ nl @
      ''  '' @ quoted ''conditional_branch_observations'' @ '': ['' @ nl @
      json_items branch_text (conditional_branch_observations c) @ ''  ],'' @ nl @
      num_field ''brn_num'' brn_num @ num_field ''bflush_num'' bflush_num @
      ''  '' @ quoted ''observations'' @ '': ['' @ nl @
      json_items observation_text (observations c) @ ''  ],'' @ nl @
      ''  '' @ field ''exit_status'' (int_text exit_status) @ nl @ ''}'' @ nl)"

definition perf_observer_finalize ::
    "(string \<Rightarrow> bool) \<Rightarrow> perf_state \<Rightarrow> u64 \<Rightarrow> u64 \<Rightarrow> int \<Rightarrow> int \<times> string option" where
  "perf_observer_finalize can_open s brn_num bflush_num exit_status =
     (case perf_output_path s of
        None \<Rightarrow> (0, None)
      | Some path \<Rightarrow>
          let matches_roi = (perf_exclusive_sum (perf_counts s) = cycle_count (perf_counts s));
              exit_status = (if perf_roi_requested s \<and> perf_roi_started s \<and> perf_roi_ended s \<and> \<not> matches_roi
                             then 1 else exit_status)
          in if \<not> can_open path then (1, None)
             else (if matches_roi then 0 else 1, Some (perf_report s brn_num bflush_num exit_status)))"

section \<open>The window of interest\<close>

text \<open>One clock cycle of a driver calls \<open>perf_observer_cycle\<close> after the falling edge and \<open>perf_observer_sample_raw\<close> after
  the rising edge, one sample per counted cycle (\<open>src/docs/experiments/00_baseline/source_notes\<close>, the calibration of
  the cycle model).\<close>

datatype perf_event = P_tick raw_sample | P_writeback bool u64 u32 bool bool

fun perf_own :: "perf_event \<Rightarrow> perf_state \<Rightarrow> perf_state res" where
  "perf_own (P_tick r) s = Inr (perf_observer_sample_raw r (perf_observer_cycle s))"
| "perf_own (P_writeback w pc i t d) s = Inr (perf_observer_sample w pc i t d s)"

definition perf_enabled :: "perf_state \<Rightarrow> bool" where
  "perf_enabled s \<longleftrightarrow> perf_output_path s \<noteq> None"

definition perf_flags :: "perf_state \<Rightarrow> bool \<times> bool \<times> bool" where
  "perf_flags s = (perf_roi_active s, perf_roi_started s, perf_roi_ended s)"

definition perf_markers :: "perf_state \<Rightarrow> u64 \<times> u64" where
  "perf_markers s = (perf_roi_start_pc s, perf_roi_end_pc s)"

definition perf_control :: "perf_state \<Rightarrow> string option \<times> bool \<times> (bool \<times> bool \<times> bool) \<times> (u64 \<times> u64)" where
  "perf_control s = (perf_output_path s, perf_roi_requested s, perf_flags s, perf_markers s)"

lemmas perf_control_defs = perf_control_def perf_flags_def perf_markers_def

lemma warmup_control: "perf_control (warmup_update r s) = perf_control s"
  by (simp add: warmup_update_def perf_control_defs)

lemma perf_cycle_control: "perf_control (perf_observer_cycle s) = perf_control s"
  by (simp add: perf_observer_cycle_def perf_control_defs)

lemma raw_control: "perf_control (perf_observer_sample_raw r s) = perf_control s"
proof -
  have "perf_control (t\<lparr>perf_counts := c\<rparr>) = perf_control t" for t c by (simp add: perf_control_defs)
  then show ?thesis using warmup_control by (simp add: perf_observer_sample_raw_def Let_def)
qed

lemma perf_writeback_control: "perf_control (perf_observer_sample w pc i t d s) = perf_control s"
  by (simp add: perf_observer_sample_def perf_control_defs)

lemma perf_own_control: "perf_own e s = Inr t \<Longrightarrow> perf_control t = perf_control s"
  using raw_control perf_cycle_control perf_writeback_control by (cases e) auto

lemma perf_collecting_control: "perf_control t = perf_control s \<Longrightarrow> perf_collecting t = perf_collecting s"
  by (simp add: perf_collecting_def perf_control_defs)

interpretation perfo: roi_observer perf_enabled perf_roi_requested perf_flags perf_markers
  perf_observer_update_roi perf_own
proof unfold_locales
  fix e s t
  assume "perf_own e s = Inr t"
  from perf_own_control [OF this]
  show "perf_enabled t = perf_enabled s \<and> perf_roi_requested t = perf_roi_requested s
     \<and> perf_markers t = perf_markers s \<and> perf_flags t = perf_flags s"
    by (simp add: perf_control_def perf_enabled_def)
qed (auto simp: perf_observer_update_roi_def perf_reset_counts_def perf_flags_def perf_markers_def
      perf_enabled_def phase_flags_def)

lemma perf_run_total: "\<exists>t. run_events perf_observer_update_roi perf_own es s = Inr t"
proof (induction es arbitrary: s)
  case (Cons e es)
  show ?case
  proof (cases e)
    case (Own o')
    with Cons show ?thesis by (cases o') auto
  qed (use Cons in auto)
qed simp

section \<open>Attribution\<close>

lemma perf_exclusive_frame:
  "perf_exclusive_sum (perf_exclusive r c) = perf_exclusive_sum c + 1"
  "cycle_count (perf_exclusive r c) = cycle_count c"
  by (simp_all add: perf_exclusive_def perf_exclusive_sum_def)

lemma perf_counting_frame:
  "perf_exclusive_sum (count_raw r c) = perf_exclusive_sum c" "cycle_count (count_raw r c) = cycle_count c"
  "perf_exclusive_sum (count_episodes r c) = perf_exclusive_sum c" "cycle_count (count_episodes r c) = cycle_count c"
  "perf_exclusive_sum (observe_branch r c) = perf_exclusive_sum c" "cycle_count (observe_branch r c) = cycle_count c"
  "perf_exclusive_sum (observe_timeline r c) = perf_exclusive_sum c" "cycle_count (observe_timeline r c) = cycle_count c"
  "perf_exclusive_sum (remember_previous r c) = perf_exclusive_sum c" "cycle_count (remember_previous r c) = cycle_count c"
  "perf_exclusive_sum (c\<lparr>cycle_count := n\<rparr>) = perf_exclusive_sum c"
  by (simp_all add: count_raw_def count_episodes_def observe_branch_def observe_timeline_def
      remember_previous_def perf_exclusive_sum_def)

lemmas perf_frames = perf_exclusive_frame perf_counting_frame

lemma perf_counts_after_tick:
  "perf_counts (perf_observer_sample_raw r (perf_observer_cycle s)) =
     (if perf_collecting s
      then perf_exclusive r (remember_previous r (observe_timeline r (observe_branch r (count_episodes r
             (count_raw r ((perf_counts s)\<lparr>cycle_count := cycle_count (perf_counts s) + 1\<rparr>))))))
      else perf_counts s)"
proof -
  have "perf_collecting (warmup_update r (perf_observer_cycle s)) = perf_collecting s"
    by (rule perf_collecting_control) (simp add: warmup_control perf_cycle_control)
  moreover have "perf_counts (warmup_update r (perf_observer_cycle s)) = (if perf_collecting s
      then (perf_counts s)\<lparr>cycle_count := cycle_count (perf_counts s) + 1\<rparr> else perf_counts s)"
    by (simp add: warmup_update_def perf_observer_cycle_def)
  ultimately show ?thesis by (simp add: perf_observer_sample_raw_def Let_def)
qed

lemma perf_tick_partition:
  "perf_exclusive_sum (perf_counts s) = cycle_count (perf_counts s) \<Longrightarrow>
   perf_exclusive_sum (perf_counts (perf_observer_sample_raw r (perf_observer_cycle s)))
     = cycle_count (perf_counts (perf_observer_sample_raw r (perf_observer_cycle s)))"
  by (simp add: perf_counts_after_tick perf_frames)

lemma perf_zero_partition: "perf_exclusive_sum perf_zero = cycle_count perf_zero"
  by (simp add: perf_zero_def perf_exclusive_sum_def)

lemma perf_run_partition:
  assumes "run_events perf_observer_update_roi perf_own es s = Inr t"
    and "perf_exclusive_sum (perf_counts s) = cycle_count (perf_counts s)"
  shows "perf_exclusive_sum (perf_counts t) = cycle_count (perf_counts t)"
  using assms
proof (induction es arbitrary: s)
  case (Cons e es)
  show ?case
  proof (cases e)
    case (Retire w pc)
    with Cons.prems have "perf_exclusive_sum (perf_counts (perf_observer_update_roi w pc s))
        = cycle_count (perf_counts (perf_observer_update_roi w pc s))"
      by (simp add: perf_observer_update_roi_def perf_reset_counts_def perf_zero_partition)
    with Retire Cons show ?thesis by simp
  next
    case (Own o')
    with Cons.prems have "\<exists>u. perf_own o' s = Inr u \<and>
        perf_exclusive_sum (perf_counts u) = cycle_count (perf_counts u)"
      by (cases o') (simp_all add: perf_tick_partition, simp add: perf_observer_sample_def perf_exclusive_sum_def)
    with Own Cons show ?thesis by auto
  qed
qed simp

lemma perf_init_partition:
  "perf_exclusive_sum (perf_counts s0) = cycle_count (perf_counts s0) \<Longrightarrow>
   perf_exclusive_sum (perf_counts (perf_observer_init env s0)) = cycle_count (perf_counts (perf_observer_init env s0))"
  by (simp add: perf_observer_init_def perf_reset_counts_def perf_zero_partition Let_def split: prod.splits)

section \<open>Predictor warm-up\<close>

definition warmup_inv :: "perf_state \<Rightarrow> bool" where
  "warmup_inv s \<longleftrightarrow>
     (perf_output_path s \<noteq> None \<and> perf_roi_requested s \<and> \<not> perf_roi_started s \<longrightarrow>
        \<not> perf_roi_active s \<and> cycle_count (perf_counts s) = 0) \<and>
     predictor_warmup_update_sequence s = of_nat (length (predictor_warmup_updates s)) \<and>
     (\<forall>i<length (predictor_warmup_updates s). pw_sequence (predictor_warmup_updates s ! i) = of_nat i
        \<and> pw_cycle (predictor_warmup_updates s ! i) = 0)"

lemma warmup_update_inv: "warmup_inv s \<Longrightarrow> warmup_inv (warmup_update r s)"
  by (auto simp: warmup_inv_def warmup_update_def nth_append less_Suc_eq)

lemma warmup_counts_update:
  assumes "warmup_inv s" "perf_collecting s"
  shows "warmup_inv (s\<lparr>perf_counts := c\<rparr>)"
  using assms by (auto simp: warmup_inv_def perf_collecting_def)

lemma perf_cycle_warmup_inv: "warmup_inv s \<Longrightarrow> warmup_inv (perf_observer_cycle s)"
  by (simp add: perf_observer_cycle_def warmup_counts_update)

lemma perf_own_warmup_inv:
  assumes "warmup_inv s" "perf_own e s = Inr t"
  shows "warmup_inv t"
proof (cases e)
  case (P_tick r)
  have "warmup_inv (warmup_update r (perf_observer_cycle s))"
    by (intro warmup_update_inv perf_cycle_warmup_inv assms(1))
  then have "warmup_inv (perf_observer_sample_raw r (perf_observer_cycle s))"
    by (simp add: perf_observer_sample_raw_def Let_def warmup_counts_update)
  with assms(2) P_tick show ?thesis by simp
next
  case (P_writeback w pc i x d)
  with assms show ?thesis by (auto simp: perf_observer_sample_def warmup_counts_update split: if_splits)
qed

lemma perf_update_warmup_inv: "warmup_inv s \<Longrightarrow> warmup_inv (perf_observer_update_roi w pc s)"
  by (auto simp: warmup_inv_def perf_observer_update_roi_def perf_reset_counts_def)

lemma perf_run_warmup_inv:
  "run_events perf_observer_update_roi perf_own es s = Inr t \<Longrightarrow> warmup_inv s \<Longrightarrow> warmup_inv t"
proof (induction es arbitrary: s)
  case (Cons e es)
  show ?case
  proof (cases e)
    case (Retire w pc)
    with Cons perf_update_warmup_inv [OF Cons.prems(2), of w pc] show ?thesis by simp
  next
    case (Own o')
    with Cons.prems obtain u where "perf_own o' s = Inr u" "run_events perf_observer_update_roi perf_own es u = Inr t"
      by (auto simp: bindR_Inr_iff)
    with Cons perf_own_warmup_inv show ?thesis by blast
  qed
qed simp

lemma perf_init_warmup_inv: "warmup_inv (perf_observer_init env perf_state_init)"
  by (simp add: perf_observer_init_def perf_state_init_def perf_reset_counts_def perf_zero_def warmup_inv_def
      Let_def split: prod.splits)

section \<open>A sample without events\<close>

definition raw_idle :: raw_sample where
  "raw_idle = \<lparr>r_branch_resolved = False, r_branch_direction_error = False, r_jalr_target_error = False,
     r_icache_miss = False, r_dcache_miss = False, r_icache_wait = False, r_dcache_memory_wait = False,
     r_load_use_stall = False, r_divider_wait = False, r_flush_event = False, r_flush_branch = False,
     r_flush_interrupt = False, r_dependency_stall = False, r_conditional_direction_recovery = False,
     r_jalr_target_recovery = False, r_other_recovery = False, r_conditional_branch_resolved = False,
     r_conditional_branch_pc = 0, r_conditional_branch_actual_taken = False,
     r_conditional_branch_predicted_taken = False, r_predictor_lookup_event = False,
     r_predictor_lookup_pc = 0, r_predictor_lookup_id = 0, r_predictor_lookup_valid = False,
     r_predictor_lookup_counter = 0, r_predictor_fetch_event = False, r_predictor_fetch_pc = 0,
     r_predictor_fetch_conditional = False, r_predictor_fetch_fallback_sign = False,
     r_predictor_fetch_predicted_taken = False, r_predictor_fetch_id = 0, r_predictor_update_event = False,
     r_predictor_update_pc = 0, r_predictor_update_actual_taken = False, r_predictor_update_id = 0\<rparr>"

definition roi_env :: environ where
  "roi_env = [''PERF_RAW_OUT'' \<mapsto> ''raw.json'', ''PERF_ROI_START_PC'' \<mapsto> dec 16,
     ''PERF_ROI_END_PC'' \<mapsto> dec 32]"

lemma roi_env_init:
  "perf_control (perf_observer_init roi_env perf_state_init)
     = (Some ''raw.json'', True, (False, False, False), (16, 32))"
  "predictor_warmup_updates (perf_observer_init roi_env perf_state_init) = []"
proof -
  have "strtoull0 (dec 16) = (16, [])" "strtoull0 (dec 32) = (32, [])" by (simp_all add: strtoull0_dec)
  then show "perf_control (perf_observer_init roi_env perf_state_init)
      = (Some ''raw.json'', True, (False, False, False), (16, 32))"
    "predictor_warmup_updates (perf_observer_init roi_env perf_state_init) = []"
    by (simp_all add: perf_observer_init_def perf_state_init_def perf_reset_counts_def roi_env_def
        perf_parse_u64_env_def perf_control_defs Let_def digits_of_nonempty [symmetric])
qed

lemma tick_warmup:
  assumes "perf_control s = (Some path, True, (a, False, e), m)" "r_predictor_update_event r"
  shows "perf_control (perf_observer_sample_raw r (perf_observer_cycle s)) = perf_control s"
    and "length (predictor_warmup_updates (perf_observer_sample_raw r (perf_observer_cycle s)))
      = Suc (length (predictor_warmup_updates s))"
proof -
  show "perf_control (perf_observer_sample_raw r (perf_observer_cycle s)) = perf_control s"
    by (simp add: raw_control perf_cycle_control)
  have "perf_control (perf_observer_cycle s) = (Some path, True, (a, False, e), m)"
    by (simp add: perf_cycle_control assms(1))
  moreover have "predictor_warmup_updates (perf_observer_cycle s) = predictor_warmup_updates s"
    by (simp add: perf_observer_cycle_def)
  ultimately show "length (predictor_warmup_updates (perf_observer_sample_raw r (perf_observer_cycle s)))
      = Suc (length (predictor_warmup_updates s))"
    using assms(2) by (simp add: perf_observer_sample_raw_def warmup_update_def perf_control_defs Let_def)
qed

section \<open>Properties\<close>

text \<open>
  C20. The exclusive attribution of the performance observer partitions the counted cycles for every
  environment and every sequence of events, so finalizing a run whose output can be opened never
  reports a mismatch: it returns 0, and the exit status in the report is the one passed in.
\<close>

theorem perf_cycles_partition:
  "\<exists>t. run_events perf_observer_update_roi perf_own es (perf_observer_init env perf_state_init) = Inr t
     \<and> perf_exclusive_sum (perf_counts t) = cycle_count (perf_counts t)
     \<and> perf_observer_finalize (\<lambda>_. True) t brn bflush st =
         (0, if perf_output_path t = None then None else Some (perf_report t brn bflush st))"
proof -
  obtain t where t: "run_events perf_observer_update_roi perf_own es (perf_observer_init env perf_state_init) = Inr t"
    using perf_run_total by blast
  have "perf_exclusive_sum (perf_counts t) = cycle_count (perf_counts t)"
    by (rule perf_run_partition [OF t perf_init_partition]) (simp add: perf_state_init_def perf_zero_partition)
  with t show ?thesis by (auto simp: perf_observer_finalize_def Let_def split: option.split)
qed

text \<open>
  The warm-up updates of the branch predictor are numbered \<open>0, 1, 2, ...\<close> in order, and the cycle
  recorded with each of them is always 0: no cycle is counted before the window opens, so the field
  carries no information.
\<close>

theorem perf_warmup_cycle_zero:
  assumes "run_events perf_observer_update_roi perf_own es (perf_observer_init env perf_state_init) = Inr t"
    and "i < length (predictor_warmup_updates t)"
  shows "pw_sequence (predictor_warmup_updates t ! i) = of_nat i
    \<and> pw_cycle (predictor_warmup_updates t ! i) = 0"
  using perf_run_warmup_inv [OF assms(1) perf_init_warmup_inv] assms(2) by (simp add: warmup_inv_def)

theorem perf_warmup_cycle_zero_witness:
  "\<exists>t. run_events perf_observer_update_roi perf_own
          [Own (P_tick (raw_idle\<lparr>r_predictor_update_event := True\<rparr>)),
           Own (P_tick (raw_idle\<lparr>r_predictor_update_event := True\<rparr>))]
          (perf_observer_init roi_env perf_state_init) = Inr t
     \<and> length (predictor_warmup_updates t) = 2
     \<and> pw_sequence (predictor_warmup_updates t ! 1) = 1 \<and> pw_cycle (predictor_warmup_updates t ! 1) = 0"
proof -
  let ?es = "[Own (P_tick (raw_idle\<lparr>r_predictor_update_event := True\<rparr>)),
           Own (P_tick (raw_idle\<lparr>r_predictor_update_event := True\<rparr>))]"
  let ?r = "raw_idle\<lparr>r_predictor_update_event := True\<rparr>"
  let ?s = "perf_observer_init roi_env perf_state_init"
  let ?u = "perf_observer_sample_raw ?r (perf_observer_cycle ?s)"
  let ?t = "perf_observer_sample_raw ?r (perf_observer_cycle ?u)"
  have t: "run_events perf_observer_update_roi perf_own ?es ?s = Inr ?t" by simp
  have u: "perf_control ?u = (Some ''raw.json'', True, (False, False, False), (16, 32))"
    "length (predictor_warmup_updates ?u) = 1"
    using tick_warmup [OF roi_env_init(1), of ?r] roi_env_init by simp_all
  have l: "length (predictor_warmup_updates ?t) = 2"
    using tick_warmup(2) [OF u(1), of ?r] u(2) by simp
  with perf_warmup_cycle_zero [OF t, of 1] have "pw_sequence (predictor_warmup_updates ?t ! 1) = 1
      \<and> pw_cycle (predictor_warmup_updates ?t ! 1) = 0" by simp
  with t l show ?thesis by blast
qed

end
