(* ===== verification/Json_Text.thy ===== *)
theory Json_Text
  imports Perf_Observer
begin

text \<open>
  Who reads the report of the attribution observer: its consumers decode the file as UTF-8 (RFC 3629) and
  then parse it as JSON (RFC 8259). Both are modelled as far as a string is concerned, and the property says
  which names survive \<open>write_json_string\<close> of \<open>src/models/attribution/monitor/perf_observer.cpp\<close>.
\<close>

section \<open>UTF-8\<close>

text \<open>The first character of a sequence of bytes and the bytes after it. The overlong forms, the surrogates and the
  values above 0x10FFFF are no characters.\<close>

definition cont_byte :: "nat \<Rightarrow> bool" where
  "cont_byte b \<longleftrightarrow> 0x80 \<le> b \<and> b < 0xC0"

fun conts :: "nat \<Rightarrow> nat \<Rightarrow> nat list \<Rightarrow> (nat \<times> nat list) option" where
  "conts 0 v bs = Some (v, bs)"
| "conts (Suc n) v [] = None"
| "conts (Suc n) v (c # r) = (if cont_byte c then conts n (v * 64 + (c - 0x80)) r else None)"

definition scalar_from :: "nat \<Rightarrow> (nat \<times> nat list) option \<Rightarrow> (nat \<times> nat list) option" where
  "scalar_from lo x = (case x of
      Some (v, r) \<Rightarrow> if lo \<le> v \<and> v < 0x110000 \<and> \<not> (0xD800 \<le> v \<and> v < 0xE000) then Some (v, r) else None
    | None \<Rightarrow> None)"

definition utf8_step :: "nat list \<Rightarrow> (nat \<times> nat list) option" where
  "utf8_step bs = (case bs of
      [] \<Rightarrow> None
    | b # r \<Rightarrow>
        if b < 0x80 then Some (b, r)
        else if 0xC0 \<le> b \<and> b < 0xE0 then scalar_from 0x80 (conts 1 (b - 0xC0) r)
        else if 0xE0 \<le> b \<and> b < 0xF0 then scalar_from 0x800 (conts 2 (b - 0xE0) r)
        else if 0xF0 \<le> b \<and> b < 0xF8 then scalar_from 0x10000 (conts 3 (b - 0xF0) r)
        else None)"

lemma conts_shorter: "conts n v bs = Some (c, r) \<Longrightarrow> length r \<le> length bs"
  by (induction n v bs rule: conts.induct) (auto split: if_splits)

lemma utf8_step_shorter: "utf8_step bs = Some (c, r) \<Longrightarrow> length r < length bs"
  by (auto simp: utf8_step_def scalar_from_def less_Suc_eq_le split: list.splits if_splits option.splits dest!: conts_shorter)

function utf8_decode :: "nat list \<Rightarrow> nat list option" where
  "utf8_decode bs =
     (if bs = [] then Some []
      else case utf8_step bs of None \<Rightarrow> None | Some (c, r) \<Rightarrow> map_option ((#) c) (utf8_decode r))"
  by pat_completeness auto
termination by (relation "measure length") (auto dest: utf8_step_shorter)

declare utf8_decode.simps [simp del]

section \<open>JSON strings\<close>

text \<open>A Unicode escape: four hexadecimal digits, and for the halves of a surrogate pair both of them.\<close>

definition hex_val :: "nat \<Rightarrow> nat option" where
  "hex_val c = (if 48 \<le> c \<and> c < 58 then Some (c - 48) else if 65 \<le> c \<and> c < 71 then Some (c - 55)
     else if 97 \<le> c \<and> c < 103 then Some (c - 87) else None)"

definition hex4 :: "nat list \<Rightarrow> (nat \<times> nat list) option" where
  "hex4 cs = (case cs of
      a # b # c # d # r \<Rightarrow>
        (case (hex_val a, hex_val b, hex_val c, hex_val d) of
           (Some i, Some j, Some k, Some l) \<Rightarrow> Some (((i * 16 + j) * 16 + k) * 16 + l, r)
         | _ \<Rightarrow> None)
    | _ \<Rightarrow> None)"

definition json_unicode :: "nat list \<Rightarrow> (nat \<times> nat list) option" where
  "json_unicode cs = (case hex4 cs of
      None \<Rightarrow> None
    | Some (h, r) \<Rightarrow>
        if h < 0xD800 \<or> 0xE000 \<le> h then Some (h, r)
        else (case r of
            x # y # r' \<Rightarrow>
              if x = 0x5C \<and> y = 0x75 \<and> h < 0xDC00 then
                (case hex4 r' of
                   Some (l, r'') \<Rightarrow>
                     if 0xDC00 \<le> l \<and> l < 0xE000 then Some (0x10000 + (h - 0xD800) * 0x400 + (l - 0xDC00), r'') else None
                 | None \<Rightarrow> None)
              else None
          | _ \<Rightarrow> None))"

text \<open>The character after a backslash.\<close>

definition json_escaped :: "nat list \<Rightarrow> (nat \<times> nat list) option" where
  "json_escaped cs = (case cs of
      [] \<Rightarrow> None
    | e # r \<Rightarrow>
        if e = 0x22 \<or> e = 0x5C \<or> e = 0x2F then Some (e, r)
        else if e = 0x62 then Some (0x08, r) else if e = 0x66 then Some (0x0C, r)
        else if e = 0x6E then Some (0x0A, r) else if e = 0x72 then Some (0x0D, r)
        else if e = 0x74 then Some (0x09, r) else if e = 0x75 then json_unicode r else None)"

lemma json_escaped_shorter: "json_escaped cs = Some (c, r) \<Longrightarrow> length r < length cs"
  by (auto simp: json_escaped_def json_unicode_def hex4_def split: list.splits if_splits option.splits)

text \<open>The characters of a string up to the closing quote; a control character has to be escaped.\<close>

function json_chars :: "nat list \<Rightarrow> (nat list \<times> nat list) option" where
  "json_chars [] = None"
| "json_chars (c # cs) =
     (if c = 0x22 then Some ([], cs)
      else if c = 0x5C then
        (case json_escaped cs of None \<Rightarrow> None | Some (d, r) \<Rightarrow> map_option (apfst ((#) d)) (json_chars r))
      else if c < 0x20 then None
      else map_option (apfst ((#) c)) (json_chars cs))"
  by pat_completeness auto
termination by (relation "measure length") (auto dest: json_escaped_shorter)

definition json_string :: "nat list \<Rightarrow> nat list option" where
  "json_string cs = (case cs of
      [] \<Rightarrow> None
    | q # r \<Rightarrow> if q = 0x22 then (case json_chars r of Some (v, []) \<Rightarrow> Some v | _ \<Rightarrow> None) else None)"

definition text_bytes :: "string \<Rightarrow> nat list" where
  "text_bytes = map of_char"

definition json_value :: "string \<Rightarrow> nat list option" where
  "json_value txt = Option.bind (utf8_decode (text_bytes txt)) json_string"

section \<open>What the consumers read\<close>

text \<open>The escaping of the report on bytes and on characters alike.\<close>

primrec esc :: "nat list \<Rightarrow> nat list" where
  "esc [] = []"
| "esc (c # cs) = (if c = 0x22 \<or> c = 0x5C then [0x5C, c] else [c]) @ esc cs"

lemma text_bytes_escape: "text_bytes (json_escape v) = esc (text_bytes v)"
proof -
  have "(of_char c :: nat) = of_char d \<longleftrightarrow> c = d" for c d by simp
  from this [of _ "CHR 0x22"] this [of _ "CHR 0x5C"]
  have "(of_char c :: nat) = 0x22 \<longleftrightarrow> c = CHR 0x22" "(of_char c :: nat) = 0x5C \<longleftrightarrow> c = CHR 0x5C" for c
    by (simp_all del: of_char_eq_iff)
  then show ?thesis by (induction v) (simp_all add: text_bytes_def)
qed

text \<open>A continuation byte is neither a quote nor a backslash, so escaping leaves the characters whole.\<close>

lemma conts_escape:
  "conts n v (esc bs @ [0x22]) = map_option (\<lambda>(c, r). (c, esc r @ [0x22])) (conts n v bs)"
proof (induction n v bs rule: conts.induct)
  case (3 n v c r)
  then show ?case by (auto simp: cont_byte_def)
qed (simp_all add: cont_byte_def)

lemma scalar_from_map:
  "scalar_from lo (map_option (\<lambda>(c, r). (c, f r)) x) = map_option (\<lambda>(c, r). (c, f r)) (scalar_from lo x)"
  by (auto simp: scalar_from_def split: option.splits)

lemma utf8_step_high:
  assumes "0x80 \<le> b"
  shows "utf8_step (b # esc bs @ [0x22]) = map_option (\<lambda>(c, r). (c, esc r @ [0x22])) (utf8_step (b # bs))"
  using assms by (simp add: utf8_step_def conts_escape scalar_from_map)

lemma utf8_decode_step:
  "utf8_step bs = Some (c, r) \<Longrightarrow> utf8_decode bs = map_option ((#) c) (utf8_decode r)"
  "utf8_step (b # bs) = None \<Longrightarrow> utf8_decode (b # bs) = None"
  by (subst utf8_decode.simps, auto simp: utf8_step_def split: list.splits)+

lemma utf8_decode_cons: "b < 0x80 \<Longrightarrow> utf8_decode (b # bs) = map_option ((#) b) (utf8_decode bs)"
  by (rule utf8_decode_step(1)) (simp add: utf8_step_def)

lemma utf8_step_value: "utf8_step (b # bs) = Some (c, r) \<Longrightarrow> 0x80 \<le> b \<Longrightarrow> 0x80 \<le> c"
  by (auto simp: utf8_step_def scalar_from_def split: if_splits option.splits)

lemma utf8_decode_escape: "utf8_decode (esc bs @ [0x22]) = map_option (\<lambda>u. esc u @ [0x22]) (utf8_decode bs)"
proof (induction bs rule: utf8_decode.induct)
  case (1 bs)
  show ?case
  proof (cases bs)
    case Nil
    then show ?thesis by (simp add: utf8_decode_cons) (simp add: utf8_decode.simps)
  next
    case (Cons b r)
    show ?thesis
    proof (cases "b < 0x80")
      case True
      with 1 [of "(b, r)" b r] Cons have "utf8_decode (esc r @ [0x22]) = map_option (\<lambda>u. esc u @ [0x22]) (utf8_decode r)"
        by (simp add: utf8_step_def)
      with True Cons show ?thesis by (simp add: utf8_decode_cons option.map_comp comp_def)
    next
      case False
      then have e: "esc bs @ [0x22] = b # esc r @ [0x22]" using Cons by simp
      show ?thesis
      proof (cases "utf8_step bs")
        case None
        with False Cons show ?thesis unfolding e by (simp add: utf8_decode_step(2) utf8_step_high)
      next
        case (Some x)
        obtain c q where x: "x = (c, q)" by (cases x)
        have "0x80 \<le> c" using utf8_step_value [of b r c q] Some x Cons False by simp
        moreover have "utf8_step (b # esc r @ [0x22]) = Some (c, esc q @ [0x22])"
          using utf8_step_high [of b r] Some x Cons False by simp
        ultimately show ?thesis unfolding e using 1 [OF _ Some x [symmetric]] Some x Cons
          by (simp add: utf8_decode_step(1) option.map_comp comp_def)
      qed
    qed
  qed
qed

lemma json_chars_escape: "json_chars (esc u @ [0x22]) = (if list_all (\<lambda>c. 0x20 \<le> c) u then Some (u, []) else None)"
  by (induction u) (auto simp: json_escaped_def)

text \<open>
  C34. Which names survive the report. The text that \<open>write_json_string\<close> writes for a name is a JSON string exactly
  when the name is well-formed UTF-8 without control characters, and its value is then the name, with its quotes
  and backslashes. Any control character, such as a newline or a tab, is written as it is and makes the report
  unreadable.
\<close>

theorem json_string_roundtrip:
  "json_value (write_json_string v) =
     Option.bind (utf8_decode (text_bytes v)) (\<lambda>u. if list_all (\<lambda>c. 0x20 \<le> c) u then Some u else None)"
proof -
  have "text_bytes (write_json_string v) = 0x22 # esc (text_bytes v) @ [0x22]"
    using text_bytes_escape [of v] by (simp add: write_json_string_def text_bytes_def)
  then have "utf8_decode (text_bytes (write_json_string v))
      = map_option (\<lambda>u. 0x22 # esc u @ [0x22]) (utf8_decode (text_bytes v))"
    by (simp add: utf8_decode_cons utf8_decode_escape option.map_comp comp_def)
  then show ?thesis
    by (cases "utf8_decode (text_bytes v)") (simp_all add: json_value_def json_string_def json_chars_escape)
qed

text \<open>A name with a quote and an accented letter is read back; a name with a newline is not.\<close>

lemma utf8_empty: "utf8_decode [] = Some []"
  by (subst utf8_decode.simps) simp

lemma json_string_examples:
  "json_value (write_json_string [CHR ''a'', CHR 0x22, CHR 0xC3, CHR 0xA9]) = Some [0x61, 0x22, 0xE9]"
  "json_value (write_json_string [CHR ''a'', CHR 0x0A]) = None"
  by (simp_all add: json_value_def json_string_def write_json_string_def text_bytes_def json_escaped_def utf8_decode_cons
      utf8_empty utf8_decode_step(1) [of "0xC3 # _"] utf8_step_def scalar_from_def cont_byte_def)

end
