(* ===== verification/Mmio.thy ===== *)
theory Mmio
  imports Prelude
begin

text \<open>
  The memory-mapped devices: the interface \<open>mmio_dev\<close> (\<open>src/sim/csrc/include/mmio_dev.hpp\<close>), the plain
  memory \<open>mmio_mem\<close> (\<open>mmio_mem.hpp\<close>), the UART \<open>uartlite\<close> (\<open>uartlite.hpp\<close>) and the address decoder
  \<open>axi4_xbar\<close> (\<open>axi4_xbar.hpp\<close>).

  Addresses and sizes are 64-bit and wrap as in the source; an access that the source would make
  outside an array is the fault \<open>Out_of_bounds\<close>. A read returns the bytes it puts in the buffer, or
  \<open>None\<close> for the result \<open>false\<close>. The mutexes guard against other threads and are left out.
\<close>

section \<open>Plain memory\<close>

record mmio_mem =
  mm_mem :: "u8 list"

definition mm_size :: "mmio_mem \<Rightarrow> u64" where
  "mm_size m = of_nat (length (mm_mem m))"

text \<open>The constructors: \<open>new\<close> leaves the bytes unspecified, here they are the argument.\<close>

definition mmio_mem_new :: "u8 list \<Rightarrow> mmio_mem" where
  "mmio_mem_new fresh = \<lparr>mm_mem = fresh\<rparr>"

definition mmio_mem_binary :: "u8 list \<Rightarrow> u8 list \<Rightarrow> mmio_mem res" where
  "mmio_mem_binary fresh init =
     (if length init \<le> length fresh then Inr \<lparr>mm_mem = splice_at fresh 0 init\<rparr> else Inl Assert_fail)"

definition mmio_mem_file :: "u8 list \<Rightarrow> u8 list \<Rightarrow> mmio_mem" where
  "mmio_mem_file fresh content = \<lparr>mm_mem = splice_at fresh 0 (take (length fresh) content)\<rparr>"

definition mem_do_read :: "u64 \<Rightarrow> u64 \<Rightarrow> mmio_mem \<Rightarrow> u8 list option res" where
  "mem_do_read start_addr sz m =
     (if start_addr + sz \<le> mm_size m then
        if unat start_addr + unat sz \<le> length (mm_mem m)
        then Inr (Some (slice (mm_mem m) (unat start_addr) (unat sz)))
        else Inl Out_of_bounds
      else Inr None)"

definition mem_do_write :: "u64 \<Rightarrow> u8 list \<Rightarrow> mmio_mem \<Rightarrow> (bool \<times> mmio_mem) res" where
  "mem_do_write start_addr buffer m =
     (if start_addr + of_nat (length buffer) \<le> mm_size m then
        if unat start_addr + length buffer \<le> length (mm_mem m)
        then Inr (True, m\<lparr>mm_mem := splice_at (mm_mem m) (unat start_addr) buffer\<rparr>)
        else Inl Out_of_bounds
      else Inr (False, m))"

section \<open>UART\<close>

definition SR_TX_FIFO_EMPTY :: u32 where "SR_TX_FIFO_EMPTY = 4"
definition SR_RX_FIFO_VALID_DATA :: u32 where "SR_RX_FIFO_VALID_DATA = 1"
definition ULITE_CONTROL_RST_TX :: u32 where "ULITE_CONTROL_RST_TX = 1"
definition ULITE_CONTROL_RST_RX :: u32 where "ULITE_CONTROL_RST_RX = 2"

text \<open>
  The registers are the 16 bytes of \<open>uartlite_regs\<close>: \<open>rx_fifo\<close>, \<open>tx_fifo\<close>, \<open>status\<close> and \<open>control\<close> at the
  offsets 0, 4, 8 and 12. The queues hold \<open>char\<close>s.
\<close>

record uartlite =
  u_regs :: "u8 list"
  u_rx :: "u8 list"
  u_tx :: "u8 list"
  wait_ack :: bool

definition bytes32 :: "u32 \<Rightarrow> u8 list" where
  "bytes32 v = map (byte_of (ucast v)) [0..<4]"

definition get32 :: "u8 list \<Rightarrow> nat \<Rightarrow> u32" where
  "get32 bs off = ucast (le_load (\<lambda>i. bs ! i) off 4)"

definition put32 :: "u8 list \<Rightarrow> nat \<Rightarrow> u32 \<Rightarrow> u8 list" where
  "put32 bs off v = splice_at bs off (bytes32 v)"

definition off_rx_fifo :: u64 where "off_rx_fifo = 0"
definition off_tx_fifo :: u64 where "off_tx_fifo = 4"
definition off_status :: u64 where "off_status = 8"
definition off_control :: u64 where "off_control = 12"

definition uart_init :: uartlite where
  "uart_init = \<lparr>u_regs = put32 (replicate 16 0) 8 SR_TX_FIFO_EMPTY, u_rx = [], u_tx = [], wait_ack = False\<rparr>"

text \<open>The test by which an access is taken to concern the register at an offset.\<close>

definition touches :: "u64 \<Rightarrow> u64 \<Rightarrow> u64 \<Rightarrow> bool" where
  "touches start_addr sz off \<longleftrightarrow> start_addr \<le> off \<and> off \<le> start_addr + sz"

definition uart_refresh :: "uartlite \<Rightarrow> uartlite" where
  "uart_refresh u =
     (case u_rx u of
        c # _ \<Rightarrow> u\<lparr>u_regs := put32 (put32 (u_regs u) 8 (get32 (u_regs u) 8 OR SR_RX_FIFO_VALID_DATA)) 0 (scast c)\<rparr>
      | [] \<Rightarrow> u\<lparr>u_regs := put32 (u_regs u) 8 (get32 (u_regs u) 8 AND NOT SR_RX_FIFO_VALID_DATA)\<rparr>)"

definition uart_do_read :: "u64 \<Rightarrow> u64 \<Rightarrow> uartlite \<Rightarrow> (u8 list option \<times> uartlite) res" where
  "uart_do_read start_addr sz u0 =
     (if start_addr + sz > 16 then Inr (None, u0)
      else
        let u = uart_refresh u0; n = min sz (16 - start_addr) in
        if unat start_addr + unat n > 16 then Inl Out_of_bounds
        else
          let buffer = slice (u_regs u) (unat start_addr) (unat n);
              u = u\<lparr>wait_ack := False\<rparr>
          in Inr (Some buffer,
                  if touches start_addr sz off_rx_fifo then u\<lparr>u_rx := tl (u_rx u)\<rparr> else u))"

definition uart_do_write :: "u64 \<Rightarrow> u8 list \<Rightarrow> uartlite \<Rightarrow> (bool \<times> uartlite) res" where
  "uart_do_write start_addr buffer u0 =
     (let sz = of_nat (length buffer) in
      if start_addr + sz > 16 then Inr (False, u0)
      else
        let n = min sz (16 - start_addr) in
        if unat start_addr + unat n > 16 then Inl Out_of_bounds
        else
          let u = u0\<lparr>u_regs := splice_at (u_regs u0) (unat start_addr) (take (unat n) buffer)\<rparr>;
              u = (if touches start_addr sz off_tx_fifo
                   then u\<lparr>u_tx := u_tx u @ [ucast (get32 (u_regs u) 4)]\<rparr> else u);
              ctrl = get32 (u_regs u) 12;
              u = (if touches start_addr sz off_control \<and> ctrl AND ULITE_CONTROL_RST_TX \<noteq> 0
                   then u\<lparr>u_tx := []\<rparr> else u);
              u = (if touches start_addr sz off_control \<and> ctrl AND ULITE_CONTROL_RST_RX \<noteq> 0
                   then u\<lparr>u_rx := []\<rparr> else u)
          in Inr (True, u))"

definition uart_putc :: "u8 \<Rightarrow> uartlite \<Rightarrow> uartlite" where
  "uart_putc c u = u\<lparr>u_rx := u_rx u @ [c]\<rparr>"

text \<open>\<open>EOF\<close> converted to \<open>char\<close> is -1.\<close>

definition uart_getc :: "uartlite \<Rightarrow> u8 \<times> uartlite" where
  "uart_getc u =
     (case u_tx u of
        c # cs \<Rightarrow> (c, u\<lparr>u_tx := cs, wait_ack := (if cs = [] then True else wait_ack u)\<rparr>)
      | [] \<Rightarrow> (- 1, u))"

definition exist_tx :: "uartlite \<Rightarrow> bool" where
  "exist_tx u \<longleftrightarrow> u_tx u \<noteq> []"

definition uart_irq :: "uartlite \<Rightarrow> bool" where
  "uart_irq u \<longleftrightarrow> u_rx u \<noteq> [] \<or> wait_ack u"

section \<open>Devices behind the interface\<close>

datatype dev = Dev_mem mmio_mem | Dev_uart uartlite

fun dev_do_read :: "u64 \<Rightarrow> u64 \<Rightarrow> dev \<Rightarrow> (u8 list option \<times> dev) res" where
  "dev_do_read a n (Dev_mem m) = bindR (mem_do_read a n m) (\<lambda>r. Inr (r, Dev_mem m))"
| "dev_do_read a n (Dev_uart u) = bindR (uart_do_read a n u) (\<lambda>(r, u). Inr (r, Dev_uart u))"

fun dev_do_write :: "u64 \<Rightarrow> u8 list \<Rightarrow> dev \<Rightarrow> (bool \<times> dev) res" where
  "dev_do_write a b (Dev_mem m) = bindR (mem_do_write a b m) (\<lambda>(r, m). Inr (r, Dev_mem m))"
| "dev_do_write a b (Dev_uart u) = bindR (uart_do_write a b u) (\<lambda>(r, u). Inr (r, Dev_uart u))"

section \<open>The address decoder\<close>

datatype axi_resp = RESP_OKEY | RESP_EXOKEY | RESP_SLVERR | RESP_DECERR

text \<open>
  \<open>devices\<close> is a \<open>std::map\<close> from ranges to device pointers: a list sorted by its keys, the devices
  themselves are the array \<open>xb_devs\<close>.
\<close>

type_synonym range = "u64 \<times> u64"

record xbar =
  xb_devices :: "(range \<times> nat) list"
  xb_devs :: "dev list"

definition range_less :: "range \<Rightarrow> range \<Rightarrow> bool" where
  "range_less r s \<longleftrightarrow> fst r < fst s \<or> fst r = fst s \<and> snd r < snd s"

text \<open>\<open>upper_bound\<close>: the entries up to the key, and those after it.\<close>

definition split_upper :: "range \<Rightarrow> (range \<times> nat) list \<Rightarrow> (range \<times> nat) list \<times> (range \<times> nat) list" where
  "split_upper k ds = (takeWhile (\<lambda>d. \<not> range_less k (fst d)) ds, dropWhile (\<lambda>d. \<not> range_less k (fst d)) ds)"

definition overlaps :: "range \<Rightarrow> range \<Rightarrow> bool" where
  "overlaps r s \<longleftrightarrow> max (fst r) (fst s) < min (snd r) (snd s)"

text \<open>
  An entry with the very same key would be overwritten; it can only survive the overlap test when the
  range is empty after wrap-around.
\<close>

definition add_dev :: "u64 \<Rightarrow> u64 \<Rightarrow> nat \<Rightarrow> xbar \<Rightarrow> (bool \<times> xbar) res" where
  "add_dev start_addr len p x =
     (if len = 0 then Inl Div_trap
      else if start_addr mod len \<noteq> 0 then Inr (False, x)
      else
        let r = (start_addr, start_addr + len); (before, after) = split_upper r (xb_devices x) in
        if after \<noteq> [] \<and> overlaps (fst (hd after)) r then Inr (False, x)
        else if before \<noteq> [] \<and> overlaps (fst (last before)) r then Inr (False, x)
        else Inr (True, x\<lparr>xb_devices := filter (\<lambda>d. fst d \<noteq> r) before @ (r, p) # after\<rparr>))"

definition xbar_select :: "u64 \<Rightarrow> u64 \<Rightarrow> xbar \<Rightarrow> (range \<times> nat) option" where
  "xbar_select start_addr sz x =
     (let before = fst (split_upper (start_addr, - 1) (xb_devices x)) in
      if before = [] then None
      else
        let d = last before; end_addr = start_addr + sz in
        if fst (fst d) \<le> start_addr \<and> end_addr \<le> snd (fst d) then Some d else None)"

definition xbar_do_read :: "u64 \<Rightarrow> u64 \<Rightarrow> xbar \<Rightarrow> (axi_resp \<times> u8 list option \<times> xbar) res" where
  "xbar_do_read start_addr sz x =
     (case xbar_select start_addr sz x of
        None \<Rightarrow> Inr (RESP_DECERR, None, x)
      | Some ((lo, hi), p) \<Rightarrow>
          bindR (dev_do_read (start_addr mod (hi - lo)) sz (xb_devs x ! p)) (\<lambda>(r, d).
            Inr (if r \<noteq> None then RESP_OKEY else RESP_SLVERR, r, x\<lparr>xb_devs := (xb_devs x)[p := d]\<rparr>)))"

definition xbar_do_write :: "u64 \<Rightarrow> u8 list \<Rightarrow> xbar \<Rightarrow> (axi_resp \<times> xbar) res" where
  "xbar_do_write start_addr buffer x =
     (case xbar_select start_addr (of_nat (length buffer)) x of
        None \<Rightarrow> Inr (RESP_DECERR, x)
      | Some ((lo, hi), p) \<Rightarrow>
          bindR (dev_do_write (start_addr mod (hi - lo)) buffer (xb_devs x ! p)) (\<lambda>(ok, d).
            Inr (if ok then RESP_OKEY else RESP_SLVERR, x\<lparr>xb_devs := (xb_devs x)[p := d]\<rparr>)))"

section \<open>Lemmas on memory\<close>

lemma add_le_of_nat:
  assumes "n < 2 ^ 64" "k < 2 ^ 64"
  shows "(a :: u64) + of_nat n \<le> of_nat k \<longleftrightarrow>
    (if unat a + n < 2 ^ 64 then unat a + n \<le> k else unat a + n - 2 ^ 64 \<le> k)"
proof -
  have k: "unat (of_nat k :: u64) = k" and n: "unat (of_nat n :: u64) = n"
    using assms by (simp_all add: unat_of_nat_small)
  have a: "unat a < 2 ^ 64" using unsigned_less [of a, where 'a = nat] by simp
  have "unat (a + of_nat n) = (unat a + n) mod 2 ^ 64" by (simp add: unat_word_ariths n)
  also have "\<dots> = (if unat a + n < 2 ^ 64 then unat a + n else unat a + n - 2 ^ 64)"
    using a assms(1) by (simp add: mod_if [of "unat a + n"])
  finally show ?thesis by (simp add: word_le_nat_alt k)
qed

section \<open>Lemmas on the decoder\<close>

definition xbar_wf :: "xbar \<Rightarrow> bool" where
  "xbar_wf x \<longleftrightarrow> sorted_wrt (\<lambda>d e. snd (fst d) \<le> fst (fst e)) (xb_devices x) \<and>
     (\<forall>d\<in>set (xb_devices x). fst (fst d) < snd (fst d) \<and> fst (fst d) mod (snd (fst d) - fst (fst d)) = 0)"

lemma sorted_wrt_split:
  assumes "sorted_wrt R xs" "\<And>x y. x \<in> set xs \<Longrightarrow> y \<in> set xs \<Longrightarrow> R x y \<Longrightarrow> P y \<Longrightarrow> P x"
  shows "takeWhile P xs = filter P xs \<and> dropWhile P xs = filter (\<lambda>x. \<not> P x) xs"
  using assms
proof (induction xs)
  case (Cons x xs)
  show ?case
  proof (cases "P x")
    case True
    with Cons show ?thesis by auto
  next
    case False
    with Cons.prems have "\<forall>y\<in>set xs. \<not> P y" by auto
    with False show ?thesis by (auto simp: filter_empty_conv filter_id_conv)
  qed
qed simp

lemma split_upper_filter:
  assumes "xbar_wf x"
  shows "split_upper k (xb_devices x) =
    (filter (\<lambda>d. \<not> range_less k (fst d)) (xb_devices x), filter (\<lambda>d. range_less k (fst d)) (xb_devices x))"
proof -
  have "takeWhile (\<lambda>d. \<not> range_less k (fst d)) (xb_devices x) = filter (\<lambda>d. \<not> range_less k (fst d)) (xb_devices x)
    \<and> dropWhile (\<lambda>d. \<not> range_less k (fst d)) (xb_devices x)
      = filter (\<lambda>d. \<not> \<not> range_less k (fst d)) (xb_devices x)"
  proof (rule sorted_wrt_split)
    show "sorted_wrt (\<lambda>d e. snd (fst d) \<le> fst (fst e)) (xb_devices x)" using assms by (simp add: xbar_wf_def)
    fix d e
    assume "d \<in> set (xb_devices x)" "e \<in> set (xb_devices x)" "snd (fst d) \<le> fst (fst e)" "\<not> range_less k (fst e)"
    with assms show "\<not> range_less k (fst d)" by (fastforce simp: xbar_wf_def range_less_def)
  qed
  then show ?thesis by (simp add: split_upper_def)
qed

lemma sorted_wrt_last:
  "sorted_wrt R xs \<Longrightarrow> x \<in> set xs \<Longrightarrow> x = last xs \<or> R x (last xs)"
  by (induction xs) auto

lemma sorted_wrt_hd:
  "sorted_wrt R xs \<Longrightarrow> x \<in> set xs \<Longrightarrow> x = hd xs \<or> R (hd xs) x"
  by (cases xs) auto

lemma xbar_before:
  assumes "xbar_wf x" "a < b" "\<not> (before \<noteq> [] \<and> overlaps (fst (last before)) (a, b))"
    and "before = filter (\<lambda>d. \<not> range_less (a, b) (fst d)) (xb_devices x)"
  shows "\<forall>d\<in>set before. snd (fst d) \<le> a"
proof
  fix d
  assume d: "d \<in> set before"
  then have ne: "before \<noteq> []" by auto
  have l: "last before \<in> set (xb_devices x)" "\<not> range_less (a, b) (fst (last before))"
    using last_in_set [OF ne] assms(4) by auto
  then have "snd (fst (last before)) \<le> a"
    using assms(1-3) ne by (auto simp: overlaps_def range_less_def not_less xbar_wf_def max_def min_def split: if_splits)
  moreover have "d = last before \<or> snd (fst d) \<le> fst (fst (last before))"
    using sorted_wrt_last [of "\<lambda>d e. snd (fst d) \<le> fst (fst e)" before d] d assms(1,4)
    by (auto simp: xbar_wf_def sorted_wrt_filter)
  moreover have "fst (fst (last before)) < snd (fst (last before))" using l(1) assms(1) by (simp add: xbar_wf_def)
  ultimately show "snd (fst d) \<le> a" by auto
qed

lemma xbar_after:
  assumes "xbar_wf x" "a < b" "\<not> (after \<noteq> [] \<and> overlaps (fst (hd after)) (a, b))"
    and "after = filter (\<lambda>d. range_less (a, b) (fst d)) (xb_devices x)"
  shows "\<forall>d\<in>set after. b \<le> fst (fst d)"
proof
  fix d
  assume d: "d \<in> set after"
  then have ne: "after \<noteq> []" by auto
  have h: "hd after \<in> set (xb_devices x)" "range_less (a, b) (fst (hd after))"
    using hd_in_set [OF ne] assms(4) by auto
  then have lo: "b \<le> fst (fst (hd after))"
    using assms(1-3) ne by (auto simp: overlaps_def range_less_def not_less xbar_wf_def max_def min_def split: if_splits)
  moreover have "d = hd after \<or> snd (fst (hd after)) \<le> fst (fst d)"
    using sorted_wrt_hd [of "\<lambda>d e. snd (fst d) \<le> fst (fst e)" after d] d assms(1,4)
    by (auto simp: xbar_wf_def sorted_wrt_filter)
  moreover have "fst (fst (hd after)) < snd (fst (hd after))" using h(1) assms(1) by (simp add: xbar_wf_def)
  ultimately show "b \<le> fst (fst d)" by auto
qed

lemma overlaps_sym: "overlaps r s = overlaps s r"
  by (simp add: overlaps_def max.commute min.commute)

lemma add_dev_split:
  assumes "split_upper (a, a + len) (xb_devices x) = (before, after)" "len \<noteq> 0" "a mod len = 0"
  shows "add_dev a len p x =
    (if after \<noteq> [] \<and> overlaps (fst (hd after)) (a, a + len) \<or> before \<noteq> [] \<and> overlaps (fst (last before)) (a, a + len)
     then Inr (False, x)
     else Inr (True, x\<lparr>xb_devices := filter (\<lambda>d. fst d \<noteq> (a, a + len)) before @ ((a, a + len), p) # after\<rparr>))"
  using assms by (simp add: add_dev_def Let_def)

text \<open>The two neighbours decide: the new range overlaps a device exactly when it overlaps one of them.\<close>

text \<open>A range between the ones below and the ones above it is inserted in order.\<close>

lemma xbar_insert:
  assumes "xbar_wf x" "a < a + len" "len \<noteq> 0" "a mod len = 0" "(a + len) - a = len"
  defines "B \<equiv> \<lambda>r. filter (\<lambda>d. \<not> range_less r (fst d)) (xb_devices x)"
    and "A \<equiv> \<lambda>r. filter (\<lambda>d. range_less r (fst d)) (xb_devices x)"
  assumes "\<forall>d\<in>set (A r). a + len \<le> fst (fst d)" "\<forall>d\<in>set (B r). snd (fst d) \<le> a"
  shows "filter (\<lambda>d. fst d \<noteq> (a, a + len)) (B r) = B r" "xbar_wf (x\<lparr>xb_devices := B r @ ((a, a + len), p) # A r\<rparr>)"
proof -
  have "fst d \<noteq> (a, a + len)" if "d \<in> set (B r)" for d
  proof -
    have "snd (fst d) \<le> a" using assms(9) that by blast
    with assms(2) show ?thesis by auto
  qed
  then show "filter (\<lambda>d. fst d \<noteq> (a, a + len)) (B r) = B r" by (intro filter_True) blast
  have srt: "sorted_wrt (\<lambda>d e. snd (fst d) \<le> fst (fst e)) (A r)" "sorted_wrt (\<lambda>d e. snd (fst d) \<le> fst (fst e)) (B r)"
    using assms(1) by (auto simp: xbar_wf_def sorted_wrt_filter A_def B_def)
  have cross: "\<forall>d\<in>set (B r). \<forall>e\<in>set (A r). snd (fst d) \<le> fst (fst e)"
    using assms(2,8,9) by (meson order.trans less_imp_le)
  have sub: "set (A r) \<subseteq> set (xb_devices x)" "set (B r) \<subseteq> set (xb_devices x)" by (auto simp: A_def B_def)
  have "sorted_wrt (\<lambda>d e. snd (fst d) \<le> fst (fst e)) (B r @ ((a, a + len), p) # A r)"
    using srt cross assms(8,9) by (simp add: sorted_wrt_append)
  then show "xbar_wf (x\<lparr>xb_devices := B r @ ((a, a + len), p) # A r\<rparr>)"
    using assms(1-5) sub unfolding xbar_wf_def by auto
qed

lemma add_dev_wf:
  assumes "xbar_wf x" "0 < len" "unat a + unat len < 2 ^ 64" "a mod len = 0"
  defines "r \<equiv> (a, a + len)"
  shows "if \<exists>d\<in>set (xb_devices x). overlaps (fst d) r then add_dev a len p x = Inr (False, x)
    else \<exists>x'. add_dev a len p x = Inr (True, x') \<and> xbar_wf x' \<and> xb_devs x' = xb_devs x
           \<and> set (xb_devices x') = insert (r, p) (set (xb_devices x))"
proof -
  let ?B = "filter (\<lambda>d. \<not> range_less r (fst d)) (xb_devices x)"
  let ?A = "filter (\<lambda>d. range_less r (fst d)) (xb_devices x)"
  have u: "unat (a + len) = unat a + unat len" using assms(3) by (simp add: unat_word_ariths)
  have ab: "a < a + len" using assms(2) u by (simp add: word_less_nat_alt)
  have len: "len \<noteq> 0" "a mod len = 0" "(a + len) - a = len" using assms(2,4) by auto
  define bad where "bad \<longleftrightarrow> (?A \<noteq> [] \<and> overlaps (fst (hd ?A)) r) \<or> (?B \<noteq> [] \<and> overlaps (fst (last ?B)) r)"
  have add: "add_dev a len p x =
      (if bad then Inr (False, x)
       else Inr (True, x\<lparr>xb_devices := filter (\<lambda>d. fst d \<noteq> r) ?B @ (r, p) # ?A\<rparr>))"
    unfolding bad_def r_def
    by (rule add_dev_split [OF split_upper_filter [OF assms(1)] len(1,2)])
  show ?thesis
  proof (cases bad)
    case True
    have "?A \<noteq> [] \<Longrightarrow> hd ?A \<in> set (xb_devices x)" "?B \<noteq> [] \<Longrightarrow> last ?B \<in> set (xb_devices x)"
      using hd_in_set [of ?A] last_in_set [of ?B] filter_is_subset [of _ "xb_devices x"] by blast+
    with True have "\<exists>d\<in>set (xb_devices x). overlaps (fst d) r" unfolding bad_def by blast
    with True add show ?thesis by simp
  next
    case False
    have A: "\<forall>d\<in>set ?A. a + len \<le> fst (fst d)" and B: "\<forall>d\<in>set ?B. snd (fst d) \<le> a"
      using xbar_after [OF assms(1) ab _ refl] xbar_before [OF assms(1) ab _ refl] False
      by (auto simp: bad_def r_def)
    have in_or: "d \<in> set (xb_devices x) \<Longrightarrow> d \<in> set ?A \<or> d \<in> set ?B" for d by auto
    have no: "\<not> overlaps (fst d) r" if "d \<in> set (xb_devices x)" for d
    proof -
      have "a + len \<le> fst (fst d) \<or> snd (fst d) \<le> a" using in_or [OF that] A B by blast
      then show ?thesis by (auto simp: overlaps_def r_def)
    qed
    let ?x = "x\<lparr>xb_devices := ?B @ (r, p) # ?A\<rparr>"
    note ins = xbar_insert [OF assms(1) ab len(1-3) A B]
    have keep: "filter (\<lambda>d. fst d \<noteq> r) ?B = ?B" unfolding r_def by (rule ins(1) [unfolded r_def])
    have "xbar_wf ?x" unfolding r_def by (rule ins(2) [unfolded r_def])
    moreover have "set (xb_devices ?x) = insert (r, p) (set (xb_devices x))" by auto
    moreover have "add_dev a len p x = Inr (True, ?x)" unfolding add keep using False by simp
    ultimately show ?thesis using no by auto
  qed
qed

lemma xbar_select_hit:
  assumes "xbar_wf x" "((lo, hi), p) \<in> set (xb_devices x)" "lo \<le> a" "unat a + unat n \<le> unat hi" "0 < n"
  shows "xbar_select a n x = Some ((lo, hi), p)"
proof -
  let ?B = "filter (\<lambda>d. \<not> range_less (a, - 1) (fst d)) (xb_devices x)"
  have d: "((lo, hi), p) \<in> set ?B" using assms(2,3) by (auto simp: range_less_def)
  then have ne: "?B \<noteq> []" by (metis empty_iff list.set(1))
  have n0: "0 < unat n" using assms(5) by (simp add: word_less_nat_alt)
  have "last ?B = ((lo, hi), p)"
  proof (rule ccontr)
    assume ne': "last ?B \<noteq> ((lo, hi), p)"
    have "((lo, hi), p) = last ?B \<or> hi \<le> fst (fst (last ?B))"
      using sorted_wrt_last [of "\<lambda>d e. snd (fst d) \<le> fst (fst e)" ?B "((lo, hi), p)"] d assms(1)
      by (simp add: xbar_wf_def sorted_wrt_filter)
    with ne' have "hi \<le> fst (fst (last ?B))" by auto
    moreover have "fst (fst (last ?B)) \<le> a" using last_in_set [OF ne] by (auto simp: range_less_def)
    ultimately have "unat hi \<le> unat a" by (simp add: word_le_nat_alt)
    with assms(4) n0 show False by simp
  qed
  moreover have "a + n \<le> hi"
  proof -
    have "unat hi < 2 ^ 64" using unsigned_less [of hi, where 'a = nat] by simp
    then have "unat (a + n) = unat a + unat n" using assms(4) by (simp add: unat_word_ariths)
    with assms(4) show ?thesis by (simp add: word_le_nat_alt)
  qed
  ultimately show ?thesis
    using ne assms(3) by (simp add: xbar_select_def split_upper_filter [OF assms(1)] Let_def)
qed

lemma xbar_offset:
  assumes "(lo :: u64) mod (hi - lo) = 0" "lo \<le> a" "a < hi"
  shows "a mod (hi - lo) = a - lo"
proof -
  have d: "unat (hi - lo) = unat hi - unat lo" "unat (a - lo) = unat a - unat lo"
    using assms(2,3) by (simp_all add: unat_sub less_imp_le order.trans [OF _ less_imp_le])
  have lt: "unat (a - lo) < unat (hi - lo)"
    using d assms(2,3) by (simp add: word_le_nat_alt word_less_nat_alt)
  have "unat lo mod unat (hi - lo) = 0" using assms(1) by (metis unat_0 unat_mod_distrib)
  then obtain k where k: "unat lo = unat (hi - lo) * k" by (auto elim: dvdE simp: mod_eq_0_iff_dvd)
  have "unat (a mod (hi - lo)) = unat a mod unat (hi - lo)" by (simp add: unat_mod_distrib)
  also have "\<dots> = (unat (a - lo) + unat (hi - lo) * k) mod unat (hi - lo)"
    using k d(2) assms(2) by (simp add: word_le_nat_alt)
  also have "\<dots> = unat (a - lo)"
    using lt by simp
  finally show ?thesis by (simp add: word_unat_eq_iff)
qed

section \<open>The device interface\<close>

text \<open>
  What the decoder relies on: a device of \<open>cap d\<close> bytes answers an access inside it with that many
  bytes, refuses one that ends beyond it without any change, and keeps its capacity. Accesses that wrap
  around the address space are outside the contract.
\<close>

locale mmio_device =
  fixes do_read :: "u64 \<Rightarrow> u64 \<Rightarrow> 'd \<Rightarrow> (u8 list option \<times> 'd) res"
    and do_write :: "u64 \<Rightarrow> u8 list \<Rightarrow> 'd \<Rightarrow> (bool \<times> 'd) res"
    and cap :: "'d \<Rightarrow> nat"
    and ok :: "'d \<Rightarrow> bool"
  assumes read_in: "\<lbrakk>ok d; unat a + unat n \<le> cap d\<rbrakk> \<Longrightarrow>
      \<exists>bs d'. do_read a n d = Inr (Some bs, d') \<and> length bs = unat n \<and> ok d' \<and> cap d' = cap d"
    and read_out: "\<lbrakk>ok d; cap d < unat a + unat n; unat a + unat n < 2 ^ 64\<rbrakk> \<Longrightarrow> do_read a n d = Inr (None, d)"
    and write_in: "\<lbrakk>ok d; unat a + length b \<le> cap d\<rbrakk> \<Longrightarrow>
      \<exists>d'. do_write a b d = Inr (True, d') \<and> ok d' \<and> cap d' = cap d"
    and write_out: "\<lbrakk>ok d; cap d < unat a + length b; unat a + length b < 2 ^ 64\<rbrakk> \<Longrightarrow> do_write a b d = Inr (False, d)"
begin

lemma read_outcome:
  assumes "ok d" "unat a + unat n < 2 ^ 64"
  obtains r d' where "do_read a n d = Inr (r, d')" "ok d'" "cap d' = cap d"
    "r \<noteq> None \<longleftrightarrow> unat a + unat n \<le> cap d" "\<forall>bs. r = Some bs \<longrightarrow> length bs = unat n"
proof (cases "unat a + unat n \<le> cap d")
  case True
  with read_in [OF assms(1) True] show ?thesis by (auto intro: that)
next
  case False
  with read_out [of d a n] assms show ?thesis by (intro that [of None d]) auto
qed

lemma write_outcome:
  assumes "ok d" "unat a + length b < 2 ^ 64"
  obtains d' where "do_write a b d = Inr (unat a + length b \<le> cap d, d')" "ok d'" "cap d' = cap d"
proof (cases "unat a + length b \<le> cap d")
  case True
  with write_in [OF assms(1) True] show ?thesis by (auto intro: that)
next
  case False
  with write_out [of d a b] assms show ?thesis by (intro that [of d]) auto
qed

end

lemma mem_do_read_table:
  assumes "length (mm_mem m) < 2 ^ 64"
  shows "mem_do_read a n m =
    (if unat a + unat n \<le> length (mm_mem m) then Inr (Some (slice (mm_mem m) (unat a) (unat n)))
     else if unat a + unat n < 2 ^ 64 \<or> length (mm_mem m) < unat a + unat n - 2 ^ 64 then Inr None
     else Inl Out_of_bounds)"
proof -
  have n: "unat n < 2 ^ 64" using unsigned_less [of n, where 'a = nat] by simp
  have "a + n \<le> mm_size m \<longleftrightarrow> a + of_nat (unat n) \<le> of_nat (length (mm_mem m))" by (simp add: mm_size_def)
  then have "a + n \<le> mm_size m \<longleftrightarrow> (if unat a + unat n < 2 ^ 64 then unat a + unat n \<le> length (mm_mem m)
      else unat a + unat n - 2 ^ 64 \<le> length (mm_mem m))"
    by (simp only: add_le_of_nat [OF n assms])
  with assms show ?thesis by (auto simp: mem_do_read_def)
qed

lemma mem_do_write_table:
  assumes "length (mm_mem m) < 2 ^ 64" "length b < 2 ^ 64"
  shows "mem_do_write a b m =
    (if unat a + length b \<le> length (mm_mem m)
     then Inr (True, m\<lparr>mm_mem := splice_at (mm_mem m) (unat a) b\<rparr>)
     else if unat a + length b < 2 ^ 64 \<or> length (mm_mem m) < unat a + length b - 2 ^ 64 then Inr (False, m)
     else Inl Out_of_bounds)"
proof -
  have "a + of_nat (length b) \<le> mm_size m \<longleftrightarrow> (if unat a + length b < 2 ^ 64 then unat a + length b \<le> length (mm_mem m)
      else unat a + length b - 2 ^ 64 \<le> length (mm_mem m))"
    unfolding mm_size_def by (rule add_le_of_nat [OF assms(2,1)])
  with assms show ?thesis by (auto simp: mem_do_write_def)
qed

definition mem_ok :: "mmio_mem \<Rightarrow> bool" where
  "mem_ok m \<longleftrightarrow> length (mm_mem m) < 2 ^ 64"

definition mem_cap :: "mmio_mem \<Rightarrow> nat" where
  "mem_cap m = length (mm_mem m)"

interpretation mmem: mmio_device "\<lambda>a n m. bindR (mem_do_read a n m) (\<lambda>r. Inr (r, m))" mem_do_write mem_cap mem_ok
proof unfold_locales
  fix m :: mmio_mem and a n :: u64 and b :: "u8 list"
  assume m: "mem_ok m"
  then have l: "length (mm_mem m) < 2 ^ 64" by (simp add: mem_ok_def)
  note r = mem_do_read_table [OF l, of a n]
  show "\<exists>bs d'. bindR (mem_do_read a n m) (\<lambda>r. Inr (r, m)) = Inr (Some bs, d') \<and> length bs = unat n \<and> mem_ok d' \<and> mem_cap d' = mem_cap m"
    if "unat a + unat n \<le> mem_cap m" using that m by (simp add: r mem_cap_def splice_simps)
  show "bindR (mem_do_read a n m) (\<lambda>r. Inr (r, m)) = Inr (None, m)"
    if "mem_cap m < unat a + unat n" "unat a + unat n < 2 ^ 64" using that by (simp add: r mem_cap_def)
  show "\<exists>d'. mem_do_write a b m = Inr (True, d') \<and> mem_ok d' \<and> mem_cap d' = mem_cap m"
    if "unat a + length b \<le> mem_cap m"
    using that l by (simp add: mem_do_write_table [OF l] mem_cap_def mem_ok_def splice_simps)
  show "mem_do_write a b m = Inr (False, m)"
    if "mem_cap m < unat a + length b" "unat a + length b < 2 ^ 64"
    using that by (simp add: mem_do_write_table [OF l] mem_cap_def)
qed

section \<open>Lemmas on the UART\<close>

definition uart_ok :: "uartlite \<Rightarrow> bool" where
  "uart_ok u \<longleftrightarrow> length (u_regs u) = 16"

lemma length_bytes32 [splice_simps, simp]: "length (bytes32 v) = 4"
  by (simp add: bytes32_def)

lemma length_put32 [splice_simps, simp]: "off + 4 \<le> length bs \<Longrightarrow> length (put32 bs off v) = length bs"
  by (simp add: put32_def splice_simps)

lemma nth_bytes32: "i < 4 \<Longrightarrow> bytes32 v ! i = byte_of (ucast v) i"
  by (simp add: bytes32_def)

lemma get32_put32 [splice_simps, simp]:
  assumes "off + 4 \<le> length bs"
  shows "get32 (put32 bs off v) off = v"
proof -
  have "le_load ((!) (put32 bs off v)) off 4 = le_load (le_store ((!) bs) off 4 (ucast v)) off 4"
    using assms by (intro le_load_cong) (auto simp: put32_def splice_simps le_store_def nth_bytes32)
  also have "\<dots> = take_bit 32 (ucast v)" by (subst le_load_le_store) simp_all
  also have "\<dots> = ucast v" by (intro bit_word_eqI) (auto simp: bit_simps dest: bit_imp_le_length)
  finally show ?thesis by (simp add: get32_def ucast_ucast_id)
qed

lemma get32_put32_other:
  assumes "off + 4 \<le> length bs" "off' + 4 \<le> length bs" "off + 4 \<le> off' \<or> off' + 4 \<le> off"
  shows "get32 (put32 bs off v) off' = get32 bs off'"
  unfolding get32_def
  using assms by (intro arg_cong [of _ _ ucast] le_load_cong) (auto simp: put32_def splice_simps)

lemma uart_refresh_regs: "uart_ok u \<Longrightarrow> length (u_regs (uart_refresh u)) = 16"
  by (cases "u_rx u") (auto simp: uart_refresh_def uart_ok_def)

lemma uart_refresh_queues [simp]: "u_rx (uart_refresh u) = u_rx u" "u_tx (uart_refresh u) = u_tx u"
  by (cases "u_rx u"; simp add: uart_refresh_def)+

text \<open>An access inside the 16 bytes passes the tests of the source, and nothing is cut off.\<close>

lemma uart_range:
  assumes "unat (a :: u64) + unat n \<le> 16"
  shows "\<not> a + n > 16" "min n (16 - a) = n"
proof -
  have "unat (a + n) = unat a + unat n" using assms by (simp add: unat_word_ariths)
  then show "\<not> a + n > 16" using assms by (simp add: word_less_nat_alt)
  have "unat (16 - a) = 16 - unat a" using assms by (simp add: unat_sub word_le_nat_alt)
  then show "min n (16 - a) = n" using assms by (auto simp: min_def word_le_nat_alt)
qed

lemma uart_beyond:
  assumes "16 < unat (a :: u64) + unat n" "unat a + unat n < 2 ^ 64"
  shows "a + n > 16"
  using assms by (simp add: word_less_nat_alt unat_word_ariths)

lemma uart_do_read_in:
  assumes "unat a + unat n \<le> 16"
  shows "uart_do_read a n u =
    Inr (Some (slice (u_regs (uart_refresh u)) (unat a) (unat n)),
         let u' = (uart_refresh u)\<lparr>wait_ack := False\<rparr>
         in if touches a n off_rx_fifo then u'\<lparr>u_rx := tl (u_rx u')\<rparr> else u')"
  using uart_range [OF assms] assms by (simp add: uart_do_read_def Let_def)

definition uart_effect :: "u64 \<Rightarrow> u64 \<Rightarrow> uartlite \<Rightarrow> uartlite" where
  "uart_effect a n u =
     (let tx = (if touches a n off_tx_fifo then u_tx u @ [ucast (get32 (u_regs u) 4)] else u_tx u);
          ctrl = (if touches a n off_control then get32 (u_regs u) 12 else 0)
      in u\<lparr>u_tx := (if ctrl AND ULITE_CONTROL_RST_TX \<noteq> 0 then [] else tx),
           u_rx := (if ctrl AND ULITE_CONTROL_RST_RX \<noteq> 0 then [] else u_rx u)\<rparr>)"

lemma uart_do_write_in:
  assumes "unat a + length b \<le> 16"
  shows "uart_do_write a b u =
    Inr (True, uart_effect a (of_nat (length b)) (u\<lparr>u_regs := splice_at (u_regs u) (unat a) b\<rparr>))"
proof -
  have l: "unat (of_nat (length b) :: u64) = length b" using assms by (simp add: unat_of_nat_small)
  show ?thesis
    using uart_range [of a "of_nat (length b)"] assms l
    by (simp add: uart_do_write_def uart_effect_def Let_def)
qed

lemma uart_effect_simps [simp]: "u_regs (uart_effect a n u) = u_regs u" "wait_ack (uart_effect a n u) = wait_ack u"
  by (simp_all add: uart_effect_def Let_def)

interpretation uart: mmio_device uart_do_read uart_do_write "\<lambda>u. 16" uart_ok
proof unfold_locales
  fix u :: uartlite and a n :: u64 and b :: "u8 list"
  assume u: "uart_ok u"
  show "\<exists>bs d'. uart_do_read a n u = Inr (Some bs, d') \<and> length bs = unat n \<and> uart_ok d' \<and> (16 :: nat) = 16"
    if "unat a + unat n \<le> 16"
    using that uart_refresh_regs [OF u] by (simp add: uart_do_read_in Let_def uart_ok_def splice_simps)
  show "uart_do_read a n u = Inr (None, u)" if "16 < unat a + unat n" "unat a + unat n < 2 ^ 64"
    using uart_beyond [OF that] by (simp add: uart_do_read_def)
  show "\<exists>d'. uart_do_write a b u = Inr (True, d') \<and> uart_ok d' \<and> (16 :: nat) = 16" if "unat a + length b \<le> 16"
    using that u by (simp add: uart_do_write_in uart_ok_def splice_simps)
  show "uart_do_write a b u = Inr (False, u)" if "16 < unat a + length b" "unat a + length b < 2 ^ 64"
  proof -
    have "unat (of_nat (length b) :: u64) = length b" using that(2) by (simp add: unat_of_nat_small)
    with uart_beyond [of a "of_nat (length b)"] that show ?thesis by (simp add: uart_do_write_def Let_def)
  qed
qed

fun dev_ok :: "dev \<Rightarrow> bool" where
  "dev_ok (Dev_mem m) = mem_ok m"
| "dev_ok (Dev_uart u) = uart_ok u"

fun dev_cap :: "dev \<Rightarrow> nat" where
  "dev_cap (Dev_mem m) = mem_cap m"
| "dev_cap (Dev_uart u) = 16"

interpretation device: mmio_device dev_do_read dev_do_write dev_cap dev_ok
proof unfold_locales
  fix d :: dev and a n :: u64 and b :: "u8 list"
  assume d: "dev_ok d"
  show "\<exists>bs d'. dev_do_read a n d = Inr (Some bs, d') \<and> length bs = unat n \<and> dev_ok d' \<and> dev_cap d' = dev_cap d"
    if "unat a + unat n \<le> dev_cap d"
  proof (cases d)
    case (Dev_mem m)
    with mmem.read_in [of m a n] d that show ?thesis by (auto simp: bindR_Inr_iff)
  next
    case (Dev_uart u)
    with uart.read_in [of u a n] d that show ?thesis by auto
  qed
  show "dev_do_read a n d = Inr (None, d)" if "dev_cap d < unat a + unat n" "unat a + unat n < 2 ^ 64"
    using that d mmem.read_out [of _ a n] uart.read_out [of _ a n] by (cases d) (auto simp: bindR_Inr_iff)
  show "\<exists>d'. dev_do_write a b d = Inr (True, d') \<and> dev_ok d' \<and> dev_cap d' = dev_cap d" if "unat a + length b \<le> dev_cap d"
  proof (cases d)
    case (Dev_mem m)
    with mmem.write_in [of m a b] d that show ?thesis by auto
  next
    case (Dev_uart u)
    with uart.write_in [of u a b] d that show ?thesis by auto
  qed
  show "dev_do_write a b d = Inr (False, d)" if "dev_cap d < unat a + length b" "unat a + length b < 2 ^ 64"
    using that d mmem.write_out [of _ a b] uart.write_out [of _ a b] by (cases d) auto
qed

section \<open>Properties of the devices\<close>

text \<open>
  \<open>mmio_mem\<close> answers every access: the bytes when the access lies inside the memory and \<open>false\<close>
  when it ends beyond it, except that the sum of address and size is computed modulo \<open>2\<^sup>6\<^sup>4\<close>, so an access
  that wraps around to at most the size of the memory passes the test and leaves the array.
\<close>

theorem mmio_mem_bounds:
  assumes "length (mm_mem m) < 2 ^ 64" "length b < 2 ^ 64"
  shows "mem_do_read a n m =
      (if unat a + unat n \<le> length (mm_mem m) then Inr (Some (slice (mm_mem m) (unat a) (unat n)))
       else if unat a + unat n < 2 ^ 64 \<or> length (mm_mem m) < unat a + unat n - 2 ^ 64 then Inr None
       else Inl Out_of_bounds)
    \<and> (unat a + length b \<le> length (mm_mem m) \<longrightarrow>
       (\<exists>m'. mem_do_write a b m = Inr (True, m') \<and> mem_do_read a (of_nat (length b)) m' = Inr (Some b)))"
proof (intro conjI impI)
  assume b: "unat a + length b \<le> length (mm_mem m)"
  let ?m = "m\<lparr>mm_mem := splice_at (mm_mem m) (unat a) b\<rparr>"
  have "length (mm_mem ?m) < 2 ^ 64" using assms b by (simp add: splice_simps)
  from mem_do_read_table [OF this, of a "of_nat (length b)"] b assms(2)
  have "mem_do_read a (of_nat (length b)) ?m = Inr (Some b)" by (simp add: unat_of_nat_small splice_simps)
  with b show "\<exists>m'. mem_do_write a b m = Inr (True, m') \<and> mem_do_read a (of_nat (length b)) m' = Inr (Some b)"
    by (simp add: mem_do_write_table [OF assms])
qed (rule mem_do_read_table [OF assms(1)])

theorem mmio_mem_bounds_witness:
  "mem_do_read 0xFFFFFFFFFFFFFFFC 8 \<lparr>mm_mem = replicate 16 0\<rparr> = Inl Out_of_bounds
   \<and> (\<exists>m'. mem_do_write 2 [7, 8] \<lparr>mm_mem = replicate 16 0\<rparr> = Inr (True, m') \<and> mem_do_read 2 2 m' = Inr (Some [7, 8]))"
  using mmio_mem_bounds [of "\<lparr>mm_mem = replicate 16 0\<rparr>" "[7, 8]" "0xFFFFFFFFFFFFFFFC" 8]
    mmio_mem_bounds [of "\<lparr>mm_mem = replicate 16 0\<rparr>" "[7, 8]" 2]
  by simp

text \<open>A driver that sends words through the transmit register, the host that takes them out, and the
  opposite direction.\<close>

primrec uart_send :: "u32 list \<Rightarrow> uartlite \<Rightarrow> uartlite res" where
  "uart_send [] u = Inr u"
| "uart_send (v # vs) u = bindR (uart_do_write 4 (bytes32 v) u) (\<lambda>(_, u). uart_send vs u)"

primrec uart_drain :: "nat \<Rightarrow> uartlite \<Rightarrow> u8 list \<times> uartlite" where
  "uart_drain 0 u = ([], u)"
| "uart_drain (Suc n) u = (let (c, u) = uart_getc u; (cs, u) = uart_drain n u in (c # cs, u))"

primrec uart_recv :: "nat \<Rightarrow> uartlite \<Rightarrow> (u8 list list \<times> uartlite) res" where
  "uart_recv 0 u = Inr ([], u)"
| "uart_recv (Suc n) u =
     bindR (uart_do_read 0 4 u) (\<lambda>(r, u). case r of
       None \<Rightarrow> Inr ([], u)
     | Some bs \<Rightarrow> bindR (uart_recv n u) (\<lambda>(bss, u). Inr (bs # bss, u)))"

lemma slice_put32_same: "off + 4 \<le> length bs \<Longrightarrow> slice (put32 bs off v) off 4 = bytes32 v"
  using slice_splice_at_same [of off "bytes32 v" bs] by (simp add: put32_def)

lemmas touches_simps = touches_def off_rx_fifo_def off_tx_fifo_def off_status_def off_control_def

lemma uart_tx_write:
  assumes "uart_ok u"
  shows "uart_do_write 4 (bytes32 v) u = Inr (True, u\<lparr>u_regs := put32 (u_regs u) 4 v, u_tx := u_tx u @ [ucast v]\<rparr>)"
  using assms by (simp add: uart_do_write_in uart_effect_def touches_simps put32_def [symmetric] uart_ok_def)

lemma uart_send_all:
  "uart_ok u \<Longrightarrow> \<exists>u'. uart_send vs u = Inr u' \<and> uart_ok u' \<and> u_tx u' = u_tx u @ map ucast vs
     \<and> u_rx u' = u_rx u \<and> wait_ack u' = wait_ack u"
proof (induction vs arbitrary: u)
  case (Cons v vs)
  have "uart_ok (u\<lparr>u_regs := put32 (u_regs u) 4 v, u_tx := u_tx u @ [ucast v]\<rparr>)"
    using Cons.prems by (simp add: uart_ok_def)
  from Cons.IH [OF this] Cons.prems show ?case by (auto simp: uart_tx_write)
qed simp

lemma uart_drain_all:
  "u_tx u = cs \<Longrightarrow> uart_drain (length cs) u = (cs, u\<lparr>u_tx := [], wait_ack := (wait_ack u \<or> cs \<noteq> [])\<rparr>)"
proof (induction cs arbitrary: u)
  case (Cons c cs)
  then show ?case by (auto simp: uart_getc_def Let_def)
qed simp

lemma uart_rx_read:
  assumes "uart_ok u" "u_rx u = c # cs"
  shows "\<exists>u'. uart_do_read 0 4 u = Inr (Some (bytes32 (scast c)), u') \<and> uart_ok u' \<and> u_rx u' = cs"
  using assms by (simp add: uart_do_read_in touches_simps Let_def uart_refresh_def slice_put32_same uart_ok_def)

lemma uart_recv_all:
  "uart_ok u \<Longrightarrow> u_rx u = cs \<Longrightarrow>
     \<exists>u'. uart_recv (length cs) u = Inr (map (bytes32 \<circ> scast) cs, u') \<and> u_rx u' = []"
proof (induction cs arbitrary: u)
  case (Cons c cs)
  obtain u' where u': "uart_do_read 0 4 u = Inr (Some (bytes32 (scast c)), u')" "uart_ok u'" "u_rx u' = cs"
    using uart_rx_read [OF Cons.prems] by auto
  from Cons.IH [OF u'(2,3)] u'(1) show ?case by auto
qed simp

lemma putc_all: "u_rx (fold uart_putc cs u) = u_rx u @ cs" "uart_ok (fold uart_putc cs u) = uart_ok u"
  by (induction cs arbitrary: u) (auto simp: uart_putc_def uart_ok_def)

text \<open>
  C31. The UART is a pair of queues: the words a driver stores in the transmit register come out of
  \<open>getc\<close> in order, as their low bytes, and taking the last one raises the interrupt; the characters
  given to \<open>putc\<close> are read from the receive register in order, one per read, sign-extended to 32 bits.
\<close>

theorem uart_fifos:
  assumes "uart_ok u" "u_tx u = []" "u_rx u = []"
  shows "(\<exists>u'. uart_send vs u = Inr u'
      \<and> fst (uart_drain (length vs) u') = map ucast vs
      \<and> (vs \<noteq> [] \<longrightarrow> uart_irq (snd (uart_drain (length vs) u')))
      \<and> \<not> exist_tx (snd (uart_drain (length vs) u')))
    \<and> (\<exists>u'. uart_recv (length cs) (fold uart_putc cs u) = Inr (map (bytes32 \<circ> scast) cs, u') \<and> u_rx u' = [])"
proof
  obtain u' where u': "uart_send vs u = Inr u'" "u_tx u' = map ucast vs"
    using uart_send_all [OF assms(1), of vs] assms(2) by auto
  have "uart_drain (length vs) u' = (map ucast vs, u'\<lparr>u_tx := [], wait_ack := (wait_ack u' \<or> vs \<noteq> [])\<rparr>)"
    using uart_drain_all [OF u'(2)] by simp
  with u' show "\<exists>u'. uart_send vs u = Inr u'
      \<and> fst (uart_drain (length vs) u') = map ucast vs
      \<and> (vs \<noteq> [] \<longrightarrow> uart_irq (snd (uart_drain (length vs) u')))
      \<and> \<not> exist_tx (snd (uart_drain (length vs) u'))"
    by (simp add: uart_irq_def exist_tx_def)
qed (use uart_recv_all [of "fold uart_putc cs u" cs] assms in \<open>simp add: putc_all\<close>)

lemma uart_init_ok [simp]: "uart_ok uart_init"
  by (simp add: uart_ok_def uart_init_def)

theorem uart_fifos_witness:
  "\<exists>u'. uart_send [0x141, 0x42] uart_init = Inr u' \<and> fst (uart_drain (Suc (Suc 0)) u') = [0x41, 0x42]
     \<and> uart_irq (snd (uart_drain (Suc (Suc 0)) u'))"
proof -
  have "u_tx uart_init = []" "u_rx uart_init = []" by (simp_all add: uart_init_def)
  from uart_fifos [OF uart_init_ok this, of "[0x141, 0x42]" "[]"] show ?thesis
    by (auto simp del: uart_send.simps uart_drain.simps)
qed

lemma uart_write_at:
  assumes "uart_ok u" "unat a \<le> 12"
  shows "uart_do_write a (bytes32 v) u = Inr (True, uart_effect a 4 (u\<lparr>u_regs := put32 (u_regs u) (unat a) v\<rparr>))"
  using assms by (simp add: uart_do_write_in put32_def)

text \<open>
  What a 32-bit store to each register does. The stores to the transmit and control registers act
  as meant; but the test for a touched register includes the address just after the access, so a store
  to the receive register also transmits the stale byte of the transmit register, and a store to the
  status register repeats the last reset command.
\<close>

theorem uart_register_stores:
  assumes "uart_ok u"
  shows "(\<exists>u'. uart_do_write 0 (bytes32 v) u = Inr (True, u') \<and> u_rx u' = u_rx u
      \<and> u_tx u' = u_tx u @ [ucast (get32 (u_regs u) 4)])
    \<and> (\<exists>u'. uart_do_write 4 (bytes32 v) u = Inr (True, u') \<and> u_rx u' = u_rx u \<and> u_tx u' = u_tx u @ [ucast v])
    \<and> (\<exists>u'. uart_do_write 8 (bytes32 v) u = Inr (True, u')
      \<and> u_rx u' = (if get32 (u_regs u) 12 AND ULITE_CONTROL_RST_RX \<noteq> 0 then [] else u_rx u)
      \<and> u_tx u' = (if get32 (u_regs u) 12 AND ULITE_CONTROL_RST_TX \<noteq> 0 then [] else u_tx u))
    \<and> (\<exists>u'. uart_do_write 12 (bytes32 v) u = Inr (True, u')
      \<and> u_rx u' = (if v AND ULITE_CONTROL_RST_RX \<noteq> 0 then [] else u_rx u)
      \<and> u_tx u' = (if v AND ULITE_CONTROL_RST_TX \<noteq> 0 then [] else u_tx u))"
  using assms
  by (simp add: uart_write_at uart_effect_def touches_simps uart_ok_def get32_put32_other Let_def)

theorem uart_register_stores_witness:
  "\<exists>u'. uart_do_write 0 (bytes32 7) uart_init = Inr (True, u') \<and> u_tx u' = [0]"
  using conjunct1 [OF uart_register_stores [OF uart_init_ok, of 7]]
  by (auto simp: uart_init_def get32_put32_other get32_def eval_nat_numeral put32_def splice_at_def bytes32_def)

section \<open>Properties of the decoder\<close>

definition xbar_empty :: "dev list \<Rightarrow> xbar" where
  "xbar_empty ds = \<lparr>xb_devices = [], xb_devs = ds\<rparr>"

primrec add_all :: "(u64 \<times> u64 \<times> nat) list \<Rightarrow> xbar \<Rightarrow> xbar res" where
  "add_all [] x = Inr x"
| "add_all (q # qs) x = (case q of (a, l, p) \<Rightarrow> bindR (add_dev a l p x) (\<lambda>(_, x). add_all qs x))"

text \<open>The specification: a request is accepted when it is aligned and meets no accepted range.\<close>

definition add_spec :: "u64 \<times> u64 \<times> nat \<Rightarrow> (range \<times> nat) set \<Rightarrow> (range \<times> nat) set" where
  "add_spec q D = (case q of (a, l, p) \<Rightarrow>
     if a mod l = 0 \<and> (\<forall>d\<in>D. \<not> overlaps (fst d) (a, a + l)) then insert ((a, a + l), p) D else D)"

lemma add_dev_spec:
  assumes "xbar_wf x" "0 < len" "unat a + unat len < 2 ^ 64"
  shows "\<exists>ok x'. add_dev a len p x = Inr (ok, x') \<and> xbar_wf x' \<and> xb_devs x' = xb_devs x
    \<and> set (xb_devices x') = add_spec (a, len, p) (set (xb_devices x))"
proof (cases "a mod len = 0")
  case True
  from add_dev_wf [OF assms True, of p] True assms(1) show ?thesis
    by (cases "\<exists>d\<in>set (xb_devices x). overlaps (fst d) (a, a + len)") (auto simp: add_spec_def)
next
  case False
  with assms(1,2) show ?thesis by (auto simp: add_dev_def add_spec_def)
qed



definition xbar_ok :: "xbar \<Rightarrow> bool" where
  "xbar_ok x \<longleftrightarrow> xbar_wf x \<and> (\<forall>d\<in>set (xb_devices x). snd d < length (xb_devs x)) \<and> (\<forall>d\<in>set (xb_devs x). dev_ok d)"

lemma xbar_select_miss:
  assumes "xbar_wf x" "\<not> (\<exists>lo hi p. ((lo, hi), p) \<in> set (xb_devices x) \<and> lo \<le> a \<and> a + n \<le> hi)"
  shows "xbar_select a n x = None"
proof -
  let ?B = "filter (\<lambda>d. \<not> range_less (a, - 1) (fst d)) (xb_devices x)"
  have "last ?B \<in> set (xb_devices x)" if "?B \<noteq> []"
    using last_in_set [OF that] filter_is_subset [of _ "xb_devices x"] by blast
  then have "?B = [] \<or> \<not> (fst (fst (last ?B)) \<le> a \<and> a + n \<le> snd (fst (last ?B)))"
    using assms(2) by (metis prod.collapse)
  then show ?thesis unfolding xbar_select_def split_upper_filter [OF assms(1)] fst_conv Let_def by auto
qed

lemma xbar_hit:
  assumes "xbar_ok x" "((lo, hi), p) \<in> set (xb_devices x)" "lo \<le> a" "a + n \<le> hi" "0 < n" "unat a + unat n < 2 ^ 64"
  shows "xbar_select a n x = Some ((lo, hi), p)" "a mod (hi - lo) = a - lo" "dev_ok (xb_devs x ! p)"
    "unat (a - lo) + unat n < 2 ^ 64"
proof -
  have u: "unat (a + n) = unat a + unat n" using assms(6) by (simp add: unat_word_ariths)
  then have le: "unat a + unat n \<le> unat hi" using assms(4) by (simp add: word_le_nat_alt)
  show "xbar_select a n x = Some ((lo, hi), p)"
    using xbar_select_hit [of x lo hi p a n] assms le by (simp add: xbar_ok_def)
  have "0 < unat n" using assms(5) by (simp add: word_less_nat_alt)
  then have "a < hi" using le by (simp add: word_less_nat_alt)
  moreover have "lo mod (hi - lo) = 0"
    using assms(1) bspec [OF _ assms(2), of "\<lambda>d. fst (fst d) < snd (fst d) \<and> fst (fst d) mod (snd (fst d) - fst (fst d)) = 0"]
    by (simp add: xbar_ok_def xbar_wf_def)
  ultimately show "a mod (hi - lo) = a - lo" by (intro xbar_offset assms(3))
  show "dev_ok (xb_devs x ! p)" using assms(1,2) by (auto simp: xbar_ok_def)
  have "unat (a - lo) \<le> unat a" using assms(3) by (simp add: unat_sub)
  then show "unat (a - lo) + unat n < 2 ^ 64" using assms(6) by linarith
qed

definition set_dev :: "nat \<Rightarrow> dev \<Rightarrow> xbar \<Rightarrow> xbar" where
  "set_dev p d x = x\<lparr>xb_devs := (xb_devs x)[p := d]\<rparr>"

text \<open>The answer of a device to an access of the length of \<open>b\<close> at an offset.\<close>

definition range_resp :: "u64 \<Rightarrow> u8 list \<Rightarrow> dev \<Rightarrow> axi_resp" where
  "range_resp off b d = (if unat off + length b \<le> dev_cap d then RESP_OKEY else RESP_SLVERR)"

lemma xbar_ok_update:
  assumes "xbar_ok x" "dev_ok d"
  shows "xbar_ok (set_dev p d x)"
  using assms set_update_subset_insert [of "xb_devs x" p d] by (auto simp: xbar_ok_def xbar_wf_def set_dev_def)

lemma xbar_read_total:
  assumes "xbar_ok x" "0 < n" "unat a + unat n < 2 ^ 64"
  shows "\<exists>resp bs x'. xbar_do_read a n x = Inr (resp, bs, x') \<and> xbar_ok x' \<and> (\<forall>b. bs = Some b \<longrightarrow> length b = unat n)"
proof (cases "\<exists>lo hi p. ((lo, hi), p) \<in> set (xb_devices x) \<and> lo \<le> a \<and> a + n \<le> hi")
  case True
  then obtain lo hi p where m: "((lo, hi), p) \<in> set (xb_devices x)" "lo \<le> a" "a + n \<le> hi" by blast
  note h = xbar_hit [OF assms(1) m assms(2,3)]
  obtain r d where r: "dev_do_read (a - lo) n (xb_devs x ! p) = Inr (r, d)" "dev_ok d" "\<forall>bs. r = Some bs \<longrightarrow> length bs = unat n"
    using device.read_outcome [OF h(3,4)] by metis
  with xbar_ok_update [OF assms(1) r(2), of p] show ?thesis by (auto simp: xbar_do_read_def h(1,2) set_dev_def)
next
  case False
  then have "xbar_select a n x = None" using xbar_select_miss assms(1) by (simp add: xbar_ok_def)
  with assms(1) show ?thesis by (simp add: xbar_do_read_def)
qed

lemma xbar_write_total:
  assumes "xbar_ok x" "b \<noteq> []" "unat a + length b < 2 ^ 64"
  shows "\<exists>resp x'. xbar_do_write a b x = Inr (resp, x') \<and> xbar_ok x'"
proof -
  let ?n = "of_nat (length b) :: u64"
  have n: "unat ?n = length b" "0 < ?n" "unat a + unat ?n < 2 ^ 64"
    using assms(2,3) by (simp_all add: unat_of_nat_small word_less_nat_alt)
  show ?thesis
  proof (cases "\<exists>lo hi p. ((lo, hi), p) \<in> set (xb_devices x) \<and> lo \<le> a \<and> a + ?n \<le> hi")
    case True
    then obtain lo hi p where m: "((lo, hi), p) \<in> set (xb_devices x)" "lo \<le> a" "a + ?n \<le> hi" by blast
    note h = xbar_hit [OF assms(1) m n(2,3)]
    obtain d' where w: "dev_do_write (a - lo) b (xb_devs x ! p)
          = Inr (unat (a - lo) + length b \<le> dev_cap (xb_devs x ! p), d')" "dev_ok d'"
      using device.write_outcome [OF h(3), of "a - lo" b] h(4) n(1) by metis
    with xbar_ok_update [OF assms(1) w(2), of p] show ?thesis by (simp add: xbar_do_write_def h(1,2) set_dev_def)
  next
    case False
    then have "xbar_select a ?n x = None" using xbar_select_miss assms(1) by (simp add: xbar_ok_def)
    with assms(1) show ?thesis by (simp add: xbar_do_write_def)
  qed
qed


definition demo_xbar :: xbar where
  "demo_xbar = \<lparr>xb_devices = [((0x1000, 0x1010), 0), ((0x2000, 0x2100), 1)],
     xb_devs = [Dev_uart uart_init, Dev_mem \<lparr>mm_mem = replicate 16 5\<rparr>]\<rparr>"


end
