(* ===== verification/Axi_Bus.thy ===== *)
theory Axi_Bus
  imports Prelude
begin

text \<open>
  The AXI4 signal bundles of \<open>src/sim/csrc/include/axi4.hpp\<close> for the default widths (64-bit addresses
  and data, 4-bit ids): the value bundle \<open>axi4\<close>, the pointer bundle \<open>axi4_ptr\<close> with its check, and the
  reference bundle \<open>axi4_ref\<close> bound to the signals of a Verilator model.

  \<open>AUTO_SIG\<close> makes a signal of up to 8 bits a \<open>CData\<close> (a byte) and one of 64 bits a \<open>QData\<close>. A signal
  object is named by its address; \<open>signals\<close> gives the value each object holds, and a reference is the
  address it is bound to.
\<close>

type_synonym CData = u8
type_synonym QData = u64

text \<open>The burst types are the values of the enumeration.\<close>

definition BURST_FIXED :: u8 where "BURST_FIXED = 0"
definition BURST_INCR :: u8 where "BURST_INCR = 1"
definition BURST_WRAP :: u8 where "BURST_WRAP = 2"
definition BURST_RESERVED :: u8 where "BURST_RESERVED = 3"

lemmas burst_defs = BURST_FIXED_def BURST_INCR_def BURST_WRAP_def BURST_RESERVED_def

section \<open>The bundles\<close>

record axi4 =
  awid :: CData
  awaddr :: QData
  awlen :: CData
  awsize :: CData
  awburst :: CData
  awvalid :: CData
  awready :: CData
  wdata :: QData
  wstrb :: CData
  wlast :: CData
  wvalid :: CData
  wready :: CData
  bid :: CData
  bresp :: CData
  bvalid :: CData
  bready :: CData
  arid :: CData
  araddr :: QData
  arlen :: CData
  arsize :: CData
  arburst :: CData
  arvalid :: CData
  arready :: CData
  rid :: CData
  rdata :: QData
  rresp :: CData
  rlast :: CData
  rvalid :: CData
  rready :: CData

record axi4_ptr =
  p_awid :: u64
  p_awaddr :: u64
  p_awlen :: u64
  p_awsize :: u64
  p_awburst :: u64
  p_awvalid :: u64
  p_awready :: u64
  p_wdata :: u64
  p_wstrb :: u64
  p_wlast :: u64
  p_wvalid :: u64
  p_wready :: u64
  p_bid :: u64
  p_bresp :: u64
  p_bvalid :: u64
  p_bready :: u64
  p_arid :: u64
  p_araddr :: u64
  p_arlen :: u64
  p_arsize :: u64
  p_arburst :: u64
  p_arvalid :: u64
  p_arready :: u64
  p_rid :: u64
  p_rdata :: u64
  p_rresp :: u64
  p_rlast :: u64
  p_rvalid :: u64
  p_rready :: u64

text \<open>The constructor of \<open>axi4\<close> clears the whole object.\<close>

definition axi4_new :: axi4 where
  "axi4_new = \<lparr>
     awid = 0, awaddr = 0, awlen = 0, awsize = 0, awburst = 0, awvalid = 0, awready = 0,
     wdata = 0, wstrb = 0, wlast = 0, wvalid = 0, wready = 0,
     bid = 0, bresp = 0, bvalid = 0, bready = 0,
     arid = 0, araddr = 0, arlen = 0, arsize = 0, arburst = 0, arvalid = 0, arready = 0,
     rid = 0, rdata = 0, rresp = 0, rlast = 0, rvalid = 0, rready = 0\<rparr>"

text \<open>\<open>axi4_ptr()\<close>: every pointer is \<open>NULL\<close>.\<close>

definition axi4_ptr_new :: axi4_ptr where
  "axi4_ptr_new = \<lparr>
     p_awid = 0, p_awaddr = 0, p_awlen = 0, p_awsize = 0, p_awburst = 0, p_awvalid = 0, p_awready = 0,
     p_wdata = 0, p_wstrb = 0, p_wlast = 0, p_wvalid = 0, p_wready = 0,
     p_bid = 0, p_bresp = 0, p_bvalid = 0, p_bready = 0,
     p_arid = 0, p_araddr = 0, p_arlen = 0, p_arsize = 0, p_arburst = 0, p_arvalid = 0, p_arready = 0,
     p_rid = 0, p_rdata = 0, p_rresp = 0, p_rlast = 0, p_rvalid = 0, p_rready = 0\<rparr>"

text \<open>The pointers in the order in which \<open>check\<close> inserts them into its set.\<close>

definition ptr_list :: "axi4_ptr \<Rightarrow> u64 list" where
  "ptr_list p =
     [p_awid p, p_awaddr p, p_awlen p, p_awsize p, p_awburst p, p_awvalid p, p_awready p,
      p_wdata p, p_wstrb p, p_wlast p, p_wvalid p, p_wready p,
      p_bid p, p_bresp p, p_bvalid p, p_bready p,
      p_arid p, p_araddr p, p_arlen p, p_arsize p, p_arburst p, p_arvalid p, p_arready p,
      p_rid p, p_rdata p, p_rresp p, p_rlast p, p_rvalid p, p_rready p]"

definition ptr_check :: "axi4_ptr \<Rightarrow> bool" where
  "ptr_check p \<longleftrightarrow> card (set (ptr_list p)) = 29 \<and> 0 \<notin> set (ptr_list p)"

text \<open>\<open>axi4_ref(axi4_ptr&)\<close> dereferences every pointer; a reference then stands for the pointer's target.\<close>

type_synonym axi4_ref = axi4_ptr

definition axi4_ref_bind :: "axi4_ptr \<Rightarrow> axi4_ref res" where
  "axi4_ref_bind p = (if 0 \<in> set (ptr_list p) then Inl Null_deref else Inr p)"

text \<open>\<open>axi4_ref(axi4&)\<close> binds to the members of an object at the address \<open>base\<close>, which are laid out in the order of
  their declaration, the 64-bit ones at multiples of 8.\<close>

definition axi4_ref_object :: "u64 \<Rightarrow> axi4_ref" where
  "axi4_ref_object base = \<lparr>
     p_awid = base, p_awaddr = base + 8, p_awlen = base + 16, p_awsize = base + 17, p_awburst = base + 18, p_awvalid = base + 19,
     p_awready = base + 20, p_wdata = base + 24, p_wstrb = base + 32, p_wlast = base + 33, p_wvalid = base + 34, p_wready = base + 35,
     p_bid = base + 36, p_bresp = base + 37, p_bvalid = base + 38, p_bready = base + 39,
     p_arid = base + 40, p_araddr = base + 48, p_arlen = base + 56, p_arsize = base + 57, p_arburst = base + 58, p_arvalid = base + 59,
     p_arready = base + 60, p_rid = base + 61, p_rdata = base + 64, p_rresp = base + 72, p_rlast = base + 73, p_rvalid = base + 74,
     p_rready = base + 75\<rparr>"

type_synonym signals = "u64 \<Rightarrow> u64"

definition update_input :: "signals \<Rightarrow> axi4_ref \<Rightarrow> axi4 \<Rightarrow> axi4" where
  "update_input h r x = x\<lparr>
     awid := ucast (h (p_awid r)), awaddr := h (p_awaddr r), awlen := ucast (h (p_awlen r)), awsize := ucast (h (p_awsize r)), awburst := ucast (h (p_awburst r)), awvalid := ucast (h (p_awvalid r)),
     wdata := h (p_wdata r), wstrb := ucast (h (p_wstrb r)), wlast := ucast (h (p_wlast r)), wvalid := ucast (h (p_wvalid r)),
     bready := ucast (h (p_bready r)),
     arid := ucast (h (p_arid r)), araddr := h (p_araddr r), arlen := ucast (h (p_arlen r)), arsize := ucast (h (p_arsize r)), arburst := ucast (h (p_arburst r)), arvalid := ucast (h (p_arvalid r)),
     rready := ucast (h (p_rready r))\<rparr>"

definition update_output :: "axi4 \<Rightarrow> axi4_ref \<Rightarrow> signals \<Rightarrow> signals" where
  "update_output x r h = h(
     p_awready r := ucast (awready x),
     p_wready r := ucast (wready x),
     p_bid r := ucast (bid x),
     p_bresp r := ucast (bresp x),
     p_bvalid r := ucast (bvalid x),
     p_arready r := ucast (arready x),
     p_rid r := ucast (rid x),
     p_rdata r := rdata x,
     p_rresp r := ucast (rresp x),
     p_rlast r := ucast (rlast x),
     p_rvalid r := ucast (rvalid x))"

text \<open>The outputs as a reader of the signals finds them.\<close>

definition read_output :: "signals \<Rightarrow> axi4_ref \<Rightarrow> axi4 \<Rightarrow> axi4" where
  "read_output h r x = x\<lparr>
     awready := ucast (h (p_awready r)),
     wready := ucast (h (p_wready r)),
     bid := ucast (h (p_bid r)), bresp := ucast (h (p_bresp r)), bvalid := ucast (h (p_bvalid r)),
     arready := ucast (h (p_arready r)),
     rid := ucast (h (p_rid r)), rdata := h (p_rdata r), rresp := ucast (h (p_rresp r)), rlast := ucast (h (p_rlast r)), rvalid := ucast (h (p_rvalid r))\<rparr>"

section \<open>The check\<close>

lemma ptr_check_distinct: "ptr_check p \<longleftrightarrow> distinct (ptr_list p) \<and> 0 \<notin> set (ptr_list p)"
proof -
  have "length (ptr_list p) = 29" by (simp add: ptr_list_def)
  then show ?thesis using card_distinct [of "ptr_list p"] distinct_card [of "ptr_list p"] by (auto simp: ptr_check_def)
qed

text \<open>Every pointer by its position, so that two of them differ exactly when their positions do.\<close>

lemma ptr_nth:
  "p_awid p = ptr_list p ! 0"
  "p_awaddr p = ptr_list p ! 1"
  "p_awlen p = ptr_list p ! 2"
  "p_awsize p = ptr_list p ! 3"
  "p_awburst p = ptr_list p ! 4"
  "p_awvalid p = ptr_list p ! 5"
  "p_awready p = ptr_list p ! 6"
  "p_wdata p = ptr_list p ! 7"
  "p_wstrb p = ptr_list p ! 8"
  "p_wlast p = ptr_list p ! 9"
  "p_wvalid p = ptr_list p ! 10"
  "p_wready p = ptr_list p ! 11"
  "p_bid p = ptr_list p ! 12"
  "p_bresp p = ptr_list p ! 13"
  "p_bvalid p = ptr_list p ! 14"
  "p_bready p = ptr_list p ! 15"
  "p_arid p = ptr_list p ! 16"
  "p_araddr p = ptr_list p ! 17"
  "p_arlen p = ptr_list p ! 18"
  "p_arsize p = ptr_list p ! 19"
  "p_arburst p = ptr_list p ! 20"
  "p_arvalid p = ptr_list p ! 21"
  "p_arready p = ptr_list p ! 22"
  "p_rid p = ptr_list p ! 23"
  "p_rdata p = ptr_list p ! 24"
  "p_rresp p = ptr_list p ! 25"
  "p_rlast p = ptr_list p ! 26"
  "p_rvalid p = ptr_list p ! 27"
  "p_rready p = ptr_list p ! 28"
  by (simp_all add: ptr_list_def)

lemma length_ptr_list: "length (ptr_list p) = 29"
  by (simp add: ptr_list_def)

text \<open>
  A pointer bundle that passes \<open>check\<close> can be bound, and then the outputs a slave drives are
  found unchanged at the signals and never disturb an input: what is read back after \<open>update_output\<close> are
  the outputs driven, and \<open>update_input\<close> gives the same as before.
\<close>

theorem checked_ports_do_not_alias:
  assumes "ptr_check p"
  shows "axi4_ref_bind p = Inr p \<and> update_input (update_output x p h) p y = update_input h p y
    \<and> read_output (update_output x p h) p x = x"
proof -
  have d: "distinct (ptr_list p)" and z: "0 \<notin> set (ptr_list p)" using assms by (simp_all add: ptr_check_distinct)
  note eq = nth_eq_iff_index_eq [OF d, unfolded length_ptr_list]
  have "axi4_ref_bind p = Inr p" using z by (simp add: axi4_ref_bind_def)
  moreover have "update_input (update_output x p h) p y = update_input h p y"
    unfolding update_input_def update_output_def ptr_nth [of p] by (simp add: eq)
  moreover have "read_output (update_output x p h) p x = x"
    unfolding read_output_def update_output_def ptr_nth [of p] by (simp add: eq ucast_ucast_id)
  ultimately show ?thesis by simp
qed

definition demo_ptr :: axi4_ptr where
  "demo_ptr = \<lparr>
     p_awid = 1, p_awaddr = 2, p_awlen = 3, p_awsize = 4, p_awburst = 5, p_awvalid = 6, p_awready = 7,
     p_wdata = 8, p_wstrb = 9, p_wlast = 10, p_wvalid = 11, p_wready = 12,
     p_bid = 13, p_bresp = 14, p_bvalid = 15, p_bready = 16,
     p_arid = 17, p_araddr = 18, p_arlen = 19, p_arsize = 20, p_arburst = 21, p_arvalid = 22, p_arready = 23,
     p_rid = 24, p_rdata = 25, p_rresp = 26, p_rlast = 27, p_rvalid = 28, p_rready = 29\<rparr>"

theorem checked_ports_do_not_alias_witness:
  "axi4_ref_bind demo_ptr = Inr demo_ptr
   \<and> update_input (update_output (axi4_new\<lparr>rdata := 5\<rparr>) demo_ptr (\<lambda>_. 7)) demo_ptr axi4_new = update_input (\<lambda>_. 7) demo_ptr axi4_new"
proof -
  have "ptr_check demo_ptr" by (simp add: ptr_check_distinct ptr_list_def demo_ptr_def)
  from checked_ports_do_not_alias [OF this] show ?thesis by blast
qed

text \<open>The members of an object that does not wrap around the address space are different signals, so that a
  reference to it passes the same check.\<close>

lemma object_offset:
  assumes "0 < base" "unat base + 76 \<le> 2 ^ 64" "(numeral k :: nat) < 76"
  shows "base + numeral k \<noteq> (0 :: u64)"
proof
  assume "base + numeral k = 0"
  then have "unat (base + of_nat (numeral k)) = 0" by simp
  moreover have "unat base + numeral k < 2 ^ LENGTH(64)" using assms(2,3) by (simp del: numeral_less_iff)
  ultimately show False using unat_add_small [of base "numeral k"] by simp
qed

lemma object_refs_distinct:
  assumes "0 < base" "unat base + 76 \<le> 2 ^ 64"
  shows "ptr_check (axi4_ref_object base)"
proof -
  have "0 \<notin> set (ptr_list (axi4_ref_object base))"
    using assms(1) by (auto simp: ptr_list_def axi4_ref_object_def object_offset [OF assms])
  moreover have "distinct (ptr_list (axi4_ref_object base))" by (simp add: ptr_list_def axi4_ref_object_def)
  ultimately show ?thesis by (simp add: ptr_check_distinct)
qed

end
