(* ===== verification/Axi_Slave.thy ===== *)
theory Axi_Slave
  imports Axi_Bus Mmio
begin

text \<open>
  The AXI4 slave of \<open>src/sim/csrc/include/axi4_slave.hpp\<close> for 64-bit data: the read and the write
  channel as functions of the sampled pins, the state of the slave and the target behind it, and the
  memory target \<open>axi4_mem\<close> (\<open>axi4_mem.hpp\<close>).

  The target's virtual functions \<open>do_read\<close> and \<open>do_write\<close> are the record \<open>target\<close>; a read gives the response
  and the bytes it put into the buffer. The size signals are three bits wide, so \<open>1 << size\<close> is at most
  128; a larger exponent would be undefined and is the fault \<open>Div_trap\<close> here. The members \<open>r_out_ready\<close> and
  \<open>w_out_ready\<close> are never used and are left out. \<open>w_nr_trans\<close> and \<open>w_cur_trans\<close> are \<open>int\<close>s that are only
  incremented and compared; they are kept as 32-bit words.
\<close>

record 't target =
  t_read :: "u64 \<Rightarrow> u64 \<Rightarrow> 't \<Rightarrow> (axi_resp \<times> u8 list option \<times> 't) res"
  t_write :: "u64 \<Rightarrow> u8 list \<Rightarrow> 't \<Rightarrow> (axi_resp \<times> 't) res"

fun resp_code :: "axi_resp \<Rightarrow> CData" where
  "resp_code RESP_OKEY = 0"
| "resp_code RESP_EXOKEY = 1"
| "resp_code RESP_SLVERR = 2"
| "resp_code RESP_DECERR = 3"

fun resp_or :: "axi_resp \<Rightarrow> axi_resp \<Rightarrow> axi_resp" where
  "resp_or RESP_OKEY r = r"
| "resp_or r RESP_OKEY = r"
| "resp_or RESP_EXOKEY RESP_EXOKEY = RESP_EXOKEY"
| "resp_or RESP_SLVERR RESP_SLVERR = RESP_SLVERR"
| "resp_or _ _ = RESP_DECERR"

definition D_bytes :: u64 where "D_bytes = 8"

record axi4_slave =
  read_busy :: bool
  read_last :: bool
  read_wait :: bool
  r_start_addr :: u64
  r_current_addr :: u64
  s_arid :: CData
  r_burst_type :: u8
  r_each_len :: u32
  r_nr_trans :: u32
  r_cur_trans :: u32
  r_tot_len :: u32
  r_early_err :: bool
  r_resp :: axi_resp
  r_data :: "u8 list"
  write_busy :: bool
  b_busy :: bool
  w_start_addr :: u64
  w_current_addr :: u64
  s_awid :: CData
  w_burst_type :: u8
  w_each_len :: u32
  w_nr_trans :: u32
  w_cur_trans :: u32
  w_tot_len :: u32
  w_early_err :: bool
  w_resp :: axi_resp
  w_buffer :: "u8 list"

definition each_len :: "CData \<Rightarrow> u32" where
  "each_len sz = push_bit (unat sz) 1"

section \<open>The read channel\<close>

definition read_check :: "axi4_slave \<Rightarrow> bool" where
  "read_check s =
     (if r_burst_type s = BURST_RESERVED then False
      else if r_burst_type s = BURST_WRAP \<and> r_current_addr s mod ucast (r_each_len s) \<noteq> 0 then False
      else if r_burst_type s = BURST_WRAP \<and>
              (r_nr_trans s \<noteq> 2 \<or> r_nr_trans s \<noteq> 4 \<or> r_nr_trans s \<noteq> 8 \<or> r_nr_trans s \<noteq> 16) then False
      else
        let rem_addr = 4096 - (r_start_addr s mod 4096) in
        if ucast (r_tot_len s) > rem_addr then False
        else if ucast (r_each_len s) > D_bytes then False
        else True)"

definition clear_lane :: "u64 \<Rightarrow> u8 list \<Rightarrow> u8 list" where
  "clear_lane a d = (let c = a mod 4096; c = c - c mod D_bytes in splice_at d (unat c) (replicate (unat D_bytes) 0))"

definition fill :: "u8 list option \<Rightarrow> nat \<Rightarrow> u8 list \<Rightarrow> u8 list res" where
  "fill r i d = (case r of None \<Rightarrow> Inr d
     | Some bs \<Rightarrow> if i + length bs \<le> length d then Inr (splice_at d i bs) else Inl Out_of_bounds)"

definition load_lane :: "u64 \<Rightarrow> u8 list \<Rightarrow> QData res" where
  "load_lane a d = (let i = unat (a - a mod D_bytes) in
     if i + 8 \<le> length d then Inr (le_load ((!) d) i 8) else Inl Out_of_bounds)"

definition read_setup :: "axi4 \<Rightarrow> axi4_slave \<Rightarrow> axi4_slave" where
  "read_setup pin s0 =
     (let bt = arburst pin; el = each_len (arsize pin); nr = ucast (arlen pin) + 1;
          start = (if bt = BURST_WRAP then araddr pin - araddr pin mod ucast (el * nr) else araddr pin);
          s = s0\<lparr>s_arid := arid pin, r_burst_type := bt, r_each_len := el, r_nr_trans := nr,
               r_current_addr := (if bt = BURST_WRAP then araddr pin mod 4096
                                  else araddr pin mod 4096 - araddr pin mod ucast el),
               r_start_addr := start, r_cur_trans := 0,
               r_tot_len := ucast (ucast (if bt = BURST_FIXED then el else el * nr) - start mod ucast el)\<rparr>
      in s\<lparr>r_early_err := \<not> read_check s\<rparr>)"

definition read_init :: "'t target \<Rightarrow> axi4 \<Rightarrow> axi4_slave \<Rightarrow> 't \<Rightarrow> (axi4_slave \<times> 't) res" where
  "read_init T pin s0 t =
     (let s = read_setup pin s0; start = r_start_addr s; tot = ucast (r_tot_len s) in
      if r_each_len s = 0 then Inl Div_trap
      else if r_early_err s then Inl Assert_fail
      else
        let d = r_data s;
            d = (if start mod D_bytes \<noteq> 0 then clear_lane start d else d);
            d = (if (start + tot) mod D_bytes \<noteq> 0 then clear_lane (start + tot) d else d);
            s = s\<lparr>r_data := d\<rparr>
        in if \<not> r_early_err s \<and> r_burst_type s \<noteq> BURST_FIXED then
             bindR (t_read T start tot t) (\<lambda>(resp, bs, t).
             bindR (fill bs (unat (start mod 4096)) (r_data s)) (\<lambda>d.
               Inr (s\<lparr>r_resp := resp, r_data := d\<rparr>, t)))
           else Inr (s, t))"

definition next_addr :: "u64 \<Rightarrow> u32 \<Rightarrow> u64" where
  "next_addr a el = a + (ucast el - a mod ucast el)"

definition read_beat :: "'t target \<Rightarrow> axi4 \<Rightarrow> axi4_slave \<Rightarrow> 't \<Rightarrow> (axi4 \<times> axi4_slave \<times> 't) res" where
  "read_beat T pin0 s0 t =
     (let pin = pin0\<lparr>rid := s_arid s0, rvalid := 1\<rparr>;
          update = (rready pin \<noteq> 0 \<or> r_cur_trans s0 = 0);
          s = (if update then
                 let s = s0\<lparr>r_cur_trans := r_cur_trans s0 + 1\<rparr> in
                 if r_cur_trans s = r_nr_trans s then s\<lparr>read_last := True, read_busy := False\<rparr> else s
               else s0);
          pin = pin\<lparr>rlast := b2w (read_last s)\<rparr>
      in if \<not> update then Inr (pin, s, t)
         else if r_early_err s then Inr (pin\<lparr>rresp := resp_code RESP_DECERR, rdata := 0\<rparr>, s, t)
         else if r_burst_type s = BURST_FIXED then
           bindR (t_read T (r_start_addr s) (ucast (r_tot_len s)) t) (\<lambda>(resp, bs, t).
           bindR (fill bs (unat (r_start_addr s mod 4096)) (r_data s)) (\<lambda>d.
           bindR (load_lane (r_start_addr s mod 4096) d) (\<lambda>v.
             Inr (pin\<lparr>rresp := resp_code resp, rdata := v\<rparr>, s\<lparr>r_data := d\<rparr>, t))))
         else
           bindR (load_lane (r_current_addr s) (r_data s)) (\<lambda>v.
             let pin = pin\<lparr>rresp := resp_code (r_resp s), rdata := v\<rparr>;
                 a = next_addr (r_current_addr s) (r_each_len s);
                 a = (if r_burst_type s = BURST_WRAP \<and>
                         a = r_start_addr s mod 4096 + ucast (r_each_len s * r_nr_trans s)
                      then r_start_addr s mod 4096 else a)
             in Inr (pin, s\<lparr>r_current_addr := a\<rparr>, t)))"

definition read_channel :: "'t target \<Rightarrow> axi4 \<Rightarrow> axi4_slave \<Rightarrow> 't \<Rightarrow> (axi4 \<times> axi4_slave \<times> 't) res" where
  "read_channel T pin0 s0 t0 =
     (let (pin, s) =
        (if read_last s0 \<and> rvalid pin0 \<noteq> 0 then
           (pin0\<lparr>rvalid := 0, rlast := 0\<rparr>,
            let s = s0\<lparr>read_last := False\<rparr> in
            if read_wait s then s\<lparr>read_wait := False, read_busy := True\<rparr> else s)
         else (pin0, s0))
      in bindR (if arready pin \<noteq> 0 \<and> arvalid pin \<noteq> 0 then
                  bindR (read_init T pin s t0) (\<lambda>(s, t).
                    Inr (if read_last s then s\<lparr>read_wait := True\<rparr> else s\<lparr>read_busy := True\<rparr>, t))
                else Inr (s, t0)) (\<lambda>(s, t).
         bindR (if read_busy s then read_beat T pin s t else Inr (pin, s, t)) (\<lambda>(pin, s, t).
           Inr (pin\<lparr>arready := b2w (\<not> read_busy s \<and> \<not> read_wait s)\<rparr>, s, t))))"

section \<open>The write channel\<close>

definition write_check :: "axi4_slave \<Rightarrow> bool" where
  "write_check s =
     (if w_burst_type s = BURST_RESERVED \<or> w_burst_type s = BURST_FIXED then False
      else if w_burst_type s = BURST_WRAP \<and> w_current_addr s mod ucast (w_each_len s) \<noteq> 0 then False
      else if w_burst_type s = BURST_WRAP \<and>
              (w_nr_trans s \<noteq> 2 \<or> w_nr_trans s \<noteq> 4 \<or> w_nr_trans s \<noteq> 8 \<or> w_nr_trans s \<noteq> 16) then False
      else
        let rem_addr = 4096 - (w_start_addr s mod 4096) in
        if ucast (w_tot_len s) > rem_addr then False
        else if ucast (w_each_len s) > D_bytes then False
        else True)"

definition write_init :: "axi4 \<Rightarrow> axi4_slave \<Rightarrow> axi4_slave res" where
  "write_init pin s0 =
     (let bt = awburst pin; el = each_len (awsize pin); nr = ucast (awlen pin) + 1;
          start = (if bt = BURST_WRAP then awaddr pin - awaddr pin mod ucast (el * nr) else awaddr pin);
          s = s0\<lparr>s_awid := awid pin, w_burst_type := bt, w_each_len := el, w_nr_trans := nr,
               w_current_addr := (if bt = BURST_WRAP then awaddr pin else awaddr pin - awaddr pin mod ucast el),
               w_start_addr := start, w_cur_trans := 0,
               w_tot_len := ucast (ucast (el * nr) - start mod ucast el)\<rparr>;
          s = s\<lparr>w_early_err := \<not> write_check s\<rparr>
      in if el = 0 then Inl Div_trap
         else if w_early_err s then Inl Assert_fail
         else Inr (s\<lparr>w_resp := RESP_OKEY\<rparr>))"

function run_end :: "u8 \<Rightarrow> nat \<Rightarrow> nat \<Rightarrow> nat" where
  "run_end strb r ed = (if bit strb r \<and> r < ed then run_end strb (r + 1) ed else r)"
  by pat_completeness auto
termination by (relation "measure (\<lambda>(_, r, ed). ed - r)") auto

declare run_end.simps [simp del]

lemma run_end_ge: "r \<le> run_end strb r ed"
proof (induction strb r ed rule: run_end.induct)
  case (1 strb r ed)
  then show ?case by (subst run_end.simps) (auto dest: Suc_leD)
qed

function strb_to_range :: "u8 \<Rightarrow> nat \<Rightarrow> nat \<Rightarrow> (nat \<times> nat) list" where
  "strb_to_range strb l ed =
     (if l < ed then
        if bit strb l then
          let r = run_end strb l ed in (l, r - l) # strb_to_range strb (r + 1) ed
        else strb_to_range strb (l + 1) ed
      else [])"
  by pat_completeness auto
termination
proof (relation "measure (\<lambda>(_, l, ed). ed - l)", goal_cases)
  case (2 strb l ed r)
  then show ?case using run_end_ge [of l strb ed] by simp
qed auto

declare strb_to_range.simps [simp del]

primrec write_ranges ::
  "'t target \<Rightarrow> QData \<Rightarrow> u64 \<Rightarrow> nat \<Rightarrow> (nat \<times> nat) list \<Rightarrow> axi4_slave \<Rightarrow> 't \<Rightarrow> (axi4_slave \<times> 't) res" where
  "write_ranges T data base pos [] s t = Inr (s, t)"
| "write_ranges T data base pos (q # qs) s t =
     (case q of (a, n) \<Rightarrow>
        let s = s\<lparr>w_buffer := map (byte_of data) [0..<8]\<rparr> in
        bindR (t_write T (base + of_nat a) (slice (w_buffer s) pos n) t) (\<lambda>(resp, t).
          write_ranges T data base pos qs (s\<lparr>w_resp := resp_or (w_resp s) resp\<rparr>) t))"

definition write_data :: "'t target \<Rightarrow> axi4 \<Rightarrow> axi4_slave \<Rightarrow> 't \<Rightarrow> (axi4_slave \<times> 't) res" where
  "write_data T pin s0 t =
     (let addr_base = w_current_addr s0;
          s = s0\<lparr>w_current_addr := next_addr addr_base (w_each_len s0)\<rparr>;
          s = (if w_current_addr s = w_start_addr s + ucast (w_each_len s * w_nr_trans s)
               then s\<lparr>w_cur_trans := ucast (w_start_addr s)\<rparr> else s);
          in_data_pos = addr_base mod D_bytes;
          addr_base = addr_base - addr_base mod D_bytes;
          rem_data_pos = ucast (w_each_len s) - in_data_pos mod ucast (w_each_len s);
          rs = strb_to_range (wstrb pin) (unat in_data_pos) (unat (in_data_pos + rem_data_pos))
      in write_ranges T (wdata pin) addr_base (unat in_data_pos) rs s t)"

definition write_beat :: "'t target \<Rightarrow> axi4 \<Rightarrow> axi4_slave \<Rightarrow> 't \<Rightarrow> (axi4_slave \<times> 't) res" where
  "write_beat T pin s0 t =
     (if wvalid pin \<noteq> 0 \<and> wready pin \<noteq> 0 then
        let s = s0\<lparr>w_cur_trans := w_cur_trans s0 + 1\<rparr>;
            done = (w_cur_trans s = w_nr_trans s);
            s = (if done then s\<lparr>write_busy := False, b_busy := True\<rparr> else s)
        in if done \<and> wlast pin = 0 then Inl Assert_fail
           else if w_early_err s then Inr (s, t)
           else write_data T pin s t
      else Inr (s0, t))"

definition b_beat :: "axi4 \<Rightarrow> axi4_slave \<Rightarrow> axi4 \<times> axi4_slave" where
  "b_beat pin s =
     (pin\<lparr>bid := s_awid s, bresp := (if w_early_err s then resp_code RESP_DECERR else resp_code (w_resp s))\<rparr>,
      if bvalid pin \<noteq> 0 \<and> bready pin \<noteq> 0 then s\<lparr>b_busy := False\<rparr> else s)"

definition write_channel :: "'t target \<Rightarrow> axi4 \<Rightarrow> axi4_slave \<Rightarrow> 't \<Rightarrow> (axi4 \<times> axi4_slave \<times> 't) res" where
  "write_channel T pin s0 t0 =
     bindR (if awready pin \<noteq> 0 \<and> awvalid pin \<noteq> 0
            then bindR (write_init pin s0) (\<lambda>s. Inr (s\<lparr>write_busy := True\<rparr>)) else Inr s0) (\<lambda>s.
     bindR (if write_busy s then write_beat T pin s t0 else Inr (s, t0)) (\<lambda>(s, t).
       let (pin, s) = (if b_busy s then b_beat pin s else (pin, s))
       in Inr (pin\<lparr>bvalid := b2w (b_busy s), awready := b2w (\<not> write_busy s \<and> \<not> b_busy s),
                   wready := b2w (\<not> b_busy s)\<rparr>, s, t)))"

definition beat :: "'t target \<Rightarrow> axi4 \<Rightarrow> axi4_slave \<Rightarrow> 't \<Rightarrow> (axi4 \<times> axi4_slave \<times> 't) res" where
  "beat T pin s t = bindR (read_channel T pin s t) (\<lambda>(pin, s, t). write_channel T pin s t)"

text \<open>The members with an initializer; the others are unspecified and come from the argument.\<close>

definition slave_new :: "axi4_slave \<Rightarrow> axi4_slave" where
  "slave_new s = s\<lparr>read_busy := False, read_last := False, read_wait := False, write_busy := False, b_busy := False\<rparr>"

section \<open>The memory behind the slave\<close>

record axi4_mem =
  am_mem :: "u8 list"

definition am_size :: "axi4_mem \<Rightarrow> u64" where
  "am_size m = of_nat (length (am_mem m))"

definition round_size :: "u64 \<Rightarrow> u64" where
  "round_size n = (if n mod 8 \<noteq> 0 then n + (8 - n mod 8) else n)"

text \<open>\<open>fresh n\<close> are the unspecified bytes that \<open>new unsigned char[n]\<close> gives.\<close>

definition axi4_mem_new :: "(nat \<Rightarrow> u8 list) \<Rightarrow> u64 \<Rightarrow> axi4_mem" where
  "axi4_mem_new fresh n = \<lparr>am_mem = fresh (unat (round_size n))\<rparr>"

definition axi4_mem_binary :: "(nat \<Rightarrow> u8 list) \<Rightarrow> u64 \<Rightarrow> u8 list \<Rightarrow> axi4_mem res" where
  "axi4_mem_binary fresh n init =
     (if length init \<le> unat n then Inr \<lparr>am_mem = splice_at (fresh (unat (round_size n))) 0 init\<rparr> else Inl Assert_fail)"

definition am_read :: "u64 \<Rightarrow> u64 \<Rightarrow> axi4_mem \<Rightarrow> u8 list option res" where
  "am_read start_addr n m =
     (if start_addr + n \<le> am_size m then
        if unat start_addr + unat n \<le> length (am_mem m)
        then Inr (Some (slice (am_mem m) (unat start_addr) (unat n)))
        else Inl Out_of_bounds
      else Inr None)"

definition am_write :: "u64 \<Rightarrow> u8 list \<Rightarrow> axi4_mem \<Rightarrow> (bool \<times> axi4_mem) res" where
  "am_write start_addr buffer m =
     (if start_addr + of_nat (length buffer) \<le> am_size m then
        if unat start_addr + length buffer \<le> length (am_mem m)
        then Inr (True, m\<lparr>am_mem := splice_at (am_mem m) (unat start_addr) buffer\<rparr>)
        else Inl Out_of_bounds
      else Inr (False, m))"

text \<open>\<open>load_binary\<close> on a file with the given content; \<open>file.read\<close> stores as many bytes as the file has, at
  most the count asked for.\<close>

definition load_binary :: "u8 list \<Rightarrow> u64 \<Rightarrow> axi4_mem \<Rightarrow> axi4_mem res" where
  "load_binary content start_addr m =
     (let file_size = of_nat (length content) :: u64;
          file_size = (if start_addr \<ge> am_size m \<or> file_size > am_size m - start_addr then am_size m else file_size);
          bs = take (unat file_size) content
      in if unat start_addr + length bs \<le> length (am_mem m)
         then Inr (m\<lparr>am_mem := splice_at (am_mem m) (unat start_addr) bs\<rparr>)
         else Inl Out_of_bounds)"

definition am_do_read :: "u64 \<Rightarrow> u64 \<Rightarrow> axi4_mem \<Rightarrow> (axi_resp \<times> u8 list option \<times> axi4_mem) res" where
  "am_do_read start_addr n m =
     (if start_addr + n \<le> am_size m then
        if unat start_addr + unat n \<le> length (am_mem m)
        then Inr (RESP_OKEY, Some (slice (am_mem m) (unat start_addr) (unat n)), m)
        else Inl Out_of_bounds
      else Inr (RESP_DECERR, None, m))"

definition am_do_write :: "u64 \<Rightarrow> u8 list \<Rightarrow> axi4_mem \<Rightarrow> (axi_resp \<times> axi4_mem) res" where
  "am_do_write start_addr buffer m =
     (if start_addr + of_nat (length buffer) \<le> am_size m then
        if unat start_addr + length buffer \<le> length (am_mem m)
        then Inr (RESP_OKEY, m\<lparr>am_mem := splice_at (am_mem m) (unat start_addr) buffer\<rparr>)
        else Inl Out_of_bounds
      else Inr (RESP_DECERR, m))"

definition mem_target :: "axi4_mem target" where
  "mem_target = \<lparr>t_read = am_do_read, t_write = am_do_write\<rparr>"

definition xbar_target :: "xbar target" where
  "xbar_target = \<lparr>t_read = xbar_do_read, t_write = xbar_do_write\<rparr>"

end
