(* ===== verification/Axi_Burst.thy ===== *)
theory Axi_Burst
  imports Axi_Slave
begin

text \<open>
  Correctness of the AXI slave: the contract of a target and its instances, the incrementing read and
  write bursts against the memory, the splitting of write strobes, and the requests for which the slave
  departs from the protocol.
\<close>

section \<open>Sizes and addresses\<close>

lemma unat_each_len: "unat sz \<le> 3 \<Longrightarrow> unat (each_len sz) = 2 ^ unat sz"
proof -
  assume "unat sz \<le> 3"
  then have "unat sz = 0 \<or> unat sz = 1 \<or> unat sz = 2 \<or> unat sz = 3" by linarith
  then show ?thesis by (auto simp: each_len_def)
qed

lemma unat_nr_trans: "unat (ucast (n :: CData) + 1 :: u32) = unat n + 1"
proof -
  have "unat n < 256" using unsigned_less [of n, where 'a = nat] by simp
  then show ?thesis using unat_add_small [of "ucast n :: u32" 1] by (simp add: unat_ucast_up)
qed

lemma pow2_le3: "(k :: nat) \<le> 3 \<Longrightarrow> (2 :: nat) ^ k \<in> {1, 2, 4, 8}"
proof -
  assume "k \<le> 3"
  then have "k = 0 \<or> k = 1 \<or> k = 2 \<or> k = 3" by linarith
  then show ?thesis by auto
qed

lemma mod_mod_size: "E \<in> {1, 2, 4, 8} \<Longrightarrow> (x mod 4096) mod E = x mod (E :: nat)"
  by (auto simp: mod_mod_cancel)

lemma ucast_u32_u64: "unat (ucast (x :: u32) :: u64) = unat x"
  by (simp add: unat_ucast_up)

text \<open>The request of a legal incrementing burst, in natural numbers.\<close>

definition beat_bytes :: "CData \<Rightarrow> nat" where "beat_bytes sz = 2 ^ unat sz"

definition beats :: "CData \<Rightarrow> nat" where "beats n = unat n + 1"

definition aligned_start :: "u64 \<Rightarrow> CData \<Rightarrow> nat" where
  "aligned_start a sz = unat a - unat a mod beat_bytes sz"

definition legal_incr :: "u64 \<Rightarrow> CData \<Rightarrow> CData \<Rightarrow> bool" where
  "legal_incr a n sz \<longleftrightarrow> unat sz \<le> 3 \<and> aligned_start a sz mod 4096 + beats n * beat_bytes sz \<le> 4096"

lemma beat_bytes_cases: "unat sz \<le> 3 \<Longrightarrow> beat_bytes sz \<in> {1, 2, 4, 8}"
  unfolding beat_bytes_def by (rule pow2_le3)

text \<open>What the size of a beat alone gives.\<close>

lemma size_facts:
  fixes n sz :: CData and a :: u64
  assumes "unat sz \<le> 3"
  defines "E \<equiv> beat_bytes sz" and "N \<equiv> beats n" and "A \<equiv> unat a"
  shows "E \<in> {1, 2, 4, 8}" "0 < N" "N \<le> 256" "A mod E \<le> A mod 4096" "aligned_start a sz mod 4096 = A mod 4096 - A mod E"
    "A mod E < E" "E * N \<le> 2048" "A mod E < E * N"
proof -
  show E: "E \<in> {1, 2, 4, 8}" using beat_bytes_cases [of sz] assms(1) by (simp add: E_def)
  show N0: "0 < N" by (simp add: N_def beats_def)
  have "unat n < 256" using unsigned_less [of n, where 'a = nat] by simp
  then show N: "N \<le> 256" by (simp add: N_def beats_def)
  have m: "A mod E = (A mod 4096) mod E" using mod_mod_size [OF E, of A] by simp
  show le: "A mod E \<le> A mod 4096" unfolding m by (rule mod_less_eq_dividend)
  show lt: "A mod E < E" using E by auto
  have "A - A mod E = 4096 * (A div 4096) + (A mod 4096 - A mod E)"
    using le by (metis Nat.add_diff_assoc div_mult_mod_eq mult.commute)
  then have "(A - A mod E) mod 4096 = (A mod 4096 - A mod E) mod 4096" by (metis mod_mult_self4)
  also have "\<dots> = A mod 4096 - A mod E" by (simp add: le_less_trans [OF diff_le_self])
  finally show "aligned_start a sz mod 4096 = A mod 4096 - A mod E"
    by (simp add: aligned_start_def A_def E_def)
  have "E \<le> 8" using E by auto
  then have "E * N \<le> 8 * 256" by (rule mult_le_mono [OF _ N])
  then show "E * N \<le> 2048" by simp
  have "E * 1 \<le> E * N" using N0 by (intro mult_le_mono) auto
  then show "A mod E < E * N" using lt by linarith
qed

lemma legal_facts:
  assumes "legal_incr a n sz"
  defines "E \<equiv> beat_bytes sz" and "N \<equiv> beats n" and "A \<equiv> unat a"
  shows "E \<in> {1, 2, 4, 8}" "0 < N" "N \<le> 256" "A mod E \<le> A mod 4096" "aligned_start a sz mod 4096 = A mod 4096 - A mod E"
    "A mod 4096 - A mod E + N * E \<le> 4096" "A mod E < E"
proof -
  have sz: "unat sz \<le> 3" using assms(1) by (simp add: legal_incr_def)
  note f = size_facts [OF sz]
  show "E \<in> {1, 2, 4, 8}" "0 < N" "N \<le> 256" "A mod E \<le> A mod 4096" "A mod E < E"
    unfolding E_def N_def A_def by (rule f(1,2,3,4,6))+
  show al: "aligned_start a sz mod 4096 = A mod 4096 - A mod E" unfolding E_def A_def by (rule f(5))
  show "A mod 4096 - A mod E + N * E \<le> 4096" using assms(1) al unfolding legal_incr_def E_def N_def by simp
qed

section \<open>Setting up a burst\<close>

lemma size_lengths:
  fixes n sz :: CData and a :: u64
  assumes "unat sz \<le> 3"
  defines "el \<equiv> each_len sz" and "nr \<equiv> ucast n + 1 :: u32"
  shows "unat el = beat_bytes sz" "unat nr = beats n" "unat (el * nr) = beat_bytes sz * beats n"
    "unat (ucast el :: u64) = beat_bytes sz" "unat (a mod ucast el) = unat a mod beat_bytes sz"
    "unat (a mod 4096 - a mod ucast el) = aligned_start a sz mod 4096"
    "unat (ucast (ucast (el * nr) - a mod ucast el :: u64) :: u32) = beat_bytes sz * beats n - unat a mod beat_bytes sz"
proof -
  note f = size_facts [OF assms(1)]
  show el: "unat el = beat_bytes sz" using assms(1) by (simp add: el_def beat_bytes_def unat_each_len)
  show nr: "unat nr = beats n" by (simp add: nr_def beats_def unat_nr_trans)
  show p: "unat (el * nr) = beat_bytes sz * beats n" using f(7) [of n] by (simp add: unat_word_ariths el nr)
  show el64: "unat (ucast el :: u64) = beat_bytes sz" by (simp add: ucast_u32_u64 el)
  show m: "unat (a mod ucast el) = unat a mod beat_bytes sz" by (simp add: unat_mod_distrib el64)
  have m4: "unat (a mod 4096) = unat a mod 4096" by (simp add: unat_mod_distrib)
  show "unat (a mod 4096 - a mod ucast el) = aligned_start a sz mod 4096"
    using f(4,5) [of a] by (simp add: unat_sub word_le_nat_alt m m4)
  have "unat (ucast (el * nr) - a mod ucast el :: u64) = beat_bytes sz * beats n - unat a mod beat_bytes sz"
    using f(8) [of a n] by (simp add: unat_sub word_le_nat_alt m p ucast_u32_u64)
  moreover have "beat_bytes sz * beats n - unat a mod beat_bytes sz < 2 ^ 32" using f(7) [of n] by simp
  ultimately show "unat (ucast (ucast (el * nr) - a mod ucast el :: u64) :: u32) = beat_bytes sz * beats n - unat a mod beat_bytes sz"
    by (simp add: unsigned_ucast_eq take_bit_nat_eq_self)
qed

lemma burst_lengths:
  assumes "legal_incr a n sz"
  defines "el \<equiv> each_len sz" and "nr \<equiv> ucast n + 1 :: u32"
  shows "unat el = beat_bytes sz" "unat nr = beats n" "unat (el * nr) = beat_bytes sz * beats n"
    "unat (ucast el :: u64) = beat_bytes sz" "unat (a mod ucast el) = unat a mod beat_bytes sz"
    "unat (a mod 4096 - a mod ucast el) = aligned_start a sz mod 4096"
    "unat (ucast (ucast (el * nr) - a mod ucast el :: u64) :: u32) = beat_bytes sz * beats n - unat a mod beat_bytes sz"
  unfolding el_def nr_def using assms(1) by (auto simp: legal_incr_def intro!: size_lengths)

lemma burst_room:
  assumes "legal_incr a n sz"
  shows "\<not> (4096 - a mod 4096 < ucast (ucast (ucast (each_len sz * (ucast n + 1)) - a mod ucast (each_len sz) :: u64) :: u32))"
    "\<not> (D_bytes < ucast (each_len sz))" "each_len sz \<noteq> 0"
    "unat a mod 4096 + (beat_bytes sz * beats n - unat a mod beat_bytes sz) \<le> 4096"
    "unat a mod beat_bytes sz < beat_bytes sz * beats n"
proof -
  note f = legal_facts [OF assms] and b = burst_lengths [OF assms]
  have "beat_bytes sz * 1 \<le> beat_bytes sz * beats n" using f(2) by (intro mult_le_mono) auto
  then show lt: "unat a mod beat_bytes sz < beat_bytes sz * beats n" using f(7) by linarith
  show r: "unat a mod 4096 + (beat_bytes sz * beats n - unat a mod beat_bytes sz) \<le> 4096"
    using f(4,6) lt by (simp add: mult.commute)
  have "unat (4096 - a mod 4096) = 4096 - unat a mod 4096"
    by (simp add: unat_sub word_le_nat_alt unat_mod_distrib less_imp_le)
  then show "\<not> (4096 - a mod 4096 < ucast (ucast (ucast (each_len sz * (ucast n + 1)) - a mod ucast (each_len sz) :: u64) :: u32))"
    using r by (simp add: word_less_nat_alt ucast_u32_u64 b(7))
  show "\<not> (D_bytes < ucast (each_len sz))"
    using f(1) by (auto simp: D_bytes_def word_less_nat_alt b(4))
  have "unat (each_len sz) \<noteq> 0" using f(1) b(1) by auto
  then show "each_len sz \<noteq> 0" by auto
qed

lemma read_setup_incr:
  assumes "legal_incr (araddr pin) (arlen pin) (arsize pin)" "arburst pin = BURST_INCR"
  shows "\<not> r_early_err (read_setup pin s)" "r_each_len (read_setup pin s) = each_len (arsize pin)"
    "r_start_addr (read_setup pin s) = araddr pin" "r_cur_trans (read_setup pin s) = 0"
    "unat (r_nr_trans (read_setup pin s)) = beats (arlen pin)"
    "unat (r_current_addr (read_setup pin s)) = aligned_start (araddr pin) (arsize pin) mod 4096"
    "unat (r_tot_len (read_setup pin s))
       = beat_bytes (arsize pin) * beats (arlen pin) - unat (araddr pin) mod beat_bytes (arsize pin)"
    "r_burst_type (read_setup pin s) = BURST_INCR" "s_arid (read_setup pin s) = arid pin"
    "r_data (read_setup pin s) = r_data s" "read_last (read_setup pin s) = read_last s"
    "read_wait (read_setup pin s) = read_wait s"
  using burst_lengths [OF assms(1)] burst_room [OF assms(1)] assms(2)
  by (simp_all add: read_setup_def Let_def read_check_def burst_defs)

section \<open>The beats of a read burst\<close>

text \<open>\<open>reading q d resp k s\<close>: the slave has presented \<open>k\<close> beats of the incrementing burst requested by \<open>q\<close>, out
  of the buffer \<open>d\<close>.\<close>

definition reading :: "axi4 \<Rightarrow> u8 list \<Rightarrow> axi_resp \<Rightarrow> nat \<Rightarrow> axi4_slave \<Rightarrow> bool" where
  "reading q d resp k s \<longleftrightarrow>
     r_each_len s = each_len (arsize q) \<and> unat (r_nr_trans s) = beats (arlen q) \<and> unat (r_cur_trans s) = k
     \<and> unat (r_current_addr s) = aligned_start (araddr q) (arsize q) mod 4096 + k * beat_bytes (arsize q)
     \<and> r_burst_type s = BURST_INCR \<and> \<not> r_early_err s \<and> r_data s = d \<and> r_resp s = resp \<and> s_arid s = arid q
     \<and> \<not> read_wait s \<and> read_busy s = (k < beats (arlen q)) \<and> read_last s = (k = beats (arlen q))"

definition lane_of :: "nat \<Rightarrow> nat" where "lane_of x = x - x mod 8"

text \<open>The pins after the slave has put beat \<open>k\<close> on the bus.\<close>

definition r_pins :: "axi4 \<Rightarrow> u8 list \<Rightarrow> axi_resp \<Rightarrow> nat \<Rightarrow> axi4 \<Rightarrow> axi4" where
  "r_pins q d resp k pin = pin\<lparr>rid := arid q, rvalid := 1, rlast := b2w (Suc k = beats (arlen q)), rresp := resp_code resp,
     rdata := le_load ((!) d) (lane_of (aligned_start (araddr q) (arsize q) mod 4096 + k * beat_bytes (arsize q))) 8\<rparr>"

lemma unat_succ32: "unat (x :: u32) < 300 \<Longrightarrow> unat (x + 1) = unat x + 1"
  using unat_add_small [of x 1] by simp

lemma load_lane_in:
  assumes "length d = 4096" "unat a < 4096"
  shows "load_lane a d = Inr (le_load ((!) d) (lane_of (unat a)) 8)"
proof -
  have "a mod 8 \<le> a" by (simp add: word_le_nat_alt unat_mod_distrib)
  then have u: "unat (a - a mod 8) = lane_of (unat a)" by (simp add: lane_of_def unat_sub unat_mod_distrib)
  have "lane_of (unat a) = 8 * (unat a div 8)" by (simp add: lane_of_def minus_mod_eq_mult_div)
  moreover have "unat a div 8 \<le> 511" using assms(2) by simp
  ultimately have "lane_of (unat a) + 8 \<le> 4096" by linarith
  then show ?thesis using assms(1) by (simp add: load_lane_def D_bytes_def u)
qed

lemma next_addr_aligned:
  assumes "unat el = E" "E \<in> {1, 2, 4, 8}" "unat a mod E = 0" "unat a + E < 2 ^ 64"
  shows "unat (next_addr a el) = unat a + E"
proof -
  have "unat (a mod ucast el) = 0" using assms(1,3) by (simp add: unat_mod_distrib ucast_u32_u64)
  then have "next_addr a el = a + ucast el" by (simp add: next_addr_def unsigned_eq_0_iff)
  then show ?thesis using assms(1,4) by (simp add: unat_word_ariths ucast_u32_u64)
qed

lemma aligned_multiple:
  assumes "legal_incr a n sz"
  shows "(aligned_start a sz mod 4096 + k * beat_bytes sz) mod beat_bytes sz = 0" "aligned_start a sz mod beat_bytes sz = 0"
proof -
  note f = legal_facts [OF assms]
  show z: "aligned_start a sz mod beat_bytes sz = 0"
    by (simp add: aligned_start_def minus_mod_eq_mult_div)
  show "(aligned_start a sz mod 4096 + k * beat_bytes sz) mod beat_bytes sz = 0"
    using mod_mod_size [OF f(1), of "aligned_start a sz"] z by simp
qed

lemma read_beat_incr:
  assumes "r_burst_type s \<noteq> BURST_FIXED" "r_burst_type s \<noteq> BURST_WRAP" "\<not> r_early_err s" "rready pin \<noteq> 0 \<or> r_cur_trans s = 0"
    and "load_lane (r_current_addr s) (r_data s) = Inr v"
  defines "fin \<equiv> r_cur_trans s + 1 = r_nr_trans s"
  shows "read_beat T pin s t =
    Inr (pin\<lparr>rid := s_arid s, rvalid := 1, rlast := b2w (read_last s \<or> fin), rresp := resp_code (r_resp s), rdata := v\<rparr>,
         s\<lparr>r_cur_trans := r_cur_trans s + 1, read_last := read_last s \<or> fin, read_busy := read_busy s \<and> \<not> fin,
           r_current_addr := next_addr (r_current_addr s) (r_each_len s)\<rparr>, t)"
  using assms(1-5) unfolding fin_def read_beat_def Let_def
  by (cases "r_cur_trans s + 1 = r_nr_trans s") simp_all

lemma read_beat_fixed:
  assumes "r_burst_type s = BURST_FIXED" "\<not> r_early_err s" "rready pin \<noteq> 0 \<or> r_cur_trans s = 0"
    and "t_read T (r_start_addr s) (ucast (r_tot_len s)) t = Inr (resp, bs, t')"
    and "fill bs (unat (r_start_addr s mod 4096)) (r_data s) = Inr d" "load_lane (r_start_addr s mod 4096) d = Inr v"
  defines "fin \<equiv> r_cur_trans s + 1 = r_nr_trans s"
  shows "read_beat T pin s t =
    Inr (pin\<lparr>rid := s_arid s, rvalid := 1, rlast := b2w (read_last s \<or> fin), rresp := resp_code resp, rdata := v\<rparr>,
         s\<lparr>r_cur_trans := r_cur_trans s + 1, read_last := read_last s \<or> fin, read_busy := read_busy s \<and> \<not> fin, r_data := d\<rparr>, t')"
  using assms(1-6) unfolding fin_def read_beat_def Let_def
  by (cases "r_cur_trans s + 1 = r_nr_trans s") simp_all

lemma read_beat_step:
  assumes "reading q d resp k s" "k < beats (arlen q)" "rready pin \<noteq> 0 \<or> k = 0" "length d = 4096"
    and "legal_incr (araddr q) (arlen q) (arsize q)"
  shows "\<exists>s'. read_beat T pin s t = Inr (r_pins q d resp k pin, s', t) \<and> reading q d resp (Suc k) s'"
proof -
  let ?E = "beat_bytes (arsize q)" and ?N = "beats (arlen q)" and ?al = "aligned_start (araddr q) (arsize q) mod 4096"
  note f = legal_facts [OF assms(5)] and r = assms(1) [unfolded reading_def]
  have upd: "rready pin \<noteq> 0 \<or> r_cur_trans s = 0" using assms(3) r by (auto simp: unsigned_eq_0_iff)
  have k1: "unat (r_cur_trans s + 1) = Suc k" using r assms(2) f(3) unat_succ32 [of "r_cur_trans s"] by simp
  have fin: "r_cur_trans s + 1 = r_nr_trans s \<longleftrightarrow> Suc k = ?N" using k1 r by (metis word_unat_eq_iff)
  have "Suc k * ?E \<le> ?N * ?E" using assms(2) by (intro mult_le_mono) auto
  then have room: "?al + k * ?E + ?E \<le> 4096" using f(5,6) by (simp add: add.assoc)
  have "0 < ?E" using f(1) by auto
  then have cur: "unat (r_current_addr s) < 4096" using r room by linarith
  have E: "unat (each_len (arsize q)) = ?E" by (rule burst_lengths(1) [OF assms(5)])
  have "unat (next_addr (r_current_addr s) (each_len (arsize q))) = ?al + Suc k * ?E"
    using next_addr_aligned [OF E f(1), of "r_current_addr s"] aligned_multiple(1) [OF assms(5), of k] r room by simp
  moreover have "load_lane (r_current_addr s) (r_data s)
      = Inr (le_load ((!) d) (lane_of (?al + k * ?E)) 8)"
    using load_lane_in [OF assms(4) cur] r by simp
  note read_beat_incr [OF _ _ _ upd this, of T t]
  ultimately show ?thesis
    using r assms(2) by (simp add: fin k1 r_pins_def reading_def burst_defs) linarith
qed

lemma length_clear_lane:
  assumes "length d = 4096"
  shows "length (clear_lane a d) = 4096"
proof -
  let ?c = "a mod 4096"
  have "?c mod 8 \<le> ?c" by (simp add: word_le_nat_alt unat_mod_distrib)
  then have u: "unat (?c - ?c mod 8) = lane_of (unat ?c)" by (simp add: lane_of_def unat_sub unat_mod_distrib)
  have "lane_of (unat ?c) = 8 * (unat ?c div 8)" by (simp add: lane_of_def minus_mod_eq_mult_div)
  moreover have "unat ?c < 4096" by (simp add: unat_mod_distrib)
  then have "unat ?c div 8 \<le> 511" by simp
  ultimately have "lane_of (unat ?c) + 8 \<le> 4096" by linarith
  then show ?thesis using assms by (simp add: clear_lane_def D_bytes_def u splice_simps)
qed

text \<open>The number of bytes a burst asks its target for.\<close>

definition burst_len :: "axi4 \<Rightarrow> nat" where
  "burst_len q = beat_bytes (arsize q) * beats (arlen q) - unat (araddr q) mod beat_bytes (arsize q)"

lemma burst_len_word:
  assumes "legal_incr (araddr q) (arlen q) (arsize q)" "arburst q = BURST_INCR"
  shows "ucast (r_tot_len (read_setup q s)) = (of_nat (burst_len q) :: u64)" "burst_len q \<le> 2048" "0 < burst_len q"
proof -
  note f = legal_facts [OF assms(1)]
  have E8: "beat_bytes (arsize q) \<le> 8" using f(1) by auto
  have "beat_bytes (arsize q) * beats (arlen q) \<le> 8 * 256" by (rule mult_le_mono [OF E8 f(3)])
  then show le: "burst_len q \<le> 2048" by (simp add: burst_len_def)
  show "ucast (r_tot_len (read_setup q s)) = (of_nat (burst_len q) :: u64)"
    using read_setup_incr(7) [OF assms] le
    by (simp add: word_unat_eq_iff ucast_u32_u64 burst_len_def unat_of_nat_small)
  show "0 < burst_len q" using burst_room(5) [OF assms(1)] by (simp add: burst_len_def)
qed

lemma read_init_incr:
  assumes "legal_incr (araddr q) (arlen q) (arsize q)" "arburst q = BURST_INCR" "length (r_data s) = 4096"
    and "\<not> read_last s" "\<not> read_wait s"
    and "t_read T (araddr q) (of_nat (burst_len q)) t = Inr (resp, bs, t')" "\<forall>b. bs = Some b \<longrightarrow> length b = burst_len q"
  shows "\<exists>s' d. read_init T q s t = Inr (s', t') \<and> length d = 4096 \<and> reading q d resp 0 (s'\<lparr>read_busy := True\<rparr>)
    \<and> (\<forall>b. bs = Some b \<longrightarrow> slice d (unat (araddr q) mod 4096) (burst_len q) = b)"
proof -
  note f = legal_facts [OF assms(1)] and rs = read_setup_incr [OF assms(1,2), of s] and bl = burst_len_word(1) [OF assms(1,2), of s]
  define d1 where "d1 = (if araddr q mod D_bytes \<noteq> 0 then clear_lane (araddr q) (r_data s) else r_data s)"
  define d2 where "d2 = (if (araddr q + of_nat (burst_len q)) mod D_bytes \<noteq> 0
    then clear_lane (araddr q + of_nat (burst_len q)) d1 else d1)"
  have l1: "length d1 = 4096" unfolding d1_def using assms(3) length_clear_lane by simp
  then have l2: "length d2 = 4096" unfolding d2_def using length_clear_lane by simp
  define d3 where "d3 = (case bs of None \<Rightarrow> d2 | Some b \<Rightarrow> splice_at d2 (unat (araddr q) mod 4096) b)"
  have room: "unat (araddr q) mod 4096 + burst_len q \<le> 4096" using burst_room(4) [OF assms(1)] by (simp add: burst_len_def)
  have fill: "fill bs (unat (araddr q mod 4096)) d2 = Inr d3"
    using room assms(7) l2 by (cases bs) (simp_all add: fill_def d3_def unat_mod_distrib)
  have l3: "length d3 = 4096" using room assms(7) l2 by (cases bs) (simp_all add: d3_def splice_simps)
  have "r_each_len (read_setup q s) \<noteq> 0" using rs(2) burst_room(3) [OF assms(1)] by simp
  then have "read_init T q s t = Inr ((read_setup q s)\<lparr>r_resp := resp, r_data := d3\<rparr>, t')"
    using rs bl assms(6) fill [unfolded d2_def d1_def]
    by (simp add: read_init_def Let_def burst_defs split: if_splits)
  moreover have "reading q d3 resp 0 ((read_setup q s)\<lparr>r_resp := resp, r_data := d3, read_busy := True\<rparr>)"
    using rs assms(4,5) f(2) by (simp add: reading_def)
  moreover have "slice d3 (unat (araddr q) mod 4096) (burst_len q) = b" if "bs = Some b" for b
  proof -
    have "length b = burst_len q" using that assms(7) by simp
    with slice_splice_at_same [of "unat (araddr q) mod 4096" b d2] room l2 that show ?thesis by (simp add: d3_def)
  qed
  ultimately show ?thesis using l3 by auto
qed

section \<open>Running the read channel\<close>

text \<open>Each cycle the master drives its pins and the slave answers; the pins after every cycle are kept.\<close>

primrec read_run :: "'t target \<Rightarrow> (axi4 \<Rightarrow> axi4) list \<Rightarrow> axi4 \<Rightarrow> axi4_slave \<Rightarrow> 't \<Rightarrow> (axi4 list \<times> axi4_slave \<times> 't) res" where
  "read_run T [] pin s t = Inr ([], s, t)"
| "read_run T (f # fs) pin s t =
     bindR (read_channel T (f pin) s t) (\<lambda>(pin, s, t).
     bindR (read_run T fs pin s t) (\<lambda>(ps, s, t). Inr (pin # ps, s, t)))"

definition accept_data :: "axi4 \<Rightarrow> axi4" where
  "accept_data pin = pin\<lparr>arvalid := 0, rready := 1\<rparr>"

text \<open>The pins in cycle \<open>k\<close> of a burst as the master reads them.\<close>

definition shows_beat :: "axi4 \<Rightarrow> u8 list \<Rightarrow> axi_resp \<Rightarrow> nat \<Rightarrow> axi4 \<Rightarrow> bool" where
  "shows_beat q d resp k pin \<longleftrightarrow> rvalid pin = 1 \<and> rid pin = arid q \<and> rlast pin = b2w (Suc k = beats (arlen q))
     \<and> rresp pin = resp_code resp
     \<and> rdata pin = le_load ((!) d) (lane_of (aligned_start (araddr q) (arsize q) mod 4096 + k * beat_bytes (arsize q))) 8
     \<and> arready pin = b2w (Suc k = beats (arlen q))"

lemma read_channel_busy:
  assumes "reading q d resp k s" "k < beats (arlen q)" "rready pin \<noteq> 0 \<or> k = 0" "arvalid pin = 0 \<or> arready pin = 0"
    and "length d = 4096" "legal_incr (araddr q) (arlen q) (arsize q)"
  shows "\<exists>pin' s'. read_channel T pin s t = Inr (pin', s', t) \<and> shows_beat q d resp k pin' \<and> reading q d resp (Suc k) s'"
proof -
  obtain s' where b: "read_beat T pin s t = Inr (r_pins q d resp k pin, s', t)" and s': "reading q d resp (Suc k) s'"
    using read_beat_step [OF assms(1-3,5,6), of T t] by blast
  have "\<not> read_last s" "read_busy s" using assms(1,2) by (simp_all add: reading_def)
  then have "read_channel T pin s t
      = Inr ((r_pins q d resp k pin)\<lparr>arready := b2w (\<not> read_busy s' \<and> \<not> read_wait s')\<rparr>, s', t)"
    using b assms(4) by (auto simp: read_channel_def)
  moreover have "shows_beat q d resp k ((r_pins q d resp k pin)\<lparr>arready := b2w (\<not> read_busy s' \<and> \<not> read_wait s')\<rparr>)"
    using s' assms(2) by (auto simp: shows_beat_def r_pins_def reading_def b2w_def)
  ultimately show ?thesis using s' by blast
qed

lemma read_channel_start:
  assumes "arready q \<noteq> 0" "arvalid q \<noteq> 0" "\<not> read_busy s" "\<not> read_wait s" "read_last s \<longrightarrow> rvalid q \<noteq> 0"
    and "legal_incr (araddr q) (arlen q) (arsize q)" "arburst q = BURST_INCR" "length (r_data s) = 4096"
    and "t_read T (araddr q) (of_nat (burst_len q)) t = Inr (resp, bs, t')" "\<forall>b. bs = Some b \<longrightarrow> length b = burst_len q"
  shows "\<exists>pin' s' d. read_channel T q s t = Inr (pin', s', t') \<and> shows_beat q d resp 0 pin' \<and> reading q d resp 1 s'
    \<and> length d = 4096 \<and> (\<forall>b. bs = Some b \<longrightarrow> slice d (unat (araddr q) mod 4096) (burst_len q) = b)"
proof -
  define s0 where "s0 = s\<lparr>read_last := False\<rparr>"
  define q0 where "q0 = (if read_last s then q\<lparr>rvalid := 0, rlast := 0\<rparr> else q)"
  have q0: "araddr q0 = araddr q" "arlen q0 = arlen q" "arsize q0 = arsize q" "arburst q0 = arburst q" "arid q0 = arid q"
      "arready q0 \<noteq> 0" "arvalid q0 \<noteq> 0" "burst_len q0 = burst_len q"
    using assms(1,2) by (simp_all add: q0_def burst_len_def)
  obtain s1 d where i: "read_init T q0 s0 t = Inr (s1, t')" "length d = 4096" "reading q0 d resp 0 (s1\<lparr>read_busy := True\<rparr>)"
      "\<forall>b. bs = Some b \<longrightarrow> slice d (unat (araddr q0) mod 4096) (burst_len q0) = b"
    using read_init_incr [of q0 s0 T t resp bs t'] assms q0 by (auto simp: s0_def)
  have r: "reading q d resp 0 (s1\<lparr>read_busy := True\<rparr>)" using i(3) q0 by (simp add: reading_def)
  have N: "0 < beats (arlen q)" by (simp add: beats_def)
  obtain s2 where b: "read_beat T q0 (s1\<lparr>read_busy := True\<rparr>) t' = Inr (r_pins q d resp 0 q0, s2, t')" "reading q d resp 1 s2"
    using read_beat_step [OF r N _ i(2) assms(6), of q0 T t'] by auto
  have "(if read_last s \<and> rvalid q \<noteq> 0 then
           (q\<lparr>rvalid := 0, rlast := 0\<rparr>, let s = s\<lparr>read_last := False\<rparr> in if read_wait s then s\<lparr>read_wait := False, read_busy := True\<rparr> else s)
         else (q, s)) = (q0, s0)"
    using assms(4,5) by (cases "read_last s") (simp_all add: q0_def s0_def)
  moreover have "\<not> read_last s1" using i(3) N by (simp add: reading_def)
  ultimately have "read_channel T q s t
      = Inr ((r_pins q d resp 0 q0)\<lparr>arready := b2w (\<not> read_busy s2 \<and> \<not> read_wait s2)\<rparr>, s2, t')"
    using i(1) b(1) q0 by (simp add: read_channel_def)
  moreover have "shows_beat q d resp 0 ((r_pins q d resp 0 q0)\<lparr>arready := b2w (\<not> read_busy s2 \<and> \<not> read_wait s2)\<rparr>)"
    using b(2) by (auto simp: shows_beat_def r_pins_def reading_def b2w_def beats_def)
  ultimately show ?thesis using b(2) i(2,4) q0 by auto
qed

lemma read_run_busy:
  assumes "length d = 4096" "legal_incr (araddr q) (arlen q) (arsize q)"
  shows "reading q d resp k s \<Longrightarrow> k + n = beats (arlen q) \<Longrightarrow> 0 < k \<Longrightarrow>
    \<exists>ps s'. read_run T (replicate n accept_data) pin s t = Inr (ps, s', t) \<and> length ps = n
      \<and> (\<forall>i<n. shows_beat q d resp (k + i) (ps ! i))"
proof (induction n arbitrary: k pin s)
  case (Suc n)
  have "k < beats (arlen q)" using Suc.prems(2) by simp
  from read_channel_busy [OF Suc.prems(1) this _ _ assms, of "accept_data pin" T t]
  obtain pin' s' where p: "read_channel T (accept_data pin) s t = Inr (pin', s', t)" "shows_beat q d resp k pin'"
      "reading q d resp (Suc k) s'" by (auto simp: accept_data_def)
  from Suc.IH [OF p(3), of pin'] Suc.prems(2)
  obtain ps s'' where r: "read_run T (replicate n accept_data) pin' s' t = Inr (ps, s'', t)" "length ps = n"
      "\<forall>i<n. shows_beat q d resp (Suc k + i) (ps ! i)" by auto
  have "\<forall>i<Suc n. shows_beat q d resp (k + i) ((pin' # ps) ! i)"
    using p(2) r(3) by (simp add: All_less_Suc2)
  with p(1) r(1,2) show ?case by auto
qed simp

text \<open>A slave that can take a new read request, and a master's request for an incrementing burst.\<close>

definition read_idle :: "axi4 \<Rightarrow> axi4_slave \<Rightarrow> bool" where
  "read_idle pin s \<longleftrightarrow> \<not> read_busy s \<and> \<not> read_wait s \<and> (read_last s \<longrightarrow> rvalid pin \<noteq> 0) \<and> length (r_data s) = 4096"

definition read_request :: "axi4 \<Rightarrow> bool" where
  "read_request q \<longleftrightarrow> arready q \<noteq> 0 \<and> arvalid q \<noteq> 0 \<and> arburst q = BURST_INCR
     \<and> legal_incr (araddr q) (arlen q) (arsize q)"

lemma read_run_burst:
  assumes "read_request q" "read_idle q s"
    and "t_read T (araddr q) (of_nat (burst_len q)) t = Inr (resp, bs, t')" "\<forall>b. bs = Some b \<longrightarrow> length b = burst_len q"
  shows "\<exists>ps s' d. read_run T (id # replicate (beats (arlen q) - 1) accept_data) q s t = Inr (ps, s', t')
    \<and> length ps = beats (arlen q) \<and> (\<forall>i<beats (arlen q). shows_beat q d resp i (ps ! i)) \<and> length d = 4096
    \<and> (\<forall>b. bs = Some b \<longrightarrow> slice d (unat (araddr q) mod 4096) (burst_len q) = b)"
proof -
  have leg: "legal_incr (araddr q) (arlen q) (arsize q)" using assms(1) by (simp add: read_request_def)
  obtain pin s1 d where st: "read_channel T q s t = Inr (pin, s1, t')" "shows_beat q d resp 0 pin" "reading q d resp 1 s1"
      "length d = 4096" "\<forall>b. bs = Some b \<longrightarrow> slice d (unat (araddr q) mod 4096) (burst_len q) = b"
    using read_channel_start [of q s T t resp bs t'] assms by (auto simp: read_request_def read_idle_def)
  obtain n where N: "beats (arlen q) = Suc n" by (simp add: beats_def)
  from read_run_busy [OF st(4) leg st(3), of n T pin t'] N
  obtain ps s2 where r: "read_run T (replicate n accept_data) pin s1 t' = Inr (ps, s2, t')" "length ps = n"
      "\<forall>i<n. shows_beat q d resp (1 + i) (ps ! i)" by auto
  have "\<forall>i<Suc n. shows_beat q d resp i ((pin # ps) ! i)" using st(2) r(3) by (simp add: All_less_Suc2)
  then show ?thesis using st r(1,2) by (auto simp: N)
qed

section \<open>The contract of a target\<close>

locale axi_target =
  fixes T :: "'t target" and ok :: "'t \<Rightarrow> bool"
  assumes read_answers: "\<lbrakk>ok t; 0 < n; unat a + n < 2 ^ 64\<rbrakk> \<Longrightarrow>
      \<exists>resp bs t'. t_read T a (of_nat n) t = Inr (resp, bs, t') \<and> ok t' \<and> (\<forall>b. bs = Some b \<longrightarrow> length b = n)"
    and write_answers: "\<lbrakk>ok t; b \<noteq> []; unat a + length b < 2 ^ 64\<rbrakk> \<Longrightarrow>
      \<exists>resp t'. t_write T a b t = Inr (resp, t') \<and> ok t'"
begin

lemma burst_completes:
  assumes "ok t" "read_request q" "read_idle q s" "unat (araddr q) + burst_len q < 2 ^ 64"
  shows "\<exists>ps s' t'. read_run T (id # replicate (beats (arlen q) - 1) accept_data) q s t = Inr (ps, s', t') \<and> ok t'
    \<and> length ps = beats (arlen q)
    \<and> (\<forall>i<beats (arlen q). rvalid (ps ! i) = 1 \<and> rid (ps ! i) = arid q \<and> rlast (ps ! i) = b2w (Suc i = beats (arlen q)))
    \<and> arready (last ps) = 1"
proof -
  have "0 < burst_len q" using assms(2) burst_len_word(3) by (simp add: read_request_def)
  from read_answers [OF assms(1) this assms(4)]
  obtain resp bs t' where t: "t_read T (araddr q) (of_nat (burst_len q)) t = Inr (resp, bs, t')" "ok t'"
      "\<forall>b. bs = Some b \<longrightarrow> length b = burst_len q" by blast
  obtain ps s' d where r: "read_run T (id # replicate (beats (arlen q) - 1) accept_data) q s t = Inr (ps, s', t')"
      "length ps = beats (arlen q)" "\<forall>i<beats (arlen q). shows_beat q d resp i (ps ! i)"
    using read_run_burst [OF assms(2,3) t(1,3)] by blast
  obtain n where N: "beats (arlen q) = Suc n" by (simp add: beats_def)
  then have "last ps = ps ! n" using r(2) by (cases ps rule: rev_cases) (auto simp: nth_append)
  then have "arready (last ps) = 1" using r(3) N by (simp add: shows_beat_def)
  with r t(2) show ?thesis by (auto simp: shows_beat_def)
qed

end

definition am_ok :: "axi4_mem \<Rightarrow> bool" where
  "am_ok m \<longleftrightarrow> length (am_mem m) < 2 ^ 64"

lemma am_do_read_in:
  assumes "am_ok m" "unat a + n \<le> length (am_mem m)"
  shows "am_do_read a (of_nat n) m = Inr (RESP_OKEY, Some (slice (am_mem m) (unat a) n), m)"
  using assms add_le_of_nat [of n "length (am_mem m)" a]
  by (simp add: am_do_read_def am_size_def am_ok_def unat_of_nat_small)

lemma am_do_read_out:
  assumes "am_ok m" "length (am_mem m) < unat a + n" "unat a + n < 2 ^ 64"
  shows "am_do_read a (of_nat n) m = Inr (RESP_DECERR, None, m)"
  using assms add_le_of_nat [of n "length (am_mem m)" a] by (simp add: am_do_read_def am_size_def am_ok_def)

lemma am_do_write_in:
  assumes "am_ok m" "unat a + length b \<le> length (am_mem m)"
  shows "am_do_write a b m = Inr (RESP_OKEY, m\<lparr>am_mem := splice_at (am_mem m) (unat a) b\<rparr>)"
  using assms add_le_of_nat [of "length b" "length (am_mem m)" a] by (simp add: am_do_write_def am_size_def am_ok_def)

lemma am_do_write_out:
  assumes "am_ok m" "length (am_mem m) < unat a + length b" "unat a + length b < 2 ^ 64"
  shows "am_do_write a b m = Inr (RESP_DECERR, m)"
  using assms add_le_of_nat [of "length b" "length (am_mem m)" a] by (simp add: am_do_write_def am_size_def am_ok_def)

interpretation memt: axi_target mem_target am_ok
proof unfold_locales
  fix m :: axi4_mem and a :: u64 and n :: nat and b :: "u8 list"
  assume m: "am_ok m"
  show "\<exists>resp bs t'. t_read mem_target a (of_nat n) m = Inr (resp, bs, t') \<and> am_ok t' \<and> (\<forall>b. bs = Some b \<longrightarrow> length b = n)"
    if "unat a + n < 2 ^ 64"
    using am_do_read_in [OF m, of a n] am_do_read_out [OF m, of a n] that m
    by (cases "unat a + n \<le> length (am_mem m)") (simp_all add: mem_target_def splice_simps)
  show "\<exists>resp t'. t_write mem_target a b m = Inr (resp, t') \<and> am_ok t'" if "unat a + length b < 2 ^ 64"
    using am_do_write_in [OF m, of a b] am_do_write_out [OF m, of a b] that m
    by (cases "unat a + length b \<le> length (am_mem m)") (simp_all add: mem_target_def splice_simps am_ok_def)
qed

interpretation xbart: axi_target xbar_target xbar_ok
proof unfold_locales
  fix x :: xbar and a :: u64 and n :: nat and b :: "u8 list"
  assume x: "xbar_ok x"
  show "\<exists>resp bs t'. t_read xbar_target a (of_nat n) x = Inr (resp, bs, t') \<and> xbar_ok t' \<and> (\<forall>b. bs = Some b \<longrightarrow> length b = n)"
    if "0 < n" "unat a + n < 2 ^ 64"
  proof -
    have "unat (of_nat n :: u64) = n" using that(2) by (simp add: unat_of_nat_small)
    with xbar_read_total [OF x, of "of_nat n" a] that show ?thesis by (auto simp: xbar_target_def word_less_nat_alt)
  qed
  show "\<exists>resp t'. t_write xbar_target a b x = Inr (resp, t') \<and> xbar_ok t'" if "b \<noteq> []" "unat a + length b < 2 ^ 64"
    using xbar_write_total [OF x that] by (simp add: xbar_target_def)
qed

section \<open>Read bursts\<close>

lemma byte_of_lane:
  assumes "lane_of x \<le> y" "y < lane_of x + 8"
  shows "byte_of (le_load ((!) d) (lane_of x) 8) (y mod 8) = d ! y"
proof -
  have l: "lane_of x = 8 * (x div 8)" by (simp add: lane_of_def minus_mod_eq_mult_div)
  from assms obtain j where j: "y = lane_of x + j" "j < 8" by (auto simp: le_iff_add)
  then have "y mod 8 = j" by (simp add: l)
  with j show ?thesis by (simp add: byte_of_le_load)
qed

lemma mod_room:
  assumes "m mod E = 0" "K mod E = 0" "m < (K :: nat)"
  shows "m + E \<le> K"
proof -
  from assms(1,2) obtain k c where kc: "m = E * k" "K = E * c" by (auto elim!: dvdE)
  with assms(3) have "Suc k \<le> c" by auto
  then have "E * Suc k \<le> E * c" by (rule mult_le_mono2)
  with kc show ?thesis by simp
qed

lemma beat_in_lane:
  assumes "E \<in> {1, 2, 4, 8}" "x mod E = 0" "x \<le> y" "y < x + (E :: nat)"
  shows "lane_of x \<le> y" "y < lane_of x + 8"
proof -
  show "lane_of x \<le> y" using assms(3) by (simp add: lane_of_def)
  have x8: "lane_of x + x mod 8 = x" by (simp add: lane_of_def)
  have "x mod 8 mod E = 0" using assms(1,2) by (auto simp: mod_mod_cancel)
  then have "x mod 8 + E \<le> 8" using assms(1) by (intro mod_room) auto
  with x8 assms(4) show "y < lane_of x + 8" by linarith
qed

lemma burst_byte:
  assumes "legal_incr (araddr q) (arlen q) (arsize q)" "i < beats (arlen q)"
    and "slice d (unat (araddr q) mod 4096) (burst_len q) = slice mem (unat (araddr q)) (burst_len q)"
    and "length d = 4096" "unat (araddr q) + burst_len q \<le> length mem"
    and "unat (araddr q) \<le> x" "aligned_start (araddr q) (arsize q) + i * beat_bytes (arsize q) \<le> x"
      "x < aligned_start (araddr q) (arsize q) + Suc i * beat_bytes (arsize q)"
  shows "byte_of (le_load ((!) d) (lane_of (aligned_start (araddr q) (arsize q) mod 4096 + i * beat_bytes (arsize q))) 8) (x mod 8)
    = mem ! x"
proof -
  let ?A = "unat (araddr q)" and ?E = "beat_bytes (arsize q)" and ?al = "aligned_start (araddr q) (arsize q)"
  note f = legal_facts [OF assms(1)]
  define B where "B = 4096 * (?A div 4096)"
  have A: "?A = B + ?A mod 4096" by (simp add: B_def)
  have al: "?al = B + ?al mod 4096" using f(4,5) A by (simp add: aligned_start_def)
  obtain y where y: "x = B + y" using assms(6) A by (metis add_leD1 le_iff_add)
  have "B = 8 * (512 * (?A div 4096))" by (simp add: B_def)
  then have b8: "x mod 8 = y mod 8" unfolding y by (metis mod_mult_self4)
  have y1: "?al mod 4096 + i * ?E \<le> y" "y < ?al mod 4096 + i * ?E + ?E" using assms(7,8) al y by simp_all
  have "byte_of (le_load ((!) d) (lane_of (?al mod 4096 + i * ?E)) 8) (y mod 8) = d ! y"
    using beat_in_lane [OF f(1) aligned_multiple(1) [OF assms(1)] y1] by (intro byte_of_lane)
  moreover have "d ! y = mem ! x"
  proof -
    have room: "?A mod 4096 + burst_len q \<le> 4096" using burst_room(4) [OF assms(1)] by (simp add: burst_len_def)
    have "Suc i * ?E \<le> beats (arlen q) * ?E" using assms(2) by (intro mult_le_mono) auto
    then have "x < ?A + burst_len q"
      using assms(8) burst_room(5) [OF assms(1)] by (simp add: burst_len_def aligned_start_def mult.commute)
    then obtain j where j: "x = ?A + j" "j < burst_len q" using assms(6) by (metis le_iff_add nat_add_left_cancel_less)
    then have "y = ?A mod 4096 + j" using A y by linarith
    moreover have "slice d (?A mod 4096) (burst_len q) ! j = slice mem ?A (burst_len q) ! j" using assms(3) by simp
    ultimately show ?thesis using j room assms(4,5) by (simp add: nth_slice)
  qed
  ultimately show ?thesis by (simp add: b8)
qed

text \<open>
  C3. An incrementing read burst of any legal length, size and address on the memory target: with the
  master ready, the slave presents exactly one beat per cycle from the cycle of the request on, marks the
  last one and no other, and every byte lane of every beat that belongs to the request carries the byte
  of the memory at its address.
\<close>

theorem incr_read_burst:
  assumes "read_request q" "read_idle q s" "am_ok m" "unat (araddr q) + burst_len q \<le> length (am_mem m)"
  shows "\<exists>ps s'. read_run mem_target (id # replicate (beats (arlen q) - 1) accept_data) q s m = Inr (ps, s', m)
    \<and> length ps = beats (arlen q)
    \<and> (\<forall>i<beats (arlen q). rvalid (ps ! i) = 1 \<and> rid (ps ! i) = arid q \<and> rresp (ps ! i) = resp_code RESP_OKEY
        \<and> rlast (ps ! i) = b2w (Suc i = beats (arlen q))
        \<and> (\<forall>x. unat (araddr q) \<le> x \<and> aligned_start (araddr q) (arsize q) + i * beat_bytes (arsize q) \<le> x
             \<and> x < aligned_start (araddr q) (arsize q) + Suc i * beat_bytes (arsize q)
             \<longrightarrow> byte_of (rdata (ps ! i)) (x mod 8) = am_mem m ! x))"
proof -
  let ?b = "slice (am_mem m) (unat (araddr q)) (burst_len q)"
  have t: "t_read mem_target (araddr q) (of_nat (burst_len q)) m = Inr (RESP_OKEY, Some ?b, m)"
    using am_do_read_in [OF assms(3,4)] by (simp add: mem_target_def)
  have leg: "legal_incr (araddr q) (arlen q) (arsize q)" using assms(1) by (simp add: read_request_def)
  have "length ?b = burst_len q" using assms(4) by (simp add: splice_simps)
  with read_run_burst [OF assms(1,2) t]
  obtain ps s' d where r: "read_run mem_target (id # replicate (beats (arlen q) - 1) accept_data) q s m = Inr (ps, s', m)"
      "length ps = beats (arlen q)" "\<forall>i<beats (arlen q). shows_beat q d RESP_OKEY i (ps ! i)" "length d = 4096"
      "slice d (unat (araddr q) mod 4096) (burst_len q) = ?b" by auto
  have "byte_of (rdata (ps ! i)) (x mod 8) = am_mem m ! x"
    if "i < beats (arlen q)" "unat (araddr q) \<le> x" "aligned_start (araddr q) (arsize q) + i * beat_bytes (arsize q) \<le> x"
      "x < aligned_start (araddr q) (arsize q) + Suc i * beat_bytes (arsize q)" for i x
    using burst_byte [OF leg that(1) r(5,4) assms(4) that(2-4)] r(3) that(1) by (simp add: shows_beat_def)
  with r show ?thesis by (auto simp: shows_beat_def)
qed

definition idle_slave :: axi4_slave where
  "idle_slave = \<lparr>read_busy = False, read_last = False, read_wait = False, r_start_addr = 0, r_current_addr = 0,
     s_arid = 0, r_burst_type = 0, r_each_len = 0, r_nr_trans = 0, r_cur_trans = 0, r_tot_len = 0, r_early_err = False,
     r_resp = RESP_OKEY, r_data = replicate 4096 0, write_busy = False, b_busy = False, w_start_addr = 0,
     w_current_addr = 0, s_awid = 0, w_burst_type = 0, w_each_len = 0, w_nr_trans = 0, w_cur_trans = 0, w_tot_len = 0,
     w_early_err = False, w_resp = RESP_OKEY, w_buffer = replicate 8 0\<rparr>"

definition demo_read :: axi4 where
  "demo_read = axi4_new\<lparr>arready := 1, arvalid := 1, arburst := 1, arsize := 2, arlen := 1, araddr := 6, arid := 3\<rparr>"

lemma demo_read_burst: "read_request demo_read" "read_idle demo_read idle_slave" "burst_len demo_read = 6"
  by (simp_all add: read_request_def read_idle_def demo_read_def idle_slave_def axi4_new_def burst_defs legal_incr_def
      aligned_start_def beat_bytes_def beats_def burst_len_def)

theorem incr_read_burst_witness:
  "\<exists>ps s'. read_run mem_target (id # replicate 1 accept_data) demo_read idle_slave \<lparr>am_mem = replicate 16 9\<rparr>
      = Inr (ps, s', \<lparr>am_mem = replicate 16 9\<rparr>) \<and> length ps = 2 \<and> rlast (ps ! 0) = 0 \<and> rlast (ps ! 1) = 1
      \<and> byte_of (rdata (ps ! 0)) 6 = 9 \<and> byte_of (rdata (ps ! 1)) 3 = 9"
proof -
  have ok: "am_ok \<lparr>am_mem = replicate 16 9\<rparr>" by (simp add: am_ok_def)
  have n: "beats (arlen demo_read) = 2" "unat (araddr demo_read) = 6" "beat_bytes (arsize demo_read) = 4"
      "aligned_start (araddr demo_read) (arsize demo_read) = 4"
    by (simp_all add: demo_read_def axi4_new_def beats_def beat_bytes_def aligned_start_def)
  obtain ps s' where r: "read_run mem_target (id # replicate 1 accept_data) demo_read idle_slave \<lparr>am_mem = replicate 16 9\<rparr>
      = Inr (ps, s', \<lparr>am_mem = replicate 16 9\<rparr>)" "length ps = 2"
      "\<forall>i<2. rlast (ps ! i) = b2w (Suc i = 2) \<and> (\<forall>x. 6 \<le> x \<and> 4 + i * 4 \<le> x \<and> x < 4 + Suc i * 4
          \<longrightarrow> byte_of (rdata (ps ! i)) (x mod 8) = replicate 16 9 ! x)"
    using incr_read_burst [OF demo_read_burst(1,2) ok] by (auto simp: n demo_read_burst(3))
  have "rlast (ps ! 0) = 0" "rlast (ps ! 1) = 1" using r(3) by (simp_all add: All_less_Suc numeral_2_eq_2)
  moreover have "byte_of (rdata (ps ! 0)) 6 = 9" using r(3) [rule_format, of 0] by (auto dest: spec [of _ 6])
  moreover have "byte_of (rdata (ps ! 1)) 3 = 9" using r(3) [rule_format, of 1] by (auto dest: spec [of _ 11])
  ultimately show ?thesis using r(1,2) by auto
qed

text \<open>
  An incrementing read burst inside a page completes, whichever devices the decoder finds behind its addresses and
  whatever they answer: \<open>arlen + 1\<close> cycles later all beats have been presented, the last one is marked and
  the slave takes the next request. The other burst types follow in \<open>Axi_Complete\<close>.
\<close>

theorem decoder_bursts_complete:
  assumes "xbar_ok x" "read_request q" "read_idle q s" "unat (araddr q) + burst_len q < 2 ^ 64"
  shows "\<exists>ps s' x'. read_run xbar_target (id # replicate (beats (arlen q) - 1) accept_data) q s x = Inr (ps, s', x') \<and> xbar_ok x'
    \<and> length ps = beats (arlen q)
    \<and> (\<forall>i<beats (arlen q). rvalid (ps ! i) = 1 \<and> rid (ps ! i) = arid q \<and> rlast (ps ! i) = b2w (Suc i = beats (arlen q)))
    \<and> arready (last ps) = 1"
  by (rule xbart.burst_completes [OF assms])

theorem decoder_bursts_complete_witness:
  "\<exists>ps s' x'. read_run xbar_target (id # replicate 1 accept_data) demo_read idle_slave (xbar_empty []) = Inr (ps, s', x')
     \<and> length ps = 2 \<and> arready (last ps) = 1"
proof -
  have "xbar_ok (xbar_empty [])" by (simp add: xbar_ok_def xbar_wf_def xbar_empty_def)
  moreover have "beats (arlen demo_read) = 2" "unat (araddr demo_read) = 6"
    by (simp_all add: demo_read_def axi4_new_def beats_def)
  ultimately show ?thesis
    using decoder_bursts_complete [of "xbar_empty []" demo_read idle_slave] demo_read_burst by auto
qed

section \<open>Write strobes\<close>

lemma run_end_spec:
  "l \<le> ed \<Longrightarrow> run_end w l ed \<le> ed \<and> (\<forall>i. l \<le> i \<and> i < run_end w l ed \<longrightarrow> bit w i)
     \<and> (run_end w l ed < ed \<longrightarrow> \<not> bit w (run_end w l ed))"
proof (induction w l ed rule: run_end.induct)
  case (1 w r ed)
  show ?case
  proof (cases "bit w r \<and> r < ed")
    case True
    then have e: "run_end w r ed = run_end w (r + 1) ed" by (subst run_end.simps) simp
    from 1 True have "run_end w (r + 1) ed \<le> ed \<and> (\<forall>i. r + 1 \<le> i \<and> i < run_end w (r + 1) ed \<longrightarrow> bit w i)
        \<and> (run_end w (r + 1) ed < ed \<longrightarrow> \<not> bit w (run_end w (r + 1) ed))" by simp
    with True show ?thesis unfolding e by (metis Suc_eq_plus1 Suc_leI le_neq_implies_less)
  next
    case False
    then have "run_end w r ed = r" by (subst run_end.simps) auto
    with False 1(2) show ?thesis by auto
  qed
qed

lemma strb_to_range_lanes:
  "concat (map (\<lambda>(l, n). [l..<l + n]) (strb_to_range w l ed)) = filter (bit w) [l..<ed]
   \<and> (\<forall>(i, n)\<in>set (strb_to_range w l ed). l \<le> i \<and> 0 < n)
   \<and> sorted_wrt (\<lambda>(i, n) (j, _). i + n < j) (strb_to_range w l ed)"
proof (induction w l ed rule: strb_to_range.induct)
  case (1 w l ed)
  consider "\<not> l < ed" | "l < ed" "\<not> bit w l" | "l < ed" "bit w l" by blast
  then show ?case
  proof cases
    case 1
    then show ?thesis by (simp add: strb_to_range.simps)
  next
    case 2
    then have "strb_to_range w l ed = strb_to_range w (l + 1) ed" by (subst strb_to_range.simps) simp
    with 1(2) [OF 2] 2 show ?thesis by (force simp: upt_conv_Cons)
  next
    case 3
    let ?r = "run_end w l ed"
    have e: "strb_to_range w l ed = (l, ?r - l) # strb_to_range w (?r + 1) ed"
      using 3 by (subst strb_to_range.simps) (simp add: Let_def)
    have r: "?r \<le> ed" "\<forall>i. l \<le> i \<and> i < ?r \<longrightarrow> bit w i" "?r < ed \<longrightarrow> \<not> bit w ?r"
      using run_end_spec [of l ed w] 3(1) by auto
    have "run_end w l ed = run_end w (l + 1) ed" using 3 by (subst run_end.simps) simp
    then have lr: "l < ?r" using run_end_ge [of "l + 1" w ed] by simp
    note IH = 1(1) [OF 3 refl]
    have tl: "filter (bit w) [?r..<ed] = filter (bit w) [?r + 1..<ed]"
      using r by (cases "?r < ed") (auto simp: upt_conv_Cons)
    have "[l..<ed] = [l..<?r] @ [?r..<ed]" using lr r(1) by (metis less_imp_le upt_add_eq_append le_Suc_ex)
    moreover have "filter (bit w) [l..<?r] = [l..<?r]" using r(2) by (simp add: filter_id_conv)
    ultimately have "filter (bit w) [l..<ed] = [l..<?r] @ filter (bit w) [?r + 1..<ed]" using tl by simp
    with IH lr show ?thesis unfolding e by (force simp: less_Suc_eq_le)
  qed
qed

text \<open>
  C24. \<open>strb_to_range\<close> terminates and splits the strobes of the lanes \<open>l\<close> to \<open>ed - 1\<close> into separate,
  non-empty, increasing runs that cover exactly the strobed lanes, each once and in order.
\<close>

theorem strb_to_range_correct:
  "concat (map (\<lambda>(i, n). [i..<i + n]) (strb_to_range strb l ed)) = filter (bit strb) [l..<ed]
   \<and> (\<forall>(i, n)\<in>set (strb_to_range strb l ed). 0 < n)
   \<and> sorted_wrt (\<lambda>(i, n) (j, _). i + n < j) (strb_to_range strb l ed)"
  using strb_to_range_lanes [of strb l ed] by auto

theorem strb_to_range_correct_witness:
  "concat (map (\<lambda>(i, n). [i..<i + n]) (strb_to_range 0xE6 0 8)) = filter (bit (0xE6 :: u8)) [0..<8]"
  using strb_to_range_correct [of "0xE6" 0 8] by blast

section \<open>The beats of a write burst\<close>

definition w_regs :: "axi4 \<Rightarrow> nat \<Rightarrow> axi4_slave \<Rightarrow> bool" where
  "w_regs q k s \<longleftrightarrow>
     w_each_len s = each_len (awsize q) \<and> unat (w_nr_trans s) = beats (awlen q)
     \<and> unat (w_current_addr s) = unat (awaddr q) + k * beat_bytes (awsize q) \<and> w_start_addr s = awaddr q
     \<and> \<not> w_early_err s \<and> s_awid s = awid q \<and> w_resp s = RESP_OKEY"

definition writing :: "axi4 \<Rightarrow> nat \<Rightarrow> axi4_slave \<Rightarrow> bool" where
  "writing q k s \<longleftrightarrow> w_regs q k s \<and> (k < beats (awlen q) \<longrightarrow> unat (w_cur_trans s) = k)
     \<and> write_busy s = (k < beats (awlen q)) \<and> b_busy s = (k = beats (awlen q))"

text \<open>A master's request for an aligned incrementing write burst; the data follow in later cycles.\<close>

definition write_request :: "axi4 \<Rightarrow> bool" where
  "write_request q \<longleftrightarrow> awready q \<noteq> 0 \<and> awvalid q \<noteq> 0 \<and> wvalid q = 0 \<and> awburst q = BURST_INCR
     \<and> legal_incr (awaddr q) (awlen q) (awsize q) \<and> unat (awaddr q) mod beat_bytes (awsize q) = 0
     \<and> unat (awaddr q) + beats (awlen q) * beat_bytes (awsize q) < 2 ^ 64"

definition full_strobe :: "axi4 \<Rightarrow> nat \<Rightarrow> CData \<Rightarrow> bool" where
  "full_strobe q k strb \<longleftrightarrow>
     (let p = (unat (awaddr q) + k * beat_bytes (awsize q)) mod 8 in \<forall>j\<in>{p..<p + beat_bytes (awsize q)}. bit strb j)"

definition beat_data :: "axi4 \<Rightarrow> nat \<Rightarrow> QData \<Rightarrow> u8 list" where
  "beat_data q k v =
     (let p = (unat (awaddr q) + k * beat_bytes (awsize q)) mod 8 in map (byte_of v) [p..<p + beat_bytes (awsize q)])"

lemma run_end_full:
  "\<lbrakk>l \<le> ed; \<forall>j\<in>{l..<ed}. bit w j\<rbrakk> \<Longrightarrow> run_end w l ed = ed"
proof (induction w l ed rule: run_end.induct)
  case (1 w r ed)
  then show ?case by (cases "r < ed") (subst run_end.simps, simp)+
qed

lemma strb_to_range_full:
  assumes "l < ed" "\<forall>j\<in>{l..<ed}. bit w j"
  shows "strb_to_range w l ed = [(l, ed - l)]"
proof -
  have "strb_to_range w (ed + 1) ed = []" by (simp add: strb_to_range.simps)
  moreover have "run_end w l ed = ed" using run_end_full assms by simp
  ultimately show ?thesis using assms by (subst strb_to_range.simps) simp
qed

lemma slice_map_upt: "p + n \<le> k \<Longrightarrow> slice (map f [0..<k]) p n = map f [p..<p + n]"
  by (intro nth_equalityI) (auto simp: slice_def)

text \<open>Where beat \<open>k\<close> of a burst lies: its address, its lanes and the address after it.\<close>

lemma write_position:
  assumes "w_regs q k s" "k < beats (awlen q)" "write_request q"
  defines "E \<equiv> beat_bytes (awsize q)"
  defines "p \<equiv> (unat (awaddr q) + k * E) mod 8"
  shows "unat (w_current_addr s) = unat (awaddr q) + k * E" "p mod E = 0" "p + E \<le> 8" "0 < E"
    "unat (next_addr (w_current_addr s) (w_each_len s)) = unat (awaddr q) + Suc k * E"
    "unat (awaddr q) + k * E < 2 ^ 64"
proof -
  have leg: "legal_incr (awaddr q) (awlen q) (awsize q)" and al: "unat (awaddr q) mod E = 0"
    and top: "unat (awaddr q) + beats (awlen q) * E < 2 ^ 64"
    using assms(3) by (auto simp: write_request_def E_def)
  note f = legal_facts [OF leg, folded E_def] and bl = burst_lengths [OF leg, folded E_def]
    and w = assms(1) [unfolded w_regs_def, folded E_def]
  have "Suc k * E \<le> beats (awlen q) * E" using assms(2) by (intro mult_le_mono) auto
  then have kE: "unat (awaddr q) + k * E + E \<le> unat (awaddr q) + beats (awlen q) * E" by simp
  with top show "unat (awaddr q) + k * E < 2 ^ 64" by simp
  show c: "unat (w_current_addr s) = unat (awaddr q) + k * E" using w by simp
  have cm: "unat (w_current_addr s) mod E = 0" using c al by (metis mod_mult_self1)
  show "0 < E" using f(1) by auto
  show "unat (next_addr (w_current_addr s) (w_each_len s)) = unat (awaddr q) + Suc k * E"
    using next_addr_aligned [OF bl(1) f(1) cm] c kE top w by simp
  show pE: "p mod E = 0" unfolding p_def c [symmetric] using cm f(1) by (auto simp: mod_mod_cancel)
  show "p + E \<le> 8" using pE f(1) by (intro mod_room) (auto simp: p_def)
qed

text \<open>The lane a beat of the burst is stored from: its strobed run and its address.\<close>

lemma write_lane:
  assumes "w_regs q k s" "k < beats (awlen q)" "write_request q" "full_strobe q k (wstrb pin)"
  defines "E \<equiv> beat_bytes (awsize q)" and "c \<equiv> w_current_addr s"
    and "p \<equiv> (unat (awaddr q) + k * beat_bytes (awsize q)) mod 8"
  shows "unat (c mod D_bytes) = p"
    and "ucast (w_each_len s) - c mod D_bytes mod ucast (w_each_len s) = (ucast (w_each_len s) :: u64)"
    and "strb_to_range (wstrb pin) (unat (c mod D_bytes)) (unat (c mod D_bytes + ucast (w_each_len s))) = [(p, E)]"
    and "c - c mod D_bytes + of_nat p = awaddr q + of_nat (k * E)"
    and "slice (map (byte_of (wdata pin)) [0..<8]) p E = beat_data q k (wdata pin)"
proof -
  have leg: "legal_incr (awaddr q) (awlen q) (awsize q)" using assms(3) by (auto simp: write_request_def)
  note bl = burst_lengths [OF leg] and w = assms(1) [unfolded w_regs_def] and wp = write_position [OF assms(1-3)]
  show pos: "unat (c mod D_bytes) = p" by (simp add: D_bytes_def unat_mod_distrib c_def p_def wp(1))
  have "unat (c mod D_bytes mod ucast (w_each_len s)) = 0" using pos wp(2) w bl(4) by (simp add: unat_mod_distrib p_def)
  then show "ucast (w_each_len s) - c mod D_bytes mod ucast (w_each_len s) = (ucast (w_each_len s) :: u64)"
    by (simp add: unsigned_eq_0_iff)
  have ed: "unat (c mod D_bytes + ucast (w_each_len s)) = p + E"
    using wp(3) pos bl(4) w by (simp add: unat_word_ariths p_def E_def)
  show "strb_to_range (wstrb pin) (unat (c mod D_bytes)) (unat (c mod D_bytes + ucast (w_each_len s))) = [(p, E)]"
    using strb_to_range_full [of p "p + E" "wstrb pin"] assms(4) wp(4)
    by (simp add: ed pos full_strobe_def Let_def p_def E_def)
  have "of_nat p = c mod D_bytes" unfolding pos [symmetric] by simp
  then have "c - c mod D_bytes + of_nat p = c" by simp
  also have "\<dots> = awaddr q + of_nat (k * E)"
    using wp(1,6) unat_add_small [of "awaddr q" "k * E"] by (simp add: word_unat_eq_iff c_def E_def)
  finally show "c - c mod D_bytes + of_nat p = awaddr q + of_nat (k * E)" .
  show "slice (map (byte_of (wdata pin)) [0..<8]) p E = beat_data q k (wdata pin)"
    using wp(3) by (simp add: slice_map_upt beat_data_def Let_def p_def E_def)
qed

text \<open>The address wraps around only after the last beat.\<close>

lemma write_wrap:
  assumes "w_regs q k s" "k < beats (awlen q)" "write_request q"
  shows "next_addr (w_current_addr s) (w_each_len s) = w_start_addr s + ucast (w_each_len s * w_nr_trans s)
    \<longleftrightarrow> Suc k = beats (awlen q)"
proof -
  have leg: "legal_incr (awaddr q) (awlen q) (awsize q)"
    and top: "unat (awaddr q) + beats (awlen q) * beat_bytes (awsize q) < 2 ^ 64"
    using assms(3) by (auto simp: write_request_def)
  note bl = burst_lengths [OF leg] and w = assms(1) [unfolded w_regs_def] and wp = write_position [OF assms]
  have "unat (w_each_len s * w_nr_trans s) = beat_bytes (awsize q) * beats (awlen q)"
    using bl(1,2,3) w by (metis word_unat_eq_iff)
  then have "unat (w_start_addr s + ucast (w_each_len s * w_nr_trans s)) = unat (awaddr q) + beats (awlen q) * beat_bytes (awsize q)"
    using w top by (simp add: unat_word_ariths ucast_u32_u64 mult.commute)
  then show ?thesis unfolding word_unat_eq_iff using wp(4,5) by (simp del: mult_Suc)
qed

lemma write_data_full:
  assumes "w_regs q k s" "k < beats (awlen q)" "write_request q" "full_strobe q k (wstrb pin)"
    and "t_write T (awaddr q + of_nat (k * beat_bytes (awsize q))) (beat_data q k (wdata pin)) t = Inr (RESP_OKEY, t')"
  shows "\<exists>c b. write_data T pin s t =
      Inr (s\<lparr>w_current_addr := next_addr (w_current_addr s) (w_each_len s), w_cur_trans := c, w_buffer := b\<rparr>, t')
    \<and> (Suc k < beats (awlen q) \<longrightarrow> c = w_cur_trans s)"
proof -
  let ?E = "beat_bytes (awsize q)" and ?N = "beats (awlen q)"
  let ?c = "w_current_addr s" and ?p = "(unat (awaddr q) + k * beat_bytes (awsize q)) mod 8"
  note w = assms(1) [unfolded w_regs_def] and l = write_lane [OF assms(1-4)]
  define s1 where "s1 = s\<lparr>w_current_addr := next_addr ?c (w_each_len s),
    w_cur_trans := (if Suc k = ?N then ucast (w_start_addr s) else w_cur_trans s)\<rparr>"
  have "write_data T pin s t = write_ranges T (wdata pin) (?c - ?c mod D_bytes) ?p [(?p, ?E)] s1 t"
    unfolding write_data_def Let_def using write_wrap [OF assms(1-3)] l(1-3) by (simp add: s1_def)
  also have "\<dots> = Inr (s1\<lparr>w_buffer := map (byte_of (wdata pin)) [0..<8]\<rparr>, t')"
  proof -
    have "w_resp s1 = RESP_OKEY" using w by (simp add: s1_def)
    moreover have "s1\<lparr>w_buffer := b, w_resp := RESP_OKEY\<rparr> = s1\<lparr>w_buffer := b\<rparr>" for b
      using w by (simp add: s1_def)
    ultimately show ?thesis using assms(5) by (simp add: l(4,5))
  qed
  finally show ?thesis unfolding s1_def
    by (intro exI [of _ "if Suc k = ?N then ucast (w_start_addr s) else w_cur_trans s"]
        exI [of _ "map (byte_of (wdata pin)) [0..<8]"]) simp
qed

lemma write_beat_accept:
  assumes "wvalid pin \<noteq> 0" "wready pin \<noteq> 0" "\<not> w_early_err s"
  defines "fin \<equiv> w_cur_trans s + 1 = w_nr_trans s"
  assumes "fin \<longrightarrow> wlast pin \<noteq> 0"
  shows "write_beat T pin s t =
    write_data T pin (s\<lparr>w_cur_trans := w_cur_trans s + 1, write_busy := write_busy s \<and> \<not> fin, b_busy := b_busy s \<or> fin\<rparr>) t"
  using assms unfolding fin_def write_beat_def Let_def
  by (cases "w_cur_trans s + 1 = w_nr_trans s") simp_all

lemma write_beat_step:
  assumes "writing q k s" "k < beats (awlen q)" "write_request q" "full_strobe q k (wstrb pin)"
    and "t_write T (awaddr q + of_nat (k * beat_bytes (awsize q))) (beat_data q k (wdata pin)) t = Inr (RESP_OKEY, t')"
    and "wvalid pin \<noteq> 0" "wready pin \<noteq> 0" "Suc k = beats (awlen q) \<longrightarrow> wlast pin \<noteq> 0"
  shows "\<exists>s'. write_beat T pin s t = Inr (s', t') \<and> writing q (Suc k) s'"
proof -
  let ?N = "beats (awlen q)"
  have leg: "legal_incr (awaddr q) (awlen q) (awsize q)" using assms(3) by (simp add: write_request_def)
  note w = assms(1) [unfolded writing_def]
  have k1: "unat (w_cur_trans s + 1) = Suc k"
    using w assms(2) legal_facts(3) [OF leg] unat_succ32 [of "w_cur_trans s"] by simp
  have fin: "w_cur_trans s + 1 = w_nr_trans s \<longleftrightarrow> Suc k = ?N" using k1 w unfolding w_regs_def by (metis word_unat_eq_iff)
  define s0 where "s0 = s\<lparr>w_cur_trans := w_cur_trans s + 1, write_busy := Suc k \<noteq> ?N, b_busy := Suc k = ?N\<rparr>"
  have reg: "w_regs q k s0" using w by (simp add: s0_def w_regs_def)
  obtain c b where d: "write_data T pin s0 t =
        Inr (s0\<lparr>w_current_addr := next_addr (w_current_addr s0) (w_each_len s0), w_cur_trans := c, w_buffer := b\<rparr>, t')"
      "Suc k < ?N \<longrightarrow> c = w_cur_trans s0"
    using write_data_full [OF reg assms(2-5)] by blast
  have "write_beat T pin s t = write_data T pin s0 t"
    using write_beat_accept [of pin s T t] assms(2,6-8) w unfolding w_regs_def fin s0_def by simp
  moreover have "writing q (Suc k) (s0\<lparr>w_current_addr := next_addr (w_current_addr s0) (w_each_len s0), w_cur_trans := c, w_buffer := b\<rparr>)"
    using reg d(2) k1 assms(2) write_position(5) [OF reg assms(2,3)]
    by (auto simp: writing_def w_regs_def s0_def)
  ultimately show ?thesis using d(1) by simp
qed

lemma write_init_incr:
  assumes "write_request q" "\<not> b_busy s"
  shows "\<exists>s'. write_init q s = Inr s' \<and> writing q 0 (s'\<lparr>write_busy := True\<rparr>)"
proof -
  have leg: "legal_incr (awaddr q) (awlen q) (awsize q)" and al: "unat (awaddr q) mod beat_bytes (awsize q) = 0"
    and inc: "awburst q = BURST_INCR"
    using assms(1) by (auto simp: write_request_def)
  note bl = burst_lengths [OF leg] and br = burst_room [OF leg]
  have "awaddr q mod ucast (each_len (awsize q)) = 0" using bl(5) al by (simp add: unsigned_eq_0_iff)
  moreover have "0 < beats (awlen q)" by (simp add: beats_def)
  ultimately show ?thesis
    using bl(1,2) br(1,2,3) inc assms(2)
    by (simp add: write_init_def Let_def write_check_def burst_defs writing_def w_regs_def)
qed

section \<open>Running the write channel\<close>

primrec write_run :: "'t target \<Rightarrow> (axi4 \<Rightarrow> axi4) list \<Rightarrow> axi4 \<Rightarrow> axi4_slave \<Rightarrow> 't \<Rightarrow> (axi4 \<times> axi4_slave \<times> 't) res" where
  "write_run T [] pin s t = Inr (pin, s, t)"
| "write_run T (f # fs) pin s t = bindR (write_channel T (f pin) s t) (\<lambda>(pin, s, t). write_run T fs pin s t)"

text \<open>The master drives a data beat.\<close>

definition drive_data :: "bool \<Rightarrow> QData \<times> CData \<Rightarrow> axi4 \<Rightarrow> axi4" where
  "drive_data fin w pin = pin\<lparr>awvalid := 0, wvalid := 1, wdata := fst w, wstrb := snd w, wlast := b2w fin\<rparr>"

text \<open>The pins during a burst: the slave takes data until the last beat, then it has the response ready.\<close>

definition w_pins :: "axi4 \<Rightarrow> nat \<Rightarrow> axi4 \<Rightarrow> bool" where
  "w_pins q k pin \<longleftrightarrow> bvalid pin = b2w (k = beats (awlen q)) \<and> wready pin = b2w (k < beats (awlen q)) \<and> awready pin = 0
     \<and> (k = beats (awlen q) \<longrightarrow> bid pin = awid q \<and> bresp pin = resp_code RESP_OKEY)"

lemma write_channel_start:
  assumes "write_request q" "\<not> b_busy s"
  shows "\<exists>pin s'. write_channel T q s t = Inr (pin, s', t) \<and> w_pins q 0 pin \<and> writing q 0 s'"
proof -
  obtain s' where i: "write_init q s = Inr s'" "writing q 0 (s'\<lparr>write_busy := True\<rparr>)"
    using write_init_incr [OF assms] by blast
  have "write_beat T q (s'\<lparr>write_busy := True\<rparr>) t = Inr (s'\<lparr>write_busy := True\<rparr>, t)"
    using assms(1) by (simp add: write_beat_def write_request_def)
  then have "write_channel T q s t
      = Inr (q\<lparr>bvalid := 0, awready := 0, wready := 1\<rparr>, s'\<lparr>write_busy := True\<rparr>, t)"
    using i assms(1) by (simp add: write_channel_def write_request_def writing_def beats_def)
  then show ?thesis using i(2) by (auto simp: w_pins_def beats_def)
qed

lemma write_channel_step:
  assumes "writing q k s" "w_pins q k pin" "k < beats (awlen q)" "write_request q" "full_strobe q k (snd w)"
    and "t_write T (awaddr q + of_nat (k * beat_bytes (awsize q))) (beat_data q k (fst w)) t = Inr (RESP_OKEY, t')"
  shows "\<exists>pin' s'. write_channel T (drive_data (Suc k = beats (awlen q)) w pin) s t = Inr (pin', s', t')
    \<and> w_pins q (Suc k) pin' \<and> writing q (Suc k) s'"
proof -
  let ?pin = "drive_data (Suc k = beats (awlen q)) w pin"
  obtain s' where b: "write_beat T ?pin s t = Inr (s', t')" "writing q (Suc k) s'"
    using write_beat_step [OF assms(1,3,4), of ?pin T t t'] assms(2,3,5,6) by (auto simp: drive_data_def w_pins_def)
  have busy: "write_busy s" and bv: "bvalid ?pin = 0" and aw: "awvalid ?pin = 0"
    using assms(1,2,3) by (simp_all add: writing_def drive_data_def w_pins_def)
  note w = b(2) [unfolded writing_def w_regs_def]
  show ?thesis
  proof (cases "Suc k = beats (awlen q)")
    case True
    then have "write_channel T ?pin s t
        = Inr (?pin\<lparr>bid := awid q, bresp := resp_code RESP_OKEY, bvalid := 1, awready := 0, wready := 0\<rparr>, s', t')"
      using b(1) busy bv aw w by (simp add: write_channel_def b_beat_def)
    then show ?thesis using b(2) True by (auto simp: w_pins_def)
  next
    case False
    then have "write_channel T ?pin s t = Inr (?pin\<lparr>bvalid := 0, awready := 0, wready := 1\<rparr>, s', t')"
      using b(1) busy aw w assms(3) by (simp add: write_channel_def)
    then show ?thesis using b(2) False assms(3) by (auto simp: w_pins_def)
  qed
qed

primrec data_cycles :: "nat \<Rightarrow> nat \<Rightarrow> (QData \<times> CData) list \<Rightarrow> (axi4 \<Rightarrow> axi4) list" where
  "data_cycles n k [] = []"
| "data_cycles n k (w # ws) = drive_data (Suc k = n) w # data_cycles n (Suc k) ws"

text \<open>The memory after \<open>k\<close> beats of the data \<open>ws\<close>.\<close>

definition written :: "axi4 \<Rightarrow> (QData \<times> CData) list \<Rightarrow> nat \<Rightarrow> u8 list \<Rightarrow> u8 list \<Rightarrow> bool" where
  "written q ws k old new \<longleftrightarrow> length new = length old \<and>
     (\<forall>x<length old. new ! x =
        (if unat (awaddr q) \<le> x \<and> x < unat (awaddr q) + k * beat_bytes (awsize q)
         then byte_of (fst (ws ! ((x - unat (awaddr q)) div beat_bytes (awsize q)))) (x mod 8) else old ! x))"

lemma written_step:
  assumes "written q ws k old new" "w_regs q k s" "k < beats (awlen q)" "write_request q"
    and "unat (awaddr q) + beats (awlen q) * beat_bytes (awsize q) \<le> length old"
  shows "written q ws (Suc k) old
    (splice_at new (unat (awaddr q) + k * beat_bytes (awsize q)) (beat_data q k (fst (ws ! k))))"
proof -
  let ?E = "beat_bytes (awsize q)" and ?A = "unat (awaddr q)"
  let ?c = "?A + k * ?E" and ?p = "(?A + k * ?E) mod 8" and ?v = "fst (ws ! k)"
  note p = write_position(3,4) [OF assms(2-4)]
  have len: "length new = length old" and old: "\<And>x. x < length old \<Longrightarrow> new ! x =
      (if ?A \<le> x \<and> x < ?c then byte_of (fst (ws ! ((x - ?A) div ?E))) (x mod 8) else old ! x)"
    using assms(1) by (auto simp: written_def)
  have "Suc k * ?E \<le> beats (awlen q) * ?E" using assms(3) by (intro mult_le_mono) auto
  then have fit: "?c + ?E \<le> length new" using assms(5) len by simp
  have bd: "length (beat_data q k ?v) = ?E" by (simp add: beat_data_def Let_def)
  have new: "splice_at new ?c (beat_data q k ?v) ! x =
      (if ?A \<le> x \<and> x < ?A + Suc k * ?E then byte_of (fst (ws ! ((x - ?A) div ?E))) (x mod 8) else old ! x)"
    if x: "x < length old" for x
  proof (cases "?c \<le> x \<and> x < ?c + ?E")
    case True
    then obtain j where j: "x = ?c + j" "j < ?E" by (auto simp: le_iff_add)
    have "(x - ?A) div ?E = k" using j p(2) by simp
    moreover have "x mod 8 = ?p + j"
    proof -
      have "x mod 8 = (?p + j) mod 8" unfolding j(1) by (simp add: mod_add_left_eq)
      then show ?thesis using p(1) j(2) by simp
    qed
    ultimately show ?thesis
      using True j x fit len bd by (simp add: nth_splice_at) (simp add: beat_data_def Let_def)
  next
    case False
    then show ?thesis using x fit len bd old [OF x] by (auto simp: nth_splice_at)
  qed
  show ?thesis unfolding written_def using new len fit bd by (simp add: splice_simps del: mult_Suc)
qed

lemma write_run_data:
  assumes "write_request q" "length ws = beats (awlen q)" "\<forall>k<beats (awlen q). full_strobe q k (snd (ws ! k))"
    and "unat (awaddr q) + beats (awlen q) * beat_bytes (awsize q) \<le> length old" "length old < 2 ^ 64"
  shows "\<lbrakk>writing q k s; w_pins q k pin; written q ws k old (am_mem m); k \<le> beats (awlen q)\<rbrakk> \<Longrightarrow>
    \<exists>pin' s' m'. write_run mem_target (data_cycles (beats (awlen q)) k (drop k ws)) pin s m = Inr (pin', s', m')
      \<and> w_pins q (beats (awlen q)) pin' \<and> written q ws (beats (awlen q)) old (am_mem m')"
proof (induction "beats (awlen q) - k" arbitrary: k s pin m)
  case 0
  then show ?case using assms(2) by auto
next
  case (Suc n)
  let ?E = "beat_bytes (awsize q)" and ?A = "unat (awaddr q)"
  have k: "k < beats (awlen q)" using Suc.hyps(2) by simp
  have reg: "w_regs q k s" using Suc.prems(1) by (simp add: writing_def)
  have ok: "am_ok m" using Suc.prems(3) assms(5) by (simp add: am_ok_def written_def)
  have adr: "unat (awaddr q + of_nat (k * ?E)) = ?A + k * ?E"
    using unat_add_small [of "awaddr q" "k * ?E"] write_position(6) [OF reg k assms(1)] by simp
  have "Suc k * ?E \<le> beats (awlen q) * ?E" using k by (intro mult_le_mono) auto
  then have fit: "?A + k * ?E + ?E \<le> length (am_mem m)" using assms(4) Suc.prems(3) by (simp add: written_def)
  have bd: "length (beat_data q k (fst (ws ! k))) = ?E" by (simp add: beat_data_def Let_def)
  define m1 where "m1 = m\<lparr>am_mem := splice_at (am_mem m) (?A + k * ?E) (beat_data q k (fst (ws ! k)))\<rparr>"
  have t: "t_write mem_target (awaddr q + of_nat (k * ?E)) (beat_data q k (fst (ws ! k))) m = Inr (RESP_OKEY, m1)"
    using am_do_write_in [OF ok, of "awaddr q + of_nat (k * ?E)" "beat_data q k (fst (ws ! k))"] fit bd adr
    by (simp add: mem_target_def m1_def)
  obtain pin1 s1 where c: "write_channel mem_target (drive_data (Suc k = beats (awlen q)) (ws ! k) pin) s m = Inr (pin1, s1, m1)"
      "w_pins q (Suc k) pin1" "writing q (Suc k) s1"
    using write_channel_step [OF Suc.prems(1,2) k assms(1) _ t] assms(3) k by blast
  have "written q ws (Suc k) old (am_mem m1)"
    using written_step [OF Suc.prems(3) reg k assms(1,4)] by (simp add: m1_def)
  moreover have "n = beats (awlen q) - Suc k" using Suc.hyps(2) by simp
  ultimately obtain pin' s' m' where r: "write_run mem_target (data_cycles (beats (awlen q)) (Suc k) (drop (Suc k) ws)) pin1 s1 m1 = Inr (pin', s', m')"
      "w_pins q (beats (awlen q)) pin'" "written q ws (beats (awlen q)) old (am_mem m')"
    using Suc.hyps(1) [OF _ c(3,2)] k by (metis Suc_leI)
  have "drop k ws = ws ! k # drop (Suc k) ws" using k assms(2) by (simp add: Cons_nth_drop_Suc)
  then show ?case using c(1) r by simp
qed

text \<open>
  C7. An aligned incrementing write burst with all strobes of its lanes set, of any legal length and
  size: after the request and one data beat per cycle the memory holds every byte of the data at its
  address and is otherwise unchanged, and the response \<open>OKEY\<close> with the id of the request is on the bus.
\<close>

theorem incr_write_burst:
  assumes "write_request q" "\<not> b_busy s" "am_ok m" "length ws = beats (awlen q)"
    and "\<forall>k<beats (awlen q). full_strobe q k (snd (ws ! k))"
    and "unat (awaddr q) + beats (awlen q) * beat_bytes (awsize q) \<le> length (am_mem m)"
  shows "\<exists>pin s' m'. write_run mem_target (id # data_cycles (beats (awlen q)) 0 ws) q s m = Inr (pin, s', m')
    \<and> bvalid pin = 1 \<and> bid pin = awid q \<and> bresp pin = resp_code RESP_OKEY
    \<and> length (am_mem m') = length (am_mem m)
    \<and> (\<forall>x<length (am_mem m). am_mem m' ! x =
        (if unat (awaddr q) \<le> x \<and> x < unat (awaddr q) + beats (awlen q) * beat_bytes (awsize q)
         then byte_of (fst (ws ! ((x - unat (awaddr q)) div beat_bytes (awsize q)))) (x mod 8) else am_mem m ! x))"
proof -
  obtain pin s1 where st: "write_channel mem_target q s m = Inr (pin, s1, m)" "w_pins q 0 pin" "writing q 0 s1"
    using write_channel_start [OF assms(1,2), of mem_target m] by blast
  have "length (am_mem m) < 2 ^ 64" using assms(3) by (simp add: am_ok_def)
  moreover have "written q ws 0 (am_mem m) (am_mem m)" by (auto simp: written_def)
  ultimately obtain pin' s' m' where r: "write_run mem_target (data_cycles (beats (awlen q)) 0 ws) pin s1 m = Inr (pin', s', m')"
      "w_pins q (beats (awlen q)) pin'" "written q ws (beats (awlen q)) (am_mem m) (am_mem m')"
    using write_run_data [OF assms(1,4,5,6) _ st(3,2), of m] by auto
  have "write_run mem_target (id # data_cycles (beats (awlen q)) 0 ws) q s m = Inr (pin', s', m')" using st(1) r(1) by simp
  moreover have "bvalid pin' = 1" "bid pin' = awid q" "bresp pin' = resp_code RESP_OKEY" using r(2) by (simp_all add: w_pins_def)
  ultimately show ?thesis using r(3) unfolding written_def by blast
qed

definition demo_write :: axi4 where
  "demo_write = axi4_new\<lparr>awready := 1, awvalid := 1, awburst := 1, awsize := 2, awlen := 1, awaddr := 8, awid := 5\<rparr>"

definition demo_data :: "(QData \<times> CData) list" where
  "demo_data = [(0x11223344, 0x0F), (0xAABBCCDD00000000, 0xF0)]"

theorem incr_write_burst_witness:
  "\<exists>pin s' m'. write_run mem_target (id # data_cycles 2 0 demo_data) demo_write idle_slave
      \<lparr>am_mem = replicate 16 0\<rparr> = Inr (pin, s', m') \<and> bvalid pin = 1 \<and> bid pin = 5
      \<and> am_mem m' ! 8 = 0x44 \<and> am_mem m' ! 15 = 0xAA \<and> am_mem m' ! 7 = 0"
proof -
  have n: "beats (awlen demo_write) = 2" "unat (awaddr demo_write) = 8" "beat_bytes (awsize demo_write) = 4" "awid demo_write = 5"
    by (simp_all add: demo_write_def axi4_new_def beats_def beat_bytes_def)
  have "write_request demo_write"
    by (simp add: write_request_def n legal_incr_def aligned_start_def) (simp add: demo_write_def axi4_new_def burst_defs)
  moreover have "\<forall>k<2. full_strobe demo_write k (snd (demo_data ! k))"
    by (simp add: demo_data_def full_strobe_def n numeral_2_eq_2 All_less_Suc Let_def atLeastLessThan_upt upt_rec)
  moreover have "am_ok \<lparr>am_mem = replicate 16 0\<rparr>" "\<not> b_busy idle_slave" by (simp_all add: am_ok_def idle_slave_def)
  ultimately obtain pin s' m' where r: "write_run mem_target (id # data_cycles 2 0 demo_data)
      demo_write idle_slave \<lparr>am_mem = replicate 16 0\<rparr> = Inr (pin, s', m')" "bvalid pin = 1" "bid pin = 5"
      "\<forall>x<16. am_mem m' ! x = (if 8 \<le> x \<and> x < 16 then byte_of (fst (demo_data ! ((x - 8) div 4))) (x mod 8)
         else (replicate 16 0 :: u8 list) ! x)"
    using incr_write_burst [of demo_write idle_slave "\<lparr>am_mem = replicate 16 0\<rparr>" demo_data] by (auto simp: n demo_data_def [THEN arg_cong, of length])
  have "am_mem m' ! 8 = 0x44" using r(4) [rule_format, of 8] by (simp add: byte_of_def demo_data_def)
  moreover have "am_mem m' ! 15 = 0xAA" using r(4) [rule_format, of 15] by (simp add: byte_of_def demo_data_def)
  moreover have "am_mem m' ! 7 = 0" using r(4) [rule_format, of 7] by simp
  ultimately show ?thesis using r(1-3) by blast
qed

section \<open>Departures from the protocol\<close>

lemma strb_upper_half: "strb_to_range 0xF0 0 8 = [(4, 4)]"
  by (simp add: strb_to_range.simps run_end.simps)

lemma write_upper_half:
  assumes "w_regs q 0 s" "write_request q" "unat (awsize q) = 3" "wstrb pin = 0xF0"
    and "am_ok m" "unat (awaddr q) + 8 \<le> length (am_mem m)"
  shows "\<exists>a c b. write_data mem_target pin s m
    = Inr (s\<lparr>w_current_addr := a, w_cur_trans := c, w_buffer := b, w_resp := RESP_OKEY\<rparr>, m\<lparr>am_mem := splice_at (am_mem m) (unat (awaddr q) + 4) (map (byte_of (wdata pin)) [0..<4])\<rparr>)"
proof -
  let ?c = "w_current_addr s"
  have E: "beat_bytes (awsize q) = 8" using assms(3) by (simp add: beat_bytes_def)
  have al: "unat (awaddr q) mod 8 = 0" and leg: "legal_incr (awaddr q) (awlen q) (awsize q)"
    using assms(2) E by (auto simp: write_request_def)
  have c: "?c = awaddr q" using assms(1) by (simp add: w_regs_def word_unat_eq_iff)
  have z: "?c mod D_bytes = 0" using al c by (simp add: D_bytes_def word_unat_eq_iff unat_mod_distrib)
  have el: "ucast (w_each_len s) = (8 :: u64)"
    unfolding assms(1) [unfolded w_regs_def, THEN conjunct1] using burst_lengths(4) [OF leg] E by (simp add: word_unat_eq_iff)
  have "unat (awaddr q + 4) = unat (awaddr q) + 4"
    using unat_add_small [of "awaddr q" 4] assms(5,6) by (simp add: am_ok_def)
  then have w: "am_do_write (awaddr q + 4) (map (byte_of (wdata pin)) [0..<4]) m
      = Inr (RESP_OKEY, m\<lparr>am_mem := splice_at (am_mem m) (unat (awaddr q) + 4) (map (byte_of (wdata pin)) [0..<4])\<rparr>)"
    using am_do_write_in [OF assms(5), of "awaddr q + 4" "map (byte_of (wdata pin)) [0..<4]"] assms(6) by simp
  have "slice (map (byte_of (wdata pin)) [0..<8]) 0 4 = map (byte_of (wdata pin)) [0..<4]"
    using slice_map_upt [of 0 4 8] by simp
  moreover define s1 where "s1 = (let s1 = s\<lparr>w_current_addr := next_addr ?c (w_each_len s)\<rparr> in
    if w_current_addr s1 = w_start_addr s1 + ucast (w_each_len s1 * w_nr_trans s1)
    then s1\<lparr>w_cur_trans := ucast (w_start_addr s1)\<rparr> else s1)"
  have s1: "w_each_len s1 = w_each_len s" "w_resp s1 = RESP_OKEY" using assms(1) by (simp_all add: s1_def Let_def w_regs_def)
  have "write_data mem_target pin s m = write_ranges mem_target (wdata pin) ?c 0 [(4, 4)] s1 m"
    unfolding write_data_def Let_def s1_def [unfolded Let_def, symmetric] s1(1)
    using strb_upper_half assms(4) by (simp add: z el)
  ultimately have "write_data mem_target pin s m = Inr (s1\<lparr>w_buffer := map (byte_of (wdata pin)) [0..<8], w_resp := RESP_OKEY\<rparr>,
      m\<lparr>am_mem := splice_at (am_mem m) (unat (awaddr q) + 4) (map (byte_of (wdata pin)) [0..<4])\<rparr>)"
    using w c s1(2) by (simp add: mem_target_def)
  moreover have "\<exists>a c. s1 = s\<lparr>w_current_addr := a, w_cur_trans := c\<rparr>"
  proof (intro exI)
    show "s1 = s\<lparr>w_current_addr := w_current_addr s1, w_cur_trans := w_cur_trans s1\<rparr>" by (simp add: s1_def Let_def)
  qed
  ultimately show ?thesis by auto
qed

text \<open>
  A single 8-byte write whose strobes select the upper four lanes only: the slave stores the bytes
  of the lower lanes of the data there (it takes the data from the start of the beat instead of the
  start of the run), and answers \<open>OKEY\<close>.
\<close>

theorem sparse_strobes_misplace_data:
  assumes "write_request q" "\<not> b_busy s" "am_ok m" "unat (awsize q) = 3" "awlen q = 0"
    and "unat (awaddr q) + 8 \<le> length (am_mem m)"
  shows "\<exists>pin s' m'. write_run mem_target [id, drive_data True (v, 0xF0)] q s m = Inr (pin, s', m')
    \<and> bresp pin = resp_code RESP_OKEY
    \<and> (\<forall>j<4. am_mem m' ! (unat (awaddr q) + 4 + j) = byte_of v j)"
proof -
  obtain pin1 s1 where st: "write_channel mem_target q s m = Inr (pin1, s1, m)" "w_pins q 0 pin1" "writing q 0 s1"
    using write_channel_start [OF assms(1,2), of mem_target m] by blast
  let ?pin = "drive_data True (v, 0xF0) pin1"
  have N: "beats (awlen q) = 1" using assms(5) by (simp add: beats_def)
  note w = st(3) [unfolded writing_def N w_regs_def]
  have fin: "w_cur_trans s1 + 1 = w_nr_trans s1" using w unat_succ32 [of "w_cur_trans s1"] by (simp add: word_unat_eq_iff)
  define s2 where "s2 = s1\<lparr>w_cur_trans := w_cur_trans s1 + 1, write_busy := False, b_busy := True\<rparr>"
  have "w_regs q 0 s2" using st(3) by (simp add: s2_def writing_def w_regs_def)
  from write_upper_half [OF this assms(1,4), of ?pin m] assms(3,6)
  obtain a c b where d: "write_data mem_target ?pin s2 m
      = Inr (s2\<lparr>w_current_addr := a, w_cur_trans := c, w_buffer := b, w_resp := RESP_OKEY\<rparr>,
          m\<lparr>am_mem := splice_at (am_mem m) (unat (awaddr q) + 4) (map (byte_of v) [0..<4])\<rparr>)"
    by (auto simp: drive_data_def)
  have p: "wready pin1 \<noteq> 0" "bvalid pin1 = 0" using st(2) by (simp_all add: w_pins_def N)
  have "write_beat mem_target ?pin s1 m = write_data mem_target ?pin s2 m"
    using write_beat_accept [of ?pin s1 mem_target m] p w fin by (simp add: s2_def drive_data_def)
  moreover have "write_busy s1" "\<not> w_early_err s1" "awvalid ?pin = 0" "bvalid ?pin = 0"
    using w p by (simp_all add: drive_data_def)
  ultimately have "\<exists>pin s'. write_channel mem_target ?pin s1 m
      = Inr (pin, s', m\<lparr>am_mem := splice_at (am_mem m) (unat (awaddr q) + 4) (map (byte_of v) [0..<4])\<rparr>)
      \<and> bresp pin = resp_code RESP_OKEY"
    using d by (simp add: write_channel_def b_beat_def s2_def)
  with st(1) assms(6) show ?thesis by (auto simp: nth_splice_at)
qed

theorem sparse_strobes_misplace_data_witness:
  "\<exists>pin s' m'. write_run mem_target [id, drive_data True (0x8877665544332211, 0xF0)]
       (demo_write\<lparr>awsize := 3, awlen := 0\<rparr>) idle_slave \<lparr>am_mem = replicate 16 0\<rparr> = Inr (pin, s', m')
     \<and> am_mem m' ! 12 = 0x11"
proof -
  let ?q = "demo_write\<lparr>awsize := 3, awlen := 0\<rparr>"
  have "write_request ?q"
    by (simp add: write_request_def demo_write_def axi4_new_def burst_defs legal_incr_def aligned_start_def beats_def beat_bytes_def)
  moreover have "am_ok \<lparr>am_mem = replicate 16 0\<rparr>" "\<not> b_busy idle_slave" "unat (awaddr ?q) = 8"
    by (simp_all add: am_ok_def idle_slave_def demo_write_def axi4_new_def)
  ultimately obtain pin s' m' where r: "write_run mem_target [id, drive_data True (0x8877665544332211, 0xF0)] ?q idle_slave
      \<lparr>am_mem = replicate 16 0\<rparr> = Inr (pin, s', m')" "\<forall>j<4. am_mem m' ! (8 + 4 + j) = byte_of 0x8877665544332211 j"
    using sparse_strobes_misplace_data [of ?q idle_slave "\<lparr>am_mem = replicate 16 0\<rparr>" "0x8877665544332211"] by auto
  have "am_mem m' ! 12 = 0x11" using r(2) [rule_format, of 0] by (simp add: byte_of_def)
  with r(1) show ?thesis by blast
qed

text \<open>
  Requests the slave does not serve: every wrapping burst is refused, because the test of the
  number of beats can never be passed (\<open>n != 2 || n != 4 || ...\<close>), and so is every fixed write burst; the
  failing \<open>assert\<close> ends the simulation. No wrapping request, however well formed, is an exception.
\<close>

theorem unsupported_bursts_abort:
  assumes "unat (arsize q) \<le> 3" "arburst q = BURST_WRAP" "unat (awsize p) \<le> 3" "awburst p = BURST_WRAP \<or> awburst p = BURST_FIXED"
  shows "read_init T q s t = Inl Assert_fail \<and> write_init p s = Inl Assert_fail"
proof -
  have "each_len (arsize q) \<noteq> 0" "each_len (awsize p) \<noteq> 0"
    using unat_each_len [OF assms(1)] unat_each_len [OF assms(3)] by auto
  then show ?thesis using assms(2,4)
    by (auto simp: read_init_def read_setup_def Let_def read_check_def write_init_def write_check_def burst_defs)
qed

theorem unsupported_bursts_abort_witness:
  "read_init mem_target (axi4_new\<lparr>arburst := 2, arlen := 3, arsize := 3, araddr := 0x20\<rparr>) idle_slave \<lparr>am_mem = []\<rparr> = Inl Assert_fail"
  using unsupported_bursts_abort [of "axi4_new\<lparr>arburst := 2, arlen := 3, arsize := 3, araddr := 0x20\<rparr>" axi4_new mem_target
      idle_slave "\<lparr>am_mem = []\<rparr>"]
  by (simp add: axi4_new_def burst_defs)

definition stall :: "axi4 \<Rightarrow> axi4" where
  "stall pin = pin\<lparr>arvalid := 0, rready := 0\<rparr>"

text \<open>
  Two ways in which a transfer is lost. A single-beat read is presented for one cycle and then
  withdrawn although the master has never been ready for it; and a data beat that arrives before its
  address is accepted (\<open>wready\<close> is up) and dropped: neither the slave nor the memory changes.
\<close>

theorem transfers_can_be_lost:
  assumes "read_request q" "read_idle q s" "am_ok m" "unat (araddr q) + burst_len q \<le> length (am_mem m)" "arlen q = 0"
    and "\<not> write_busy s" "\<not> b_busy s" "awvalid p = 0" "wvalid p = 1" "wready p = 1"
  shows "(\<exists>ps s'. read_run mem_target [id, stall] q s m = Inr (ps, s', m) \<and> map rvalid ps = [1, 0] \<and> \<not> read_busy s')
    \<and> (\<exists>p'. write_channel mem_target p s m = Inr (p', s, m) \<and> wready p' = 1)"
proof
  let ?b = "slice (am_mem m) (unat (araddr q)) (burst_len q)"
  have t: "t_read mem_target (araddr q) (of_nat (burst_len q)) m = Inr (RESP_OKEY, Some ?b, m)"
    using am_do_read_in [OF assms(3,4)] by (simp add: mem_target_def)
  obtain pin s1 d where st: "read_channel mem_target q s m = Inr (pin, s1, m)" "shows_beat q d RESP_OKEY 0 pin"
      "reading q d RESP_OKEY 1 s1"
    using read_channel_start [of q s mem_target m RESP_OKEY "Some ?b" m] assms(1,2,4) t
    by (auto simp: read_request_def read_idle_def splice_simps)
  have "beats (arlen q) = 1" using assms(5) by (simp add: beats_def)
  then have "read_last s1" "\<not> read_busy s1" "\<not> read_wait s1" "rvalid pin = 1"
    using st(2,3) by (simp_all add: reading_def shows_beat_def)
  then have "read_channel mem_target (stall pin) s1 m
      = Inr ((stall pin)\<lparr>rvalid := 0, rlast := 0, arready := 1\<rparr>, s1\<lparr>read_last := False\<rparr>, m)"
    by (simp add: read_channel_def stall_def)
  with st(1) \<open>\<not> read_busy s1\<close> \<open>rvalid pin = 1\<close>
  show "\<exists>ps s'. read_run mem_target [id, stall] q s m = Inr (ps, s', m) \<and> map rvalid ps = [1, 0] \<and> \<not> read_busy s'" by simp
  show "\<exists>p'. write_channel mem_target p s m = Inr (p', s, m) \<and> wready p' = 1"
    using assms(6-10) by (simp add: write_channel_def)
qed

theorem transfers_can_be_lost_witness:
  "\<exists>ps s'. read_run mem_target [id, stall] (demo_read\<lparr>arlen := 0\<rparr>) idle_slave \<lparr>am_mem = replicate 16 9\<rparr>
     = Inr (ps, s', \<lparr>am_mem = replicate 16 9\<rparr>) \<and> map rvalid ps = [1, 0]"
proof -
  let ?q = "demo_read\<lparr>arlen := 0\<rparr>" and ?p = "axi4_new\<lparr>wvalid := 1, wready := 1\<rparr>"
  have "read_request ?q" "read_idle ?q idle_slave" "unat (araddr ?q) + burst_len ?q \<le> 16"
    by (simp_all add: read_request_def read_idle_def demo_read_def idle_slave_def axi4_new_def burst_defs legal_incr_def
      aligned_start_def beat_bytes_def beats_def burst_len_def)
  moreover have "am_ok \<lparr>am_mem = replicate 16 9\<rparr>" "\<not> write_busy idle_slave" "\<not> b_busy idle_slave" "awvalid ?p = 0"
    by (simp_all add: am_ok_def idle_slave_def axi4_new_def)
  ultimately show ?thesis
    using transfers_can_be_lost [of ?q idle_slave "\<lparr>am_mem = replicate 16 9\<rparr>" ?p] by auto
qed

text \<open>
  \<open>load_binary\<close> stores a file that fits at its address. One that does not fit is meant to be cut to
  the memory, but the count is set to the whole size of the memory: at address 0 the file is cut, at any
  other address the copy runs past the array.
\<close>

theorem load_binary_bounds:
  assumes "am_ok m" "length content < 2 ^ 64" "content \<noteq> []" "am_mem m \<noteq> []"
  shows "load_binary content a m =
    (if unat a + length content \<le> length (am_mem m)
     then Inr (m\<lparr>am_mem := splice_at (am_mem m) (unat a) content\<rparr>)
     else if a = 0 then Inr (m\<lparr>am_mem := take (length (am_mem m)) content\<rparr>)
     else Inl Out_of_bounds)"
proof -
  have sz: "unat (am_size m) = length (am_mem m)" using assms(1) by (simp add: am_size_def am_ok_def unat_of_nat_small)
  have fs: "unat (of_nat (length content) :: u64) = length content" using assms(2) by (simp add: unat_of_nat_small)
  have big: "(a \<ge> am_size m \<or> of_nat (length content) > am_size m - a) \<longleftrightarrow> length (am_mem m) < unat a + length content"
  proof (cases "a \<ge> am_size m")
    case True
    then show ?thesis using assms(3) by (simp add: word_le_nat_alt sz) (metis add_less_same_cancel1 le_add1 le_neq_implies_less length_0_conv
      less_add_same_cancel1 less_le_trans neq0_conv not_add_less1)
  next
    case False
    then have "unat (am_size m - a) = length (am_mem m) - unat a" by (simp add: unat_sub sz)
    with False show ?thesis by (auto simp: word_less_nat_alt word_le_nat_alt sz fs)
  qed
  show ?thesis
  proof (cases "length (am_mem m) < unat a + length content")
    case False
    then have "\<not> (a \<ge> am_size m \<or> of_nat (length content) > am_size m - a)" using big by blast
    with False show ?thesis by (simp add: load_binary_def Let_def fs)
  next
    case True
    then have b: "a \<ge> am_size m \<or> of_nat (length content) > am_size m - a" using big by blast
    have "0 < unat a \<Longrightarrow> length (am_mem m) < unat a + min (length content) (length (am_mem m))"
      using True assms(4) by (simp add: min_def)
    moreover have "a \<noteq> 0 \<longleftrightarrow> 0 < unat a" by (metis neq0_conv unsigned_eq_0_iff)
    ultimately show ?thesis using True b
      unfolding load_binary_def Let_def if_P [OF b] by (auto simp: sz splice_at_def)
  qed
qed

theorem load_binary_bounds_witness:
  "load_binary [1, 2, 3] 1 \<lparr>am_mem = [0, 0]\<rparr> = Inl Out_of_bounds
   \<and> load_binary [1, 2, 3] 0 \<lparr>am_mem = [0, 0]\<rparr> = Inr \<lparr>am_mem = [1, 2]\<rparr>"
  using load_binary_bounds [of "\<lparr>am_mem = [0, 0]\<rparr>" "[1, 2, 3]" 1] load_binary_bounds [of "\<lparr>am_mem = [0, 0]\<rparr>" "[1, 2, 3]" 0]
  by (simp add: am_ok_def)

end
