(* ===== verification/Axi_Safe.thy ===== *)
theory Axi_Safe
  imports Axi_Burst
begin

text \<open>
  Type safety of the AXI slave: an invariant of its registers that every cycle keeps, whatever the master
  drives, so that a cycle ends well or stops at one of the slave's own assertions, and never leaves the
  buffers. The signals reach the slave through \<open>update_input\<close>, as the simulator connects it.
\<close>

section \<open>Requests the slave accepts\<close>

definition legal_read :: "axi4 \<Rightarrow> bool" where
  "legal_read pin \<longleftrightarrow> unat (arsize pin) \<le> 3 \<and> arburst pin \<noteq> BURST_WRAP \<and> arburst pin \<noteq> BURST_RESERVED
     \<and> (arburst pin \<noteq> BURST_FIXED \<longrightarrow> legal_incr (araddr pin) (arlen pin) (arsize pin))"

definition legal_write :: "axi4 \<Rightarrow> bool" where
  "legal_write pin \<longleftrightarrow> awburst pin \<noteq> BURST_WRAP \<and> awburst pin \<noteq> BURST_RESERVED \<and> awburst pin \<noteq> BURST_FIXED
     \<and> legal_incr (awaddr pin) (awlen pin) (awsize pin)"

text \<open>A master with three-bit size signals that leaves the last page of the address space alone.\<close>

definition master_pins :: "axi4 \<Rightarrow> bool" where
  "master_pins pin \<longleftrightarrow> unat (arsize pin) < 8 \<and> unat (awsize pin) < 8
     \<and> unat (araddr pin) < 2 ^ 64 - 4096 \<and> unat (awaddr pin) < 2 ^ 64 - 4096"

text \<open>What stops the slave: a request it refuses, or a data beat without the mark of the last one.\<close>

definition refused :: "axi4 \<Rightarrow> bool" where
  "refused q \<longleftrightarrow> arready q \<noteq> 0 \<and> arvalid q \<noteq> 0 \<and> \<not> legal_read q \<or> awready q \<noteq> 0 \<and> awvalid q \<noteq> 0 \<and> \<not> legal_write q
     \<or> wvalid q \<noteq> 0 \<and> wlast q = 0"

lemma each_len_size: "unat sz < 8 \<Longrightarrow> each_len sz \<noteq> 0 \<and> (D_bytes < ucast (each_len sz) \<longleftrightarrow> 3 < unat sz)"
proof -
  assume "unat sz < 8"
  then have "unat sz \<in> {0, 1, 2, 3, 4, 5, 6, 7}" by auto
  then show ?thesis by (auto simp: each_len_def D_bytes_def)
qed

lemma page_test:
  assumes "unat sz \<le> 3"
  shows "4096 - a mod 4096 < ucast (ucast (ucast (each_len sz * (ucast n + 1)) - a mod ucast (each_len sz) :: u64) :: u32)
    \<longleftrightarrow> \<not> legal_incr a n sz"
proof -
  note f = size_facts [OF assms] and l = size_lengths [OF assms]
  have "unat (4096 - a mod 4096) = 4096 - unat a mod 4096"
    by (simp add: unat_sub word_le_nat_alt unat_mod_distrib less_imp_le)
  then have "4096 - a mod 4096 < ucast (ucast (ucast (each_len sz * (ucast n + 1)) - a mod ucast (each_len sz) :: u64) :: u32)
      \<longleftrightarrow> 4096 - unat a mod 4096 < beat_bytes sz * beats n - unat a mod beat_bytes sz"
    by (simp add: word_less_nat_alt ucast_u32_u64 l(7))
  moreover have "4096 - unat a mod 4096 < beat_bytes sz * beats n - unat a mod beat_bytes sz
      \<longleftrightarrow> \<not> (unat a mod 4096 - unat a mod beat_bytes sz + beats n * beat_bytes sz \<le> 4096)"
    using f(4) [of a] f(8) [of a n] mod_less_divisor [of 4096 "unat a"] by (simp add: mult.commute) linarith
  ultimately show ?thesis by (simp add: legal_incr_def assms f(5))
qed

lemma fixed_room:
  fixes a :: u64 and sz :: CData
  assumes "unat sz \<le> 3"
  defines "tot \<equiv> ucast (ucast (each_len sz) - a mod ucast (each_len sz) :: u64) :: u32"
  shows "unat tot = beat_bytes sz - unat a mod beat_bytes sz" "0 < unat tot" "unat a mod 4096 + unat tot \<le> 4096"
    "\<not> (4096 - a mod 4096 < ucast tot)"
proof -
  note f = size_facts [OF assms(1)] and l = size_lengths [OF assms(1)]
  have E8: "beat_bytes sz \<le> 8" using f(1) by auto
  have "unat (ucast (each_len sz) - a mod ucast (each_len sz) :: u64) = beat_bytes sz - unat a mod beat_bytes sz"
    using f(6) [of a] by (simp add: unat_sub word_le_nat_alt l(4,5))
  then show t: "unat tot = beat_bytes sz - unat a mod beat_bytes sz"
    using E8 by (simp add: tot_def unsigned_ucast_eq take_bit_nat_eq_self)
  then show "0 < unat tot" using f(6) [of a] by simp
  have "aligned_start a sz mod 4096 + beat_bytes sz \<le> 4096"
  proof (rule mod_room)
    show "aligned_start a sz mod 4096 mod beat_bytes sz = 0"
      using mod_mod_size [OF f(1), of "aligned_start a sz"] by (simp add: aligned_start_def minus_mod_eq_mult_div)
    show "4096 mod beat_bytes sz = 0" using f(1) by auto
  qed simp
  then show r: "unat a mod 4096 + unat tot \<le> 4096" using f(4,5,6) [of a] t by simp
  have "unat (4096 - a mod 4096) = 4096 - unat a mod 4096"
    by (simp add: unat_sub word_le_nat_alt unat_mod_distrib less_imp_le)
  then show "\<not> (4096 - a mod 4096 < ucast tot)" using r by (simp add: word_less_nat_alt ucast_u32_u64)
qed

lemma read_setup_check:
  assumes "unat (arsize pin) < 8"
  shows "r_early_err (read_setup pin s) \<longleftrightarrow> \<not> legal_read pin"
proof (cases "unat (arsize pin) \<le> 3 \<and> arburst pin \<noteq> BURST_WRAP \<and> arburst pin \<noteq> BURST_RESERVED")
  case True
  then show ?thesis
    using each_len_size [OF assms] page_test [of "arsize pin" "araddr pin" "arlen pin"] fixed_room(4) [of "arsize pin" "araddr pin"]
    by (simp add: read_setup_def read_check_def Let_def legal_read_def)
next
  case False
  then show ?thesis
    using each_len_size [OF assms] by (auto simp: read_setup_def read_check_def Let_def legal_read_def)
qed

lemma write_init_check:
  assumes "unat (awsize pin) < 8"
  shows "(case write_init pin s of Inl e \<Rightarrow> e = Assert_fail \<and> \<not> legal_write pin | Inr _ \<Rightarrow> legal_write pin)"
proof (cases "unat (awsize pin) \<le> 3 \<and> awburst pin \<noteq> BURST_WRAP \<and> awburst pin \<noteq> BURST_RESERVED \<and> awburst pin \<noteq> BURST_FIXED")
  case True
  then show ?thesis
    using each_len_size [OF assms] page_test [of "awsize pin" "awaddr pin" "awlen pin"]
    by (simp add: write_init_def write_check_def Let_def legal_write_def)
next
  case False
  then show ?thesis
    using each_len_size [OF assms] by (auto simp: write_init_def write_check_def Let_def legal_write_def legal_incr_def)
qed

section \<open>The invariant\<close>

definition read_regs :: "axi4_slave \<Rightarrow> bool" where
  "read_regs s \<longleftrightarrow>
     unat (r_each_len s) \<in> {1, 2, 4, 8} \<and> unat (r_cur_trans s) < unat (r_nr_trans s) \<and> unat (r_nr_trans s) \<le> 256
     \<and> \<not> r_early_err s \<and> r_burst_type s \<noteq> BURST_WRAP
     \<and> (if r_burst_type s = BURST_FIXED
        then 0 < unat (r_tot_len s) \<and> unat (r_start_addr s) mod 4096 + unat (r_tot_len s) \<le> 4096
           \<and> unat (r_start_addr s) + unat (r_tot_len s) < 2 ^ 64
        else unat (r_current_addr s) mod unat (r_each_len s) = 0
           \<and> unat (r_current_addr s) + (unat (r_nr_trans s) - unat (r_cur_trans s)) * unat (r_each_len s) \<le> 4096)"

definition write_regs :: "axi4_slave \<Rightarrow> bool" where
  "write_regs s \<longleftrightarrow>
     unat (w_each_len s) \<in> {1, 2, 4, 8} \<and> unat (w_cur_trans s) < unat (w_nr_trans s) \<and> unat (w_nr_trans s) \<le> 256
     \<and> \<not> w_early_err s \<and> unat (w_current_addr s) mod unat (w_each_len s) = 0
     \<and> unat (w_current_addr s) + (unat (w_nr_trans s) - unat (w_cur_trans s)) * unat (w_each_len s)
         \<le> unat (w_start_addr s) + unat (w_nr_trans s) * unat (w_each_len s)
     \<and> unat (w_start_addr s) < 2 ^ 64 - 4096"

definition read_ok :: "axi4_slave \<Rightarrow> bool" where
  "read_ok s \<longleftrightarrow> length (r_data s) = 4096 \<and> (read_busy s \<or> read_wait s \<longrightarrow> read_regs s) \<and> \<not> (read_busy s \<and> read_wait s)"

definition write_ok :: "axi4_slave \<Rightarrow> bool" where
  "write_ok s \<longleftrightarrow> (write_busy s \<longrightarrow> write_regs s)"

text \<open>The slave offers to take an address only when no burst is in progress.\<close>

definition slave_ok :: "axi4 \<Rightarrow> axi4_slave \<Rightarrow> bool" where
  "slave_ok pin s \<longleftrightarrow> read_ok s \<and> write_ok s \<and> (arready pin \<noteq> 0 \<longrightarrow> \<not> read_busy s \<and> \<not> read_wait s)"

section \<open>The read channel\<close>

lemma read_setup_regs:
  assumes "legal_read pin" "unat (araddr pin) < 2 ^ 64 - 4096"
  shows "read_regs (read_setup pin s)"
proof -
  have sz: "unat (arsize pin) \<le> 3" and nb: "arburst pin \<noteq> BURST_WRAP" using assms(1) by (simp_all add: legal_read_def)
  note f = size_facts [OF sz] and l = size_lengths [OF sz]
  have err: "\<not> r_early_err (read_setup pin s)" using read_setup_check [of pin s] assms(1) sz by simp
  show ?thesis
  proof (cases "arburst pin = BURST_FIXED")
    case True
    then show ?thesis
      using fixed_room(2,3) [OF sz, of "araddr pin"] err nb f(1,2,3) l(1,2) assms(2)
      by (simp add: read_regs_def read_setup_def Let_def)
  next
    case False
    then have leg: "legal_incr (araddr pin) (arlen pin) (arsize pin)" using assms(1) by (simp add: legal_read_def)
    show ?thesis
      using False err nb f(1,2,3) l(1,2,6) aligned_multiple(1) [OF leg, of 0] leg
      by (simp add: read_regs_def read_setup_def Let_def legal_incr_def)
  qed
qed

text \<open>The registers of the other channel and the state machine flags stay as they are.\<close>

lemma read_setup_frame [simp]:
  "write_ok (read_setup pin s) = write_ok s" "read_busy (read_setup pin s) = read_busy s"
  "read_wait (read_setup pin s) = read_wait s" "read_last (read_setup pin s) = read_last s"
  "r_data (read_setup pin s) = r_data s"
  by (simp_all add: read_setup_def Let_def write_ok_def write_regs_def)

lemma read_setup_total:
  assumes "legal_read pin"
  shows "r_each_len (read_setup pin s) \<noteq> 0" "0 < unat (r_tot_len (read_setup pin s))"
    "unat (r_start_addr (read_setup pin s)) mod 4096 + unat (r_tot_len (read_setup pin s)) \<le> 4096"
    "r_start_addr (read_setup pin s) = araddr pin"
proof -
  have sz: "unat (arsize pin) \<le> 3" and nb: "arburst pin \<noteq> BURST_WRAP" using assms by (simp_all add: legal_read_def)
  note l = size_lengths [OF sz]
  show "r_start_addr (read_setup pin s) = araddr pin" using nb by (simp add: read_setup_def Let_def)
  show "r_each_len (read_setup pin s) \<noteq> 0"
    using each_len_size [of "arsize pin"] sz by (simp add: read_setup_def Let_def)
  show "0 < unat (r_tot_len (read_setup pin s))"
    "unat (r_start_addr (read_setup pin s)) mod 4096 + unat (r_tot_len (read_setup pin s)) \<le> 4096"
    using fixed_room(2,3) [OF sz, of "araddr pin"] nb burst_room(4,5) [of "araddr pin" "arlen pin" "arsize pin"] assms
      l(7) [of "arlen pin" "araddr pin"]
    by (auto simp: read_setup_def Let_def legal_read_def)
qed

lemma fill_safe:
  assumes "length d = 4096" "i + n \<le> 4096" "\<forall>b. bs = Some b \<longrightarrow> length b = n"
  shows "\<exists>d'. fill bs i d = Inr d' \<and> length d' = 4096"
  using assms by (cases bs) (simp_all add: fill_def splice_simps)

lemma read_regs_data [simp]:
  "read_regs (s\<lparr>r_data := d\<rparr>) = read_regs s" "read_regs (s\<lparr>r_resp := r\<rparr>) = read_regs s"
  "read_regs (s\<lparr>read_busy := b\<rparr>) = read_regs s" "read_regs (s\<lparr>read_wait := b\<rparr>) = read_regs s"
  "read_regs (s\<lparr>read_last := b\<rparr>) = read_regs s"
  by (simp_all add: read_regs_def)

lemma write_ok_read_side [simp]:
  "write_ok (s\<lparr>r_data := d\<rparr>) = write_ok s" "write_ok (s\<lparr>r_resp := r\<rparr>) = write_ok s"
  "write_ok (s\<lparr>read_busy := b\<rparr>) = write_ok s" "write_ok (s\<lparr>read_wait := b\<rparr>) = write_ok s"
  "write_ok (s\<lparr>read_last := b\<rparr>) = write_ok s" "write_ok (s\<lparr>r_cur_trans := c\<rparr>) = write_ok s"
  "write_ok (s\<lparr>r_current_addr := a\<rparr>) = write_ok s"
  by (simp_all add: write_ok_def write_regs_def)

lemma read_ok_write_side [simp]:
  "read_ok (s\<lparr>write_busy := b\<rparr>) = read_ok s" "read_ok (s\<lparr>b_busy := b\<rparr>) = read_ok s"
  "write_ok (s\<lparr>b_busy := b\<rparr>) = write_ok s"
  by (simp_all add: read_ok_def read_regs_def write_ok_def write_regs_def)

text \<open>The slave releases the last beat, takes a new address and presents a beat.\<close>

definition read_release :: "axi4 \<Rightarrow> axi4_slave \<Rightarrow> axi4 \<times> axi4_slave" where
  "read_release pin s =
     (if read_last s \<and> rvalid pin \<noteq> 0 then
        (pin\<lparr>rvalid := 0, rlast := 0\<rparr>,
         if read_wait s then s\<lparr>read_last := False, read_wait := False, read_busy := True\<rparr> else s\<lparr>read_last := False\<rparr>)
      else (pin, s))"

lemma read_channel_release:
  "read_channel T pin s t =
     (let (pin, s) = read_release pin s in
      bindR (if arready pin \<noteq> 0 \<and> arvalid pin \<noteq> 0 then
               bindR (read_init T pin s t) (\<lambda>(s, t).
                 Inr (if read_last s then s\<lparr>read_wait := True\<rparr> else s\<lparr>read_busy := True\<rparr>, t))
             else Inr (s, t)) (\<lambda>(s, t).
         bindR (if read_busy s then read_beat T pin s t else Inr (pin, s, t)) (\<lambda>(pin, s, t).
           Inr (pin\<lparr>arready := b2w (\<not> read_busy s \<and> \<not> read_wait s)\<rparr>, s, t))))"
proof -
  have "(if read_last s \<and> rvalid pin \<noteq> 0 then
           (pin\<lparr>rvalid := 0, rlast := 0\<rparr>,
            let s = s\<lparr>read_last := False\<rparr> in
            if read_wait s then s\<lparr>read_wait := False, read_busy := True\<rparr> else s)
         else (pin, s)) = read_release pin s"
    by (simp add: read_release_def Let_def)
  then show ?thesis unfolding read_channel_def by simp
qed

lemma read_release_ok:
  assumes "read_release pin s = (pin1, s1)" "slave_ok pin s"
  shows "read_ok s1" "write_ok s1" "arready pin \<noteq> 0 \<Longrightarrow> \<not> read_busy s1 \<and> \<not> read_wait s1"
    "\<exists>b c. pin1 = pin\<lparr>rvalid := b, rlast := c\<rparr>"
proof -
  show "read_ok s1" "write_ok s1" "arready pin \<noteq> 0 \<Longrightarrow> \<not> read_busy s1 \<and> \<not> read_wait s1"
    using assms by (auto simp: read_release_def slave_ok_def read_ok_def split: if_splits)
  have "pin = pin\<lparr>rvalid := rvalid pin, rlast := rlast pin\<rparr>" by simp
  then show "\<exists>b c. pin1 = pin\<lparr>rvalid := b, rlast := c\<rparr>"
    using assms(1) unfolding read_release_def by (metis fst_conv)
qed

text \<open>The pins the read channel may drive.\<close>

definition read_drives :: "axi4 \<Rightarrow> axi4 \<Rightarrow> bool" where
  "read_drives pin pin' \<longleftrightarrow> (\<exists>a b c d e f. pin' = pin\<lparr>rid := a, rvalid := b, rlast := c, rresp := d, rdata := e, arready := f\<rparr>)"

text \<open>The registers after a beat that is delivered.\<close>

definition advance :: "axi4_slave \<Rightarrow> axi4_slave" where
  "advance s = s\<lparr>r_cur_trans := r_cur_trans s + 1, read_last := read_last s \<or> r_cur_trans s + 1 = r_nr_trans s,
     read_busy := read_busy s \<and> r_cur_trans s + 1 \<noteq> r_nr_trans s\<rparr>"

lemma advance_more:
  assumes "read_regs s" "read_busy (advance s)"
  shows "unat (r_cur_trans s + 1) = unat (r_cur_trans s) + 1 \<and> unat (r_cur_trans s) + 1 < unat (r_nr_trans s)"
proof -
  have c: "unat (r_cur_trans s + 1) = unat (r_cur_trans s) + 1"
    using assms(1) unat_succ32 [of "r_cur_trans s"] by (simp add: read_regs_def)
  moreover have "r_cur_trans s + 1 \<noteq> r_nr_trans s" using assms(2) by (simp add: advance_def)
  ultimately show ?thesis using assms(1) unfolding word_unat_eq_iff by (simp add: read_regs_def)
qed

context axi_target
begin

lemma read_init_safe:
  assumes "ok t" "length (r_data s) = 4096" "master_pins pin"
  shows "case read_init T pin s t of Inl e \<Rightarrow> e = Assert_fail \<and> \<not> legal_read pin
    | Inr (s', t') \<Rightarrow> ok t' \<and> length (r_data s') = 4096 \<and> read_regs s' \<and> write_ok s' = write_ok s
        \<and> read_busy s' = read_busy s \<and> read_wait s' = read_wait s \<and> read_last s' = read_last s"
proof (cases "legal_read pin")
  case False
  then show ?thesis
    using read_setup_check [of pin s] each_len_size [of "arsize pin"] assms(3)
    by (simp add: read_init_def master_pins_def Let_def read_setup_def)
next
  case True
  let ?s = "read_setup pin s" and ?a = "araddr pin"
  let ?n = "unat (r_tot_len ?s)"
  have adr: "unat ?a < 2 ^ 64 - 4096" using assms(3) by (simp add: master_pins_def)
  note regs = read_setup_regs [OF True adr, of s] and tot = read_setup_total [OF True, of s]
  have err: "\<not> r_early_err ?s" using regs by (simp add: read_regs_def)
  define d1 where "d1 = (if ?a mod D_bytes \<noteq> 0 then clear_lane ?a (r_data s) else r_data s)"
  define d2 where "d2 = (if (?a + ucast (r_tot_len ?s)) mod D_bytes \<noteq> 0 then clear_lane (?a + ucast (r_tot_len ?s)) d1 else d1)"
  have l1: "length d1 = 4096" unfolding d1_def using assms(2) length_clear_lane by simp
  then have l2: "length d2 = 4096" unfolding d2_def using length_clear_lane by simp
  show ?thesis
  proof (cases "r_burst_type ?s = BURST_FIXED")
    case fx: True
    have "read_init T pin s t = Inr (?s\<lparr>r_data := d2\<rparr>, t)"
      using tot(1,4) err fx by (simp add: read_init_def Let_def d1_def d2_def)
    then show ?thesis using l2 regs assms(1) by simp
  next
    case False
    have "unat ?a + ?n < 2 ^ 64" using tot(3,4) adr by simp
    with tot(2) read_answers [OF assms(1), of ?n ?a]
    obtain resp bs t' where t: "t_read T ?a (of_nat ?n) t = Inr (resp, bs, t')" "ok t'" "\<forall>b. bs = Some b \<longrightarrow> length b = ?n" by blast
    have "unat (?a mod 4096) + ?n \<le> 4096" using tot(3,4) by (simp add: unat_mod_distrib)
    from fill_safe [OF l2 this t(3)] obtain d3 where d3: "fill bs (unat (?a mod 4096)) d2 = Inr d3" "length d3 = 4096" by blast
    have "(ucast (r_tot_len ?s) :: u64) = of_nat ?n" by (simp add: word_unat_eq_iff ucast_u32_u64 unat_of_nat_small)
    then have "read_init T pin s t = Inr (?s\<lparr>r_data := d2, r_resp := resp, r_data := d3\<rparr>, t')"
      using tot(1,4) err False t(1) d3(1) [unfolded d2_def d1_def] by (simp add: read_init_def Let_def split: if_splits)
    then show ?thesis using d3(2) regs t(2) by simp
  qed
qed

lemma read_beat_fixed_safe:
  assumes "ok t" "length (r_data s) = 4096" "read_regs s" "rready pin \<noteq> 0 \<or> r_cur_trans s = 0" "r_burst_type s = BURST_FIXED"
  shows "\<exists>x v d t'. read_beat T pin s t
      = Inr (pin\<lparr>rid := s_arid s, rvalid := 1, rlast := b2w (read_last (advance s)), rresp := x, rdata := v\<rparr>, (advance s)\<lparr>r_data := d\<rparr>, t')
    \<and> ok t' \<and> length d = 4096"
proof -
  note r = assms(3) [unfolded read_regs_def]
  let ?a = "r_start_addr s" and ?n = "unat (r_tot_len s)"
  have n: "0 < ?n" "unat ?a mod 4096 + ?n \<le> 4096" "unat ?a + ?n < 2 ^ 64" using r assms(5) by auto
  obtain resp bs t' where t: "t_read T ?a (of_nat ?n) t = Inr (resp, bs, t')" "ok t'" "\<forall>b. bs = Some b \<longrightarrow> length b = ?n"
    using read_answers [OF assms(1) n(1,3)] by blast
  have "unat (?a mod 4096) + ?n \<le> 4096" using n(2) by (simp add: unat_mod_distrib)
  from fill_safe [OF assms(2) this t(3)] obtain d where d: "fill bs (unat (?a mod 4096)) (r_data s) = Inr d" "length d = 4096" by blast
  have "unat (?a mod 4096) < 4096" by (simp add: unat_mod_distrib)
  from load_lane_in [OF d(2) this] obtain v where v: "load_lane (?a mod 4096) d = Inr v" by blast
  have "(ucast (r_tot_len s) :: u64) = of_nat ?n" by (simp add: word_unat_eq_iff ucast_u32_u64 unat_of_nat_small)
  then have "read_beat T pin s t
      = Inr (pin\<lparr>rid := s_arid s, rvalid := 1, rlast := b2w (read_last (advance s)), rresp := resp_code resp, rdata := v\<rparr>, (advance s)\<lparr>r_data := d\<rparr>, t')"
    using read_beat_fixed [OF assms(5) _ assms(4) _ d(1) v, of T t resp t'] r t(1) by (simp add: advance_def)
  with t(2) d(2) show ?thesis by blast
qed

lemma read_beat_incr_safe:
  assumes "length (r_data s) = 4096" "read_regs s" "rready pin \<noteq> 0 \<or> r_cur_trans s = 0" "r_burst_type s \<noteq> BURST_FIXED"
  shows "\<exists>x v. read_beat T pin s t
      = Inr (pin\<lparr>rid := s_arid s, rvalid := 1, rlast := b2w (read_last (advance s)), rresp := x, rdata := v\<rparr>,
             (advance s)\<lparr>r_current_addr := next_addr (r_current_addr s) (r_each_len s)\<rparr>, t)
    \<and> (read_busy (advance s) \<longrightarrow> read_regs ((advance s)\<lparr>r_current_addr := next_addr (r_current_addr s) (r_each_len s)\<rparr>))"
proof -
  note r = assms(2) [unfolded read_regs_def]
  let ?c = "r_current_addr s" and ?E = "unat (r_each_len s)"
  have le: "unat ?c + (unat (r_nr_trans s) - unat (r_cur_trans s)) * ?E \<le> 4096" and al: "unat ?c mod ?E = 0" and E: "?E \<in> {1, 2, 4, 8}"
    using r assms(4) by auto
  have split: "(unat (r_nr_trans s) - unat (r_cur_trans s)) * ?E = ?E + (unat (r_nr_trans s) - (unat (r_cur_trans s) + 1)) * ?E"
    using r by (metis Suc_diff_Suc Suc_eq_plus1 mult_Suc)
  have "0 < ?E" using E by auto
  then have "unat ?c < 4096" using le split by linarith
  from load_lane_in [OF assms(1) this] obtain v where v: "load_lane ?c (r_data s) = Inr v" by blast
  have nx: "unat (next_addr ?c (r_each_len s)) = unat ?c + ?E"
    using next_addr_aligned [OF refl E al] le split by simp
  have "read_regs ((advance s)\<lparr>r_current_addr := next_addr ?c (r_each_len s)\<rparr>)" if "read_busy (advance s)"
    using r assms(4) advance_more [OF assms(2) that] nx le split al by (simp add: read_regs_def advance_def)
  moreover have "read_beat T pin s t
      = Inr (pin\<lparr>rid := s_arid s, rvalid := 1, rlast := b2w (read_last (advance s)), rresp := resp_code (r_resp s), rdata := v\<rparr>,
             (advance s)\<lparr>r_current_addr := next_addr ?c (r_each_len s)\<rparr>, t)"
    using read_beat_incr [OF assms(4) _ _ assms(3) v, of T t] r by (simp add: advance_def)
  ultimately show ?thesis by blast
qed

lemma read_beat_safe:
  assumes "ok t" "length (r_data s) = 4096" "read_regs s"
  shows "\<exists>pin' s' t'. read_beat T pin s t = Inr (pin', s', t') \<and> ok t' \<and> length (r_data s') = 4096
    \<and> (read_busy s' \<longrightarrow> read_regs s') \<and> read_wait s' = read_wait s \<and> write_ok s' = write_ok s
    \<and> (\<exists>a b c d e. pin' = pin\<lparr>rid := a, rvalid := b, rlast := c, rresp := d, rdata := e\<rparr>)"
proof (cases "rready pin \<noteq> 0 \<or> r_cur_trans s = 0")
  case False
  then have "read_beat T pin s t =
      Inr (pin\<lparr>rid := s_arid s, rvalid := 1, rlast := b2w (read_last s), rresp := rresp pin, rdata := rdata pin\<rparr>, s, t)"
    by (simp add: read_beat_def Let_def)
  then show ?thesis using assms by blast
next
  case upd: True
  show ?thesis
  proof (cases "r_burst_type s = BURST_FIXED")
    case True
    from read_beat_fixed_safe [OF assms upd True] obtain x v d t' where
      b: "read_beat T pin s t = Inr (pin\<lparr>rid := s_arid s, rvalid := 1, rlast := b2w (read_last (advance s)), rresp := x, rdata := v\<rparr>,
            (advance s)\<lparr>r_data := d\<rparr>, t')" "ok t'" "length d = 4096" by blast
    let ?s = "(advance s)\<lparr>r_data := d\<rparr>"
    have "read_busy ?s \<longrightarrow> read_regs ?s"
      using assms(3) True advance_more [OF assms(3)] by (simp add: read_regs_def advance_def)
    moreover have "read_wait ?s = read_wait s" "write_ok ?s = write_ok s" "length (r_data ?s) = 4096"
      using b(3) by (simp_all add: advance_def)
    ultimately show ?thesis using b(1,2) by blast
  next
    case False
    let ?s = "(advance s)\<lparr>r_current_addr := next_addr (r_current_addr s) (r_each_len s)\<rparr>"
    from read_beat_incr_safe [OF assms(2,3) upd False, of t] obtain x v where
      b: "read_beat T pin s t = Inr (pin\<lparr>rid := s_arid s, rvalid := 1, rlast := b2w (read_last (advance s)), rresp := x, rdata := v\<rparr>, ?s, t)"
        "read_busy (advance s) \<longrightarrow> read_regs ?s" by blast
    have "read_busy ?s \<longrightarrow> read_regs ?s" using b(2) by simp
    moreover have "read_wait ?s = read_wait s" "write_ok ?s = write_ok s" "length (r_data ?s) = 4096"
      using assms(2) by (simp_all add: advance_def)
    ultimately show ?thesis using b(1) assms(1) by blast
  qed
qed

lemma read_present_safe:
  assumes "ok t" "read_ok s" "write_ok s"
  shows "\<exists>pin' s' t'. (if read_busy s then read_beat T pin s t else Inr (pin, s, t)) = Inr (pin', s', t') \<and> ok t'
    \<and> read_ok s' \<and> write_ok s' \<and> (\<exists>a b c d e. pin' = pin\<lparr>rid := a, rvalid := b, rlast := c, rresp := d, rdata := e\<rparr>)"
proof (cases "read_busy s")
  case True
  with assms(2) have "length (r_data s) = 4096" "read_regs s" "\<not> read_wait s" by (simp_all add: read_ok_def)
  moreover from read_beat_safe [OF assms(1) this(1,2), of pin] obtain pin' s' t' where
      b: "read_beat T pin s t = Inr (pin', s', t')" "ok t'" "length (r_data s') = 4096" "read_busy s' \<longrightarrow> read_regs s'"
        "read_wait s' = read_wait s" "write_ok s' = write_ok s"
        "\<exists>a b c d e. pin' = pin\<lparr>rid := a, rvalid := b, rlast := c, rresp := d, rdata := e\<rparr>" by blast
  ultimately have "read_ok s'" "write_ok s'" using assms(3) by (simp_all add: read_ok_def)
  with b True show ?thesis by simp
next
  case False
  have "pin = pin\<lparr>rid := rid pin, rvalid := rvalid pin, rlast := rlast pin, rresp := rresp pin, rdata := rdata pin\<rparr>" by simp
  then have "\<exists>a b c d e. pin = pin\<lparr>rid := a, rvalid := b, rlast := c, rresp := d, rdata := e\<rparr>" by blast
  with False assms show ?thesis by simp
qed

text \<open>The address phase: a new burst is set up, or refused.\<close>

lemma read_address_safe:
  assumes "ok t" "read_ok s" "write_ok s" "new \<longrightarrow> \<not> read_busy s \<and> \<not> read_wait s" "master_pins pin"
  defines "addr \<equiv> if new then bindR (read_init T pin s t) (\<lambda>(s, t).
      Inr (if read_last s then s\<lparr>read_wait := True\<rparr> else s\<lparr>read_busy := True\<rparr>, t)) else Inr (s, t)"
  shows "(\<exists>s2 t2. addr = Inr (s2, t2) \<and> ok t2 \<and> read_ok s2 \<and> write_ok s2) \<or> addr = Inl Assert_fail \<and> new \<and> \<not> legal_read pin"
proof (cases new)
  case False
  then show ?thesis using assms(1-3) by (simp add: addr_def)
next
  case True
  have len: "length (r_data s) = 4096" using assms(2) by (simp add: read_ok_def)
  have idle: "\<not> read_busy s" "\<not> read_wait s" using assms(4) True by simp_all
  show ?thesis
  proof (cases "read_init T pin s t")
    case (Inl e)
    then show ?thesis using read_init_safe [OF assms(1) len assms(5)] True by (simp add: addr_def)
  next
    case (Inr st)
    obtain s2 t2 where "st = (s2, t2)" by fastforce
    with Inr show ?thesis
      using read_init_safe [OF assms(1) len assms(5)] True idle assms(3) by (simp add: addr_def read_ok_def)
  qed
qed

lemma read_channel_safe:
  assumes "ok t" "slave_ok pin s" "master_pins pin"
  shows "case read_channel T pin s t of Inl e \<Rightarrow> e = Assert_fail \<and> arready pin \<noteq> 0 \<and> arvalid pin \<noteq> 0 \<and> \<not> legal_read pin
    | Inr (pin', s', t') \<Rightarrow> ok t' \<and> slave_ok pin' s' \<and> read_drives pin pin'"
proof -
  obtain pin1 s1 where r: "read_release pin s = (pin1, s1)" by fastforce
  note k = read_release_ok [OF r assms(2)]
  obtain b c where p1: "pin1 = pin\<lparr>rvalid := b, rlast := c\<rparr>" using k(4) by blast
  have m: "master_pins pin1" "legal_read pin1 = legal_read pin" "arready pin1 = arready pin" "arvalid pin1 = arvalid pin"
    using assms(3) by (simp_all add: p1 master_pins_def legal_read_def)
  define new where "new \<longleftrightarrow> arready pin \<noteq> 0 \<and> arvalid pin \<noteq> 0"
  let ?addr = "if new then bindR (read_init T pin1 s1 t) (\<lambda>(s, t).
      Inr (if read_last s then s\<lparr>read_wait := True\<rparr> else s\<lparr>read_busy := True\<rparr>, t)) else Inr (s1, t)"
  have rc: "read_channel T pin s t = bindR ?addr (\<lambda>(s, t).
      bindR (if read_busy s then read_beat T pin1 s t else Inr (pin1, s, t)) (\<lambda>(pin, s, t).
        Inr (pin\<lparr>arready := b2w (\<not> read_busy s \<and> \<not> read_wait s)\<rparr>, s, t)))"
    unfolding read_channel_release r by (simp add: m(3,4) new_def)
  have "(\<exists>s2 t2. ?addr = Inr (s2, t2) \<and> ok t2 \<and> read_ok s2 \<and> write_ok s2) \<or> ?addr = Inl Assert_fail \<and> new \<and> \<not> legal_read pin"
    using read_address_safe [OF assms(1) k(1,2) _ m(1), of new] k(3) m(2) by (simp add: new_def)
  then consider s2 t2 where "?addr = Inr (s2, t2)" "ok t2" "read_ok s2" "write_ok s2" | "?addr = Inl Assert_fail" "new" "\<not> legal_read pin" by blast
  then show ?thesis
  proof cases
    case 1
    from read_present_safe [OF 1(2-4), of pin1] obtain pin3 s3 t3 where e:
        "(if read_busy s2 then read_beat T pin1 s2 t2 else Inr (pin1, s2, t2)) = Inr (pin3, s3, t3)" "ok t3" "read_ok s3" "write_ok s3"
        "\<exists>a b c d e. pin3 = pin1\<lparr>rid := a, rvalid := b, rlast := c, rresp := d, rdata := e\<rparr>" by blast
    let ?pin = "pin3\<lparr>arready := b2w (\<not> read_busy s3 \<and> \<not> read_wait s3)\<rparr>"
    have "read_channel T pin s t = Inr (?pin, s3, t3)" unfolding rc 1(1) using e(1) by simp
    moreover have "read_drives pin ?pin" using e(5) unfolding read_drives_def p1 by fastforce
    moreover have "slave_ok ?pin s3" using e(3,4) by (auto simp: slave_ok_def b2w_def split: if_splits)
    ultimately show ?thesis using e(2) by simp
  next
    case 2
    then show ?thesis unfolding rc by (simp add: new_def)
  qed
qed

end

section \<open>The write channel\<close>

lemma ifResE:
  assumes "(if c then Inl e else r) = Inr x"
  obtains "\<not> c" "r = Inr x"
  using assms by (cases c) simp_all

lemma write_init_safe:
  assumes "master_pins pin" "write_init pin s = Inr s'"
  shows "write_regs s'" "read_ok s' = read_ok s" "read_busy s' = read_busy s" "read_wait s' = read_wait s"
proof -
  have leg: "legal_write pin" using write_init_check [of pin s] assms by (simp add: master_pins_def)
  then have li: "legal_incr (awaddr pin) (awlen pin) (awsize pin)" and nb: "awburst pin \<noteq> BURST_WRAP"
    by (simp_all add: legal_write_def)
  note f = legal_facts [OF li] and l = burst_lengths [OF li]
  let ?el = "each_len (awsize pin)" and ?a = "awaddr pin"
  have s': "w_each_len s' = ?el" "w_nr_trans s' = ucast (awlen pin) + 1" "w_cur_trans s' = 0" "\<not> w_early_err s'"
      "w_start_addr s' = ?a" "w_current_addr s' = ?a - ?a mod ucast ?el"
    using assms(2) nb by (auto simp: write_init_def Let_def split: if_splits)
  have c: "unat (?a - ?a mod ucast ?el) = aligned_start ?a (awsize pin)"
    using l(5) by (simp add: unat_sub word_le_nat_alt aligned_start_def)
  then have "aligned_start ?a (awsize pin) mod beat_bytes (awsize pin) = 0" "aligned_start ?a (awsize pin) \<le> unat ?a"
    using aligned_multiple(2) [OF li] by (simp_all add: aligned_start_def)
  then show "write_regs s'"
    using f(1,2,3) l(1,2) assms(1) c by (simp add: write_regs_def s' master_pins_def)
  have "\<exists>a b c d e f g h i j. s' = s\<lparr>s_awid := a, w_burst_type := b, w_each_len := c, w_nr_trans := d, w_current_addr := e,
      w_start_addr := f, w_cur_trans := g, w_tot_len := h, w_early_err := i, w_resp := j\<rparr>"
    using assms(2) unfolding write_init_def Let_def by (elim ifResE) blast
  then have "r_data s' = r_data s \<and> read_busy s' = read_busy s \<and> read_wait s' = read_wait s \<and> read_regs s' = read_regs s"
    by (elim exE) (simp add: read_regs_def)
  then show "read_ok s' = read_ok s" "read_busy s' = read_busy s" "read_wait s' = read_wait s" by (simp_all add: read_ok_def)
qed

lemma strb_range_lane:
  assumes "(a, n) \<in> set (strb_to_range (w :: u8) l ed)"
  shows "0 < n" "a < 8"
proof -
  show n: "0 < n" using strb_to_range_lanes [of w l ed] assms by auto
  have "a \<in> set (concat (map (\<lambda>(l, n). [l..<l + n]) (strb_to_range w l ed)))"
    using assms n by (auto intro!: bexI [of _ "(a, n)"])
  then have "bit w a" using strb_to_range_lanes [of w l ed] by simp
  then show "a < 8" using bit_imp_le_length [of w a] by simp
qed

context axi_target
begin

lemma write_ranges_safe:
  assumes "ok t" "pos < 8" "unat base + 16 < 2 ^ 64" "\<forall>(a, n)\<in>set rs. 0 < n \<and> a < 8"
  shows "\<exists>b r t'. write_ranges T data base pos rs s t = Inr (s\<lparr>w_buffer := b, w_resp := r\<rparr>, t') \<and> ok t'"
  using assms(1,4)
proof (induction rs arbitrary: s t)
  case Nil
  then show ?case by (intro exI [of _ "w_buffer s"] exI [of _ "w_resp s"] exI [of _ t]) simp
next
  case (Cons q rs)
  obtain a n where q: "q = (a, n)" "0 < n" "a < 8" using Cons.prems(2) by (cases q) auto
  let ?buf = "map (byte_of data) [0..<8]"
  let ?b = "slice ?buf pos n"
  have b: "?b \<noteq> []" "length ?b \<le> 8" using assms(2) q(2) by (simp_all add: slice_def)
  have "unat (base + of_nat a) = unat base + a" using unat_add_small [of base a] assms(3) q(3) by simp
  then have "unat (base + of_nat a) + length ?b < 2 ^ 64" using assms(3) q(3) b(2) by linarith
  from write_answers [OF Cons.prems(1) b(1) this] obtain resp t1 where w: "t_write T (base + of_nat a) ?b t = Inr (resp, t1)" "ok t1"
    by blast
  let ?s = "s\<lparr>w_buffer := ?buf, w_resp := resp_or (w_resp s) resp\<rparr>"
  obtain b' r' t' where "write_ranges T data base pos rs ?s t1 = Inr (?s\<lparr>w_buffer := b', w_resp := r'\<rparr>, t')" "ok t'"
    using Cons.IH [OF w(2), of ?s] Cons.prems(2) by auto
  then show ?case using w(1) by (simp add: q(1)) blast
qed

lemma write_data_safe:
  assumes "ok t" "unat (w_current_addr s) < 2 ^ 64 - 2048"
  shows "\<exists>b r t'. write_data T pin s t =
      Inr (s\<lparr>w_current_addr := next_addr (w_current_addr s) (w_each_len s),
             w_cur_trans := (if next_addr (w_current_addr s) (w_each_len s) = w_start_addr s + ucast (w_each_len s * w_nr_trans s)
                             then ucast (w_start_addr s) else w_cur_trans s), w_buffer := b, w_resp := r\<rparr>, t') \<and> ok t'"
proof -
  let ?c = "w_current_addr s"
  let ?base = "?c - ?c mod D_bytes"
  define s1 where "s1 = s\<lparr>w_current_addr := next_addr ?c (w_each_len s),
      w_cur_trans := (if next_addr ?c (w_each_len s) = w_start_addr s + ucast (w_each_len s * w_nr_trans s)
                      then ucast (w_start_addr s) else w_cur_trans s)\<rparr>"
  define rs where "rs = strb_to_range (wstrb pin) (unat (?c mod D_bytes))
      (unat (?c mod D_bytes + (ucast (w_each_len s) - ?c mod D_bytes mod ucast (w_each_len s))))"
  have "?c mod 8 \<le> ?c" by (simp add: word_le_nat_alt unat_mod_distrib)
  then have base: "unat ?base + 16 < 2 ^ 64" using assms(2) by (simp add: D_bytes_def unat_sub unat_mod_distrib)
  have pos: "unat (?c mod D_bytes) < 8" by (simp add: D_bytes_def unat_mod_distrib)
  have rs8: "\<forall>(a, n)\<in>set rs. 0 < n \<and> a < 8" using strb_range_lane unfolding rs_def by blast
  have "write_data T pin s t = write_ranges T (wdata pin) ?base (unat (?c mod D_bytes)) rs s1 t"
    unfolding write_data_def Let_def rs_def s1_def by simp
  with write_ranges_safe [OF assms(1) pos base rs8, of "wdata pin" s1] show ?thesis unfolding s1_def by simp
qed

text \<open>Where a beat leaves the address and the count.\<close>

lemma write_advance:
  assumes "write_regs s"
  defines "c \<equiv> w_current_addr s" and "nx \<equiv> next_addr (w_current_addr s) (w_each_len s)"
  shows "unat c < 2 ^ 64 - 2048" "unat nx = unat c + unat (w_each_len s)" "unat (w_cur_trans s + 1) = unat (w_cur_trans s) + 1"
    "unat c + unat (w_each_len s) + (unat (w_nr_trans s) - (unat (w_cur_trans s) + 1)) * unat (w_each_len s)
       \<le> unat (w_start_addr s) + unat (w_nr_trans s) * unat (w_each_len s)"
    "w_cur_trans s + 1 \<noteq> w_nr_trans s \<Longrightarrow>
       nx \<noteq> w_start_addr s + ucast (w_each_len s * w_nr_trans s) \<and> unat (w_cur_trans s) + 1 < unat (w_nr_trans s)"
proof -
  note r = assms(1) [unfolded write_regs_def]
  let ?E = "unat (w_each_len s)" and ?nr = "unat (w_nr_trans s)" and ?ct = "unat (w_cur_trans s)"
  have E: "?E \<in> {1, 2, 4, 8}" "0 < ?E" "?E \<le> 8" using r by auto
  have "?nr * ?E \<le> 256 * 8" using r E(3) by (intro mult_le_mono) auto
  then have NE: "?nr * ?E \<le> 2048" by simp
  have "(?nr - ?ct) * ?E = ?E + (?nr - (?ct + 1)) * ?E" using r by (metis Suc_diff_Suc Suc_eq_plus1 mult_Suc)
  then show room: "unat c + ?E + (?nr - (?ct + 1)) * ?E \<le> unat (w_start_addr s) + ?nr * ?E" using r by (simp add: c_def)
  then show lt: "unat c < 2 ^ 64 - 2048" using r NE E(2) by (simp add: c_def)
  show nx: "unat nx = unat c + ?E" using next_addr_aligned [OF refl E(1), of c] r lt E(3) by (simp add: c_def nx_def)
  show c1: "unat (w_cur_trans s + 1) = ?ct + 1" using r unat_succ32 [of "w_cur_trans s"] by simp
  have "unat (w_each_len s * w_nr_trans s) = ?nr * ?E" using NE by (simp add: unat_word_ariths mult.commute)
  then have top: "unat (w_start_addr s + ucast (w_each_len s * w_nr_trans s)) = unat (w_start_addr s) + ?nr * ?E"
    using r NE by (simp add: unat_word_ariths ucast_u32_u64)
  assume "w_cur_trans s + 1 \<noteq> w_nr_trans s"
  then have more: "?ct + 1 < ?nr" using r c1 unfolding word_unat_eq_iff by simp
  then have "0 < (?nr - (?ct + 1)) * ?E" using E(2) by simp
  then show "nx \<noteq> w_start_addr s + ucast (w_each_len s * w_nr_trans s) \<and> ?ct + 1 < ?nr"
    using more room unfolding word_unat_eq_iff nx top by linarith
qed

lemma write_beat_safe:
  assumes "ok t" "write_regs s"
  shows "case write_beat T pin s t of Inl e \<Rightarrow> e = Assert_fail \<and> wvalid pin \<noteq> 0 \<and> wlast pin = 0
    | Inr (s', t') \<Rightarrow> ok t' \<and> write_ok s' \<and> read_ok s' = read_ok s \<and> read_busy s' = read_busy s \<and> read_wait s' = read_wait s"
proof (cases "wvalid pin \<noteq> 0 \<and> wready pin \<noteq> 0")
  case False
  then show ?thesis using assms by (auto simp: write_beat_def write_ok_def)
next
  case acc: True
  note r = assms(2) [unfolded write_regs_def]
  let ?c = "w_current_addr s"
  define fin where "fin \<longleftrightarrow> w_cur_trans s + 1 = w_nr_trans s"
  show ?thesis
  proof (cases "fin \<and> wlast pin = 0")
    case True
    then have "write_beat T pin s t = Inl Assert_fail" using acc by (simp add: write_beat_def Let_def fin_def)
    then show ?thesis using acc True by simp
  next
    case False
    define s0 where "s0 = s\<lparr>w_cur_trans := w_cur_trans s + 1, write_busy := write_busy s \<and> \<not> fin, b_busy := b_busy s \<or> fin\<rparr>"
    have f0: "w_current_addr s0 = ?c" "w_each_len s0 = w_each_len s" "w_start_addr s0 = w_start_addr s"
        "w_nr_trans s0 = w_nr_trans s" "w_cur_trans s0 = w_cur_trans s + 1" by (simp_all add: s0_def)
    have wb: "write_beat T pin s t = write_data T pin s0 t"
      using write_beat_accept [of pin s T t] acc r False by (auto simp: s0_def fin_def)
    note w = write_advance [OF assms(2)]
    have lt: "unat (w_current_addr s0) < 2 ^ 64 - 2048" using w(1) by (simp add: s0_def)
    obtain b rr t' where d: "write_data T pin s0 t =
        Inr (s0\<lparr>w_current_addr := next_addr ?c (w_each_len s),
             w_cur_trans := (if next_addr ?c (w_each_len s) = w_start_addr s + ucast (w_each_len s * w_nr_trans s)
                             then ucast (w_start_addr s) else w_cur_trans s + 1), w_buffer := b, w_resp := rr\<rparr>, t')" "ok t'"
      using write_data_safe [OF assms(1) lt, of pin] unfolding f0 by blast
    show ?thesis
      using d r wb w(2-5) unfolding write_ok_def write_regs_def read_ok_def read_regs_def by (simp add: s0_def fin_def)
  qed
qed

lemma write_address_safe:
  assumes "slave_ok pin s" "master_pins pin"
  defines "addr \<equiv> \<lambda>new. if new then bindR (write_init pin s) (\<lambda>s. Inr (s\<lparr>write_busy := True\<rparr>)) else Inr s"
  shows "(\<exists>s1. addr new = Inr s1 \<and> write_ok s1 \<and> read_ok s1 \<and> (arready pin \<noteq> 0 \<longrightarrow> \<not> read_busy s1 \<and> \<not> read_wait s1))
      \<or> addr new = Inl Assert_fail \<and> new \<and> \<not> legal_write pin"
proof (cases new)
  case False
  then show ?thesis using assms(1) by (simp add: addr_def slave_ok_def)
next
  case True
  show ?thesis
  proof (cases "write_init pin s")
    case (Inl e)
    then show ?thesis using write_init_check [of pin s] assms(2) True by (simp add: addr_def master_pins_def)
  next
    case (Inr s1)
    note w = write_init_safe [OF assms(2) Inr]
    have "write_ok (s1\<lparr>write_busy := True\<rparr>)" using w(1) by (simp add: write_ok_def write_regs_def)
    then show ?thesis using Inr True assms(1) w(2,3,4) by (simp add: addr_def slave_ok_def)
  qed
qed

lemma write_channel_safe:
  assumes "ok t" "slave_ok pin s" "master_pins pin"
  shows "case write_channel T pin s t of
      Inl e \<Rightarrow> e = Assert_fail \<and> (awready pin \<noteq> 0 \<and> awvalid pin \<noteq> 0 \<and> \<not> legal_write pin \<or> wvalid pin \<noteq> 0 \<and> wlast pin = 0)
    | Inr (pin', s', t') \<Rightarrow> ok t' \<and> slave_ok pin' s'"
proof -
  define new where "new \<longleftrightarrow> awready pin \<noteq> 0 \<and> awvalid pin \<noteq> 0"
  let ?addr = "if new then bindR (write_init pin s) (\<lambda>s. Inr (s\<lparr>write_busy := True\<rparr>)) else Inr s"
  have "(\<exists>s1. ?addr = Inr s1 \<and> write_ok s1 \<and> read_ok s1 \<and> (arready pin \<noteq> 0 \<longrightarrow> \<not> read_busy s1 \<and> \<not> read_wait s1))
      \<or> ?addr = Inl Assert_fail \<and> new \<and> \<not> legal_write pin"
    by (rule write_address_safe [OF assms(2,3)])
  then consider s1 where "?addr = Inr s1" "write_ok s1" "read_ok s1" "arready pin \<noteq> 0 \<longrightarrow> \<not> read_busy s1 \<and> \<not> read_wait s1"
    | "?addr = Inl Assert_fail" "new" "\<not> legal_write pin" by blast
  then show ?thesis
  proof cases
    case 2
    then show ?thesis unfolding write_channel_def new_def by simp
  next
    case 1
    let ?beat = "if write_busy s1 then write_beat T pin s1 t else Inr (s1, t)"
    have wc: "write_channel T pin s t = bindR ?beat (\<lambda>(s, t).
        let (pin, s) = (if b_busy s then b_beat pin s else (pin, s))
        in Inr (pin\<lparr>bvalid := b2w (b_busy s), awready := b2w (\<not> write_busy s \<and> \<not> b_busy s), wready := b2w (\<not> b_busy s)\<rparr>, s, t))"
      using 1(1) unfolding write_channel_def new_def by simp
    show ?thesis
    proof (cases ?beat)
      case (Inl e)
      then have "write_busy s1" "write_beat T pin s1 t = Inl e" by (simp_all split: if_splits)
      then show ?thesis using write_beat_safe [OF assms(1), of s1 pin] 1(2) Inl by (simp add: wc write_ok_def)
    next
      case (Inr st)
      obtain s2 t2 where st: "st = (s2, t2)" by fastforce
      have k: "ok t2" "write_ok s2" "read_ok s2" "arready pin \<noteq> 0 \<longrightarrow> \<not> read_busy s2 \<and> \<not> read_wait s2"
        using write_beat_safe [OF assms(1), of s1 pin] 1 Inr st assms(1) by (auto simp: write_ok_def split: if_splits)
      have "slave_ok (p\<lparr>bvalid := x, awready := y, wready := z\<rparr>) s3"
        if "(if b_busy s2 then b_beat pin s2 else (pin, s2)) = (p, s3)" for p s3 x y z
        using that k(2-4) by (auto simp: b_beat_def slave_ok_def split: if_splits)
      then show ?thesis using k(1) unfolding wc Inr st by (auto simp: Let_def split: prod.splits)
    qed
  qed
qed

lemma beat_safe:
  assumes "ok t" "slave_ok pin s" "master_pins pin"
  shows "case beat T pin s t of
      Inl e \<Rightarrow> e = Assert_fail \<and> refused pin
    | Inr (pin', s', t') \<Rightarrow> ok t' \<and> slave_ok pin' s'"
proof (cases "read_channel T pin s t")
  case (Inl e)
  then show ?thesis using read_channel_safe [OF assms] by (simp add: beat_def refused_def)
next
  case (Inr st)
  obtain pin1 s1 t1 where st: "st = (pin1, s1, t1)" by (metis prod.exhaust)
  have k: "ok t1" "slave_ok pin1 s1" "read_drives pin pin1" using read_channel_safe [OF assms] Inr st by simp_all
  then have m: "master_pins pin1" "legal_write pin1 = legal_write pin" "awready pin1 = awready pin" "awvalid pin1 = awvalid pin"
      "wvalid pin1 = wvalid pin" "wlast pin1 = wlast pin"
    using assms(3) by (auto simp: read_drives_def master_pins_def legal_write_def)
  have "beat T pin s t = write_channel T pin1 s1 t1" by (simp add: beat_def Inr st)
  then show ?thesis using write_channel_safe [OF k(1,2) m(1)] m by (auto simp: refused_def split: sum.splits)
qed

end

section \<open>All reachable states\<close>

text \<open>The simulator's side of a cycle: the master's signals are sampled, the slave works.\<close>

inductive axi_reach :: "'t target \<Rightarrow> ('t \<Rightarrow> bool) \<Rightarrow> axi4 \<times> axi4_slave \<times> 't \<Rightarrow> bool" for T ok where
  reset: "ok t \<Longrightarrow> length (r_data s) = 4096 \<Longrightarrow> axi_reach T ok (axi4_new, slave_new s, t)"
| cycle: "axi_reach T ok (pin, s, t) \<Longrightarrow> master_pins (update_input h r pin)
    \<Longrightarrow> beat T (update_input h r pin) s t = Inr st' \<Longrightarrow> axi_reach T ok st'"

lemma slave_ok_input: "slave_ok pin s \<Longrightarrow> slave_ok (update_input h r pin) s"
  by (simp add: slave_ok_def update_input_def)

context axi_target
begin

lemma reach_ok: "axi_reach T ok st \<Longrightarrow> ok (snd (snd st)) \<and> slave_ok (fst st) (fst (snd st))"
proof (induction rule: axi_reach.induct)
  case (reset t s)
  then show ?case by (simp add: slave_ok_def read_ok_def write_ok_def slave_new_def axi4_new_def)
next
  case (cycle pin s t h r st')
  then have "ok t" "slave_ok (update_input h r pin) s" using slave_ok_input by auto
  from beat_safe [OF this cycle.hyps(2)] cycle.hyps(3) show ?case by (cases st') auto
qed

lemma reach_safe:
  assumes "axi_reach T ok (pin, s, t)" "master_pins (update_input h r pin)"
  shows "case beat T (update_input h r pin) s t of
      Inl e \<Rightarrow> e = Assert_fail \<and> refused (update_input h r pin)
    | Inr (pin', s', t') \<Rightarrow> ok t' \<and> slave_ok pin' s'"
  using beat_safe [OF _ slave_ok_input assms(2)] reach_ok [OF assms(1)] by simp

end

text \<open>
  C6. Type safety of the bus slave. The registers of the slave satisfy their invariant in every state that is
  reachable from reset, for any master with three-bit size signals that stays off the last page of the
  address space and any devices behind the decoder; and a further cycle ends well or stops at one of the
  slave's assertions, which happens only for a burst that is refused (a wrapping or reserved type, a fixed
  write, a size above the bus width, a page crossed) or a data beat without \<open>wlast\<close>. No cycle leaves the
  slave's buffers or a device.
\<close>

theorem axi_slave_type_safe:
  assumes "axi_reach xbar_target xbar_ok (pin, s, x)" "master_pins (update_input h r pin)"
  shows "slave_ok pin s \<and> xbar_ok x \<and>
    (case beat xbar_target (update_input h r pin) s x of
      Inl e \<Rightarrow> e = Assert_fail \<and> refused (update_input h r pin)
    | Inr (pin', s', x') \<Rightarrow> xbar_ok x' \<and> slave_ok pin' s')"
  using xbart.reach_safe [OF assms] xbart.reach_ok [OF assms(1)] by simp

theorem axi_slave_type_safe_witness:
  "slave_ok axi4_new idle_slave \<and>
   (\<exists>st. beat xbar_target (update_input (\<lambda>_. 0) demo_ptr axi4_new) idle_slave (xbar_empty []) = Inr st)"
proof -
  have i: "slave_new idle_slave = idle_slave" "length (r_data idle_slave) = 4096" by (simp_all add: slave_new_def idle_slave_def)
  have "xbar_ok (xbar_empty [])" by (simp add: xbar_ok_def xbar_wf_def xbar_empty_def)
  then have r: "axi_reach xbar_target xbar_ok (axi4_new, idle_slave, xbar_empty [])" using axi_reach.reset [OF _ i(2)] i(1) by metis
  have q: "update_input (\<lambda>_. 0) demo_ptr axi4_new = axi4_new" by (simp add: update_input_def axi4_new_def)
  have m: "master_pins (update_input (\<lambda>_. 0) demo_ptr axi4_new)" unfolding q by (simp add: master_pins_def axi4_new_def)
  from axi_slave_type_safe [OF r m] show ?thesis
    unfolding q by (auto simp: refused_def axi4_new_def split: sum.splits)
qed

end
