(* ===== verification/Axi_Complete.thy ===== *)
theory Axi_Complete
  imports Axi_Safe
begin

text \<open>
  Every read request is answered: an incrementing or fixed burst that the slave accepts is presented beat by
  beat to its end, whatever the devices behind the decoder answer, and any other burst is refused in the cycle
  of the request.
\<close>

section \<open>Counting the beats\<close>

text \<open>\<open>in_burst q k s\<close>: the slave has presented \<open>k\<close> beats of the burst requested by \<open>q\<close>.\<close>

definition in_burst :: "axi4 \<Rightarrow> nat \<Rightarrow> axi4_slave \<Rightarrow> bool" where
  "in_burst q k s \<longleftrightarrow> length (r_data s) = 4096 \<and> s_arid s = arid q \<and> unat (r_cur_trans s) = k
     \<and> unat (r_nr_trans s) = beats (arlen q) \<and> \<not> read_wait s \<and> read_busy s = (k < beats (arlen q))
     \<and> read_last s = (k = beats (arlen q)) \<and> (read_busy s \<longrightarrow> read_regs s)"

definition beat_pins :: "axi4 \<Rightarrow> nat \<Rightarrow> axi4 \<Rightarrow> bool" where
  "beat_pins q k pin \<longleftrightarrow> rvalid pin = 1 \<and> rid pin = arid q \<and> rlast pin = b2w (Suc k = beats (arlen q))"

lemma advance_burst:
  assumes "in_burst q k s" "k < beats (arlen q)"
  shows "unat (r_cur_trans (advance s)) = Suc k" "read_last (advance s) = (Suc k = beats (arlen q))"
    "read_busy (advance s) = (Suc k < beats (arlen q))" "s_arid (advance s) = arid q" "\<not> read_wait (advance s)"
    "unat (r_nr_trans (advance s)) = beats (arlen q)"
proof -
  have r: "read_regs s" "unat (r_cur_trans s) = k" "unat (r_nr_trans s) = beats (arlen q)" "read_busy s" "\<not> read_last s"
    using assms by (auto simp: in_burst_def)
  have c: "unat (r_cur_trans s + 1) = Suc k" using r(1,2) unat_succ32 [of "r_cur_trans s"] by (simp add: read_regs_def)
  then have "r_cur_trans s + 1 = r_nr_trans s \<longleftrightarrow> Suc k = beats (arlen q)" using r(3) by (metis word_unat_eq_iff)
  with c r assms show "unat (r_cur_trans (advance s)) = Suc k" "read_last (advance s) = (Suc k = beats (arlen q))"
    "read_busy (advance s) = (Suc k < beats (arlen q))" "s_arid (advance s) = arid q" "\<not> read_wait (advance s)"
    "unat (r_nr_trans (advance s)) = beats (arlen q)"
    by (auto simp: advance_def in_burst_def)
qed

lemma read_init_regs:
  assumes "read_init T pin s t = Inr (s', t')"
  shows "s_arid s' = arid pin" "r_cur_trans s' = 0" "unat (r_nr_trans s') = beats (arlen pin)"
  using assms by (auto simp: read_init_def read_setup_def Let_def bindR_Inr_iff beats_def unat_nr_trans split: if_splits)

lemma read_init_refused: "master_pins pin \<Longrightarrow> \<not> legal_read pin \<Longrightarrow> read_init T pin s t = Inl Assert_fail"
  using read_setup_check [of pin s] each_len_size [of "arsize pin"]
  by (simp add: read_init_def master_pins_def Let_def read_setup_def)

context axi_target
begin

lemma burst_beat:
  assumes "ok t" "in_burst q k s" "k < beats (arlen q)" "rready pin \<noteq> 0 \<or> k = 0"
  shows "\<exists>pin' s' t'. read_beat T pin s t = Inr (pin', s', t') \<and> ok t' \<and> in_burst q (Suc k) s' \<and> beat_pins q k pin'"
proof -
  note adv = advance_burst [OF assms(2,3)]
  have r: "read_regs s" "length (r_data s) = 4096" "s_arid s = arid q" "unat (r_cur_trans s) = k" using assms(2,3) by (auto simp: in_burst_def)
  have upd: "rready pin \<noteq> 0 \<or> r_cur_trans s = 0" using assms(4) r(4) by (auto simp: unsigned_eq_0_iff)
  show ?thesis
  proof (cases "r_burst_type s = BURST_FIXED")
    case True
    from read_beat_fixed_safe [OF assms(1) r(2,1) upd True] obtain x v d t' where
      b: "read_beat T pin s t = Inr (pin\<lparr>rid := s_arid s, rvalid := 1, rlast := b2w (read_last (advance s)), rresp := x, rdata := v\<rparr>,
            (advance s)\<lparr>r_data := d\<rparr>, t')" "ok t'" "length d = 4096" by blast
    have "read_busy (advance s) \<longrightarrow> read_regs (advance s)"
      using r(1) True advance_more [OF r(1)] by (simp add: read_regs_def advance_def)
    then have "in_burst q (Suc k) ((advance s)\<lparr>r_data := d\<rparr>)" using adv b(3) by (simp add: in_burst_def)
    then show ?thesis unfolding b(1) using b(2) r(3) adv(2) by (simp add: beat_pins_def)
  next
    case False
    let ?s = "(advance s)\<lparr>r_current_addr := next_addr (r_current_addr s) (r_each_len s)\<rparr>"
    from read_beat_incr_safe [OF r(2,1) upd False, of t] obtain x v where
      b: "read_beat T pin s t = Inr (pin\<lparr>rid := s_arid s, rvalid := 1, rlast := b2w (read_last (advance s)), rresp := x, rdata := v\<rparr>, ?s, t)"
        "read_busy (advance s) \<longrightarrow> read_regs ?s" by blast
    have "length (r_data (advance s)) = 4096" using r(2) by (simp add: advance_def)
    then have "in_burst q (Suc k) ?s" using adv b(2) by (simp add: in_burst_def)
    then show ?thesis unfolding b(1) using assms(1) r(3) adv(2) by (simp add: beat_pins_def)
  qed
qed

text \<open>A cycle in the middle of a burst, and the rest of the burst.\<close>

lemma burst_cycle:
  assumes "ok t" "in_burst q k s" "k < beats (arlen q)" "rready pin \<noteq> 0" "arvalid pin = 0"
  shows "\<exists>pin' s' t'. read_channel T pin s t = Inr (pin', s', t') \<and> ok t' \<and> in_burst q (Suc k) s' \<and> beat_pins q k pin'
    \<and> arready pin' = b2w (Suc k = beats (arlen q))"
proof -
  from burst_beat [OF assms(1-3), of pin] assms(4) obtain pin' s' t' where
    b: "read_beat T pin s t = Inr (pin', s', t')" "ok t'" "in_burst q (Suc k) s'" "beat_pins q k pin'" by blast
  have "read_busy s" "\<not> read_last s" using assms(2,3) by (auto simp: in_burst_def)
  then have "read_channel T pin s t = Inr (pin'\<lparr>arready := b2w (\<not> read_busy s' \<and> \<not> read_wait s')\<rparr>, s', t')"
    using b(1) assms(5) by (simp add: read_channel_def)
  moreover have "\<not> read_busy s' \<and> \<not> read_wait s' \<longleftrightarrow> Suc k = beats (arlen q)" using b(3) assms(3) by (auto simp: in_burst_def)
  ultimately show ?thesis using b by (simp add: beat_pins_def)
qed

lemma burst_rest:
  "ok t \<Longrightarrow> in_burst q k s \<Longrightarrow> k + n = beats (arlen q) \<Longrightarrow>
   \<exists>ps s' t'. read_run T (replicate n accept_data) pin s t = Inr (ps, s', t') \<and> ok t' \<and> length ps = n
     \<and> (\<forall>i<n. beat_pins q (k + i) (ps ! i) \<and> arready (ps ! i) = b2w (Suc (k + i) = beats (arlen q)))"
proof (induction n arbitrary: k pin s t)
  case (Suc n)
  have "k < beats (arlen q)" using Suc.prems(3) by simp
  from burst_cycle [OF Suc.prems(1,2) this, of "accept_data pin"]
  obtain pin' s' t' where p: "read_channel T (accept_data pin) s t = Inr (pin', s', t')" "ok t'" "in_burst q (Suc k) s'"
      "beat_pins q k pin'" "arready pin' = b2w (Suc k = beats (arlen q))" by (auto simp: accept_data_def)
  from Suc.IH [OF p(2,3), of pin'] Suc.prems(3)
  obtain ps s'' t'' where r: "read_run T (replicate n accept_data) pin' s' t' = Inr (ps, s'', t'')" "ok t''" "length ps = n"
      "\<forall>i<n. beat_pins q (Suc k + i) (ps ! i) \<and> arready (ps ! i) = b2w (Suc (Suc k + i) = beats (arlen q))" by auto
  have "\<forall>i<Suc n. beat_pins q (k + i) ((pin' # ps) ! i) \<and> arready ((pin' # ps) ! i) = b2w (Suc (k + i) = beats (arlen q))"
    using p(4,5) r(4) by (simp add: All_less_Suc2)
  with p(1) r(1-3) show ?case by auto
qed simp

text \<open>The cycle of the request: the first beat, or the refusal.\<close>

lemma burst_request:
  assumes "ok t" "arready q \<noteq> 0" "arvalid q \<noteq> 0" "read_idle q s" "master_pins q"
  shows "if legal_read q
    then \<exists>pin' s' t'. read_channel T q s t = Inr (pin', s', t') \<and> ok t' \<and> in_burst q 1 s' \<and> beat_pins q 0 pin'
      \<and> arready pin' = b2w (1 = beats (arlen q))
    else read_channel T q s t = Inl Assert_fail"
proof -
  define s0 where "s0 = s\<lparr>read_last := False\<rparr>"
  define q0 where "q0 = (if read_last s then q\<lparr>rvalid := 0, rlast := 0\<rparr> else q)"
  have q0: "arid q0 = arid q" "arlen q0 = arlen q" "arready q0 \<noteq> 0" "arvalid q0 \<noteq> 0" "master_pins q0" "legal_read q0 = legal_read q"
    using assms(2,3,5) by (auto simp: q0_def master_pins_def legal_read_def)
  have s0: "length (r_data s0) = 4096" "\<not> read_last s0" "\<not> read_busy s0" "\<not> read_wait s0" using assms(4) by (auto simp: s0_def read_idle_def)
  have "read_release q s = (q0, s0)"
    using assms(4) by (cases "read_last s") (auto simp: read_release_def read_idle_def q0_def s0_def)
  then have rc: "read_channel T q s t = bindR (read_init T q0 s0 t) (\<lambda>(s, t).
      let s = (if read_last s then s\<lparr>read_wait := True\<rparr> else s\<lparr>read_busy := True\<rparr>) in
      bindR (if read_busy s then read_beat T q0 s t else Inr (q0, s, t)) (\<lambda>(pin, s, t).
        Inr (pin\<lparr>arready := b2w (\<not> read_busy s \<and> \<not> read_wait s)\<rparr>, s, t)))"
    unfolding read_channel_release using q0(3,4) by (cases "read_init T q0 s0 t") (auto simp: Let_def)
  note safe = read_init_safe [OF assms(1) s0(1) q0(5)]
  show ?thesis
  proof (cases "read_init T q0 s0 t")
    case (Inl e)
    then show ?thesis using safe rc q0(6) by simp
  next
    case (Inr st)
    obtain s1 t1 where st: "st = (s1, t1)" by (cases st)
    note i = Inr [unfolded st]
    have k: "ok t1" "length (r_data s1) = 4096" "read_regs s1" "\<not> read_busy s1" "\<not> read_wait s1" "\<not> read_last s1"
      using safe i s0 by simp_all
    have "0 < beats (arlen q)" by (simp add: beats_def)
    then have "in_burst q 0 (s1\<lparr>read_busy := True\<rparr>)" using k read_init_regs [OF i] q0 by (simp add: in_burst_def)
    from burst_beat [OF k(1) this, of q0] obtain pin' s' t' where
      b: "read_beat T q0 (s1\<lparr>read_busy := True\<rparr>) t1 = Inr (pin', s', t')" "ok t'" "in_burst q 1 s'" "beat_pins q 0 pin'"
      using \<open>0 < beats (arlen q)\<close> by auto
    have "\<not> read_busy s' \<and> \<not> read_wait s' \<longleftrightarrow> 1 = beats (arlen q)" using b(3) by (auto simp: in_burst_def beats_def)
    moreover have "legal_read q" using read_init_refused [OF q0(5), of T s0 t] i q0(6) by auto
    ultimately show ?thesis unfolding rc i using b k(6) by (simp add: beat_pins_def)
  qed
qed

lemma burst_answered:
  assumes "ok t" "arready q \<noteq> 0" "arvalid q \<noteq> 0" "read_idle q s" "master_pins q"
  shows "if legal_read q
    then \<exists>ps s' t'. read_run T (id # replicate (beats (arlen q) - 1) accept_data) q s t = Inr (ps, s', t') \<and> ok t'
      \<and> length ps = beats (arlen q) \<and> (\<forall>i<beats (arlen q). beat_pins q i (ps ! i)) \<and> arready (last ps) = 1
    else read_run T (id # replicate (beats (arlen q) - 1) accept_data) q s t = Inl Assert_fail"
proof (cases "legal_read q")
  case False
  then show ?thesis using burst_request [OF assms] by simp
next
  case True
  obtain n where N: "beats (arlen q) = Suc n" by (simp add: beats_def)
  from burst_request [OF assms] True obtain pin s1 t1 where
    p: "read_channel T q s t = Inr (pin, s1, t1)" "ok t1" "in_burst q 1 s1" "beat_pins q 0 pin" "arready pin = b2w (1 = beats (arlen q))"
    by auto
  from burst_rest [OF p(2,3), of n pin] N obtain ps s2 t2 where
    r: "read_run T (replicate n accept_data) pin s1 t1 = Inr (ps, s2, t2)" "ok t2" "length ps = n"
      "\<forall>i<n. beat_pins q (1 + i) (ps ! i) \<and> arready (ps ! i) = b2w (Suc (1 + i) = beats (arlen q))" by auto
  have all: "\<forall>i<Suc n. beat_pins q i ((pin # ps) ! i) \<and> arready ((pin # ps) ! i) = b2w (Suc i = beats (arlen q))"
    using p(4,5) r(4) by (simp add: All_less_Suc2)
  have "last (pin # ps) = (pin # ps) ! n" using r(3) last_conv_nth [of "pin # ps"] by simp
  then have "arready (last (pin # ps)) = 1" using all N by simp
  then show ?thesis using True p(1) r(1-3) all by (auto simp: N)
qed

end

text \<open>
  C23. Every read request is answered, whichever devices the decoder finds behind its addresses and whatever they
  answer. An incrementing burst inside a page, and a fixed burst, of at most the bus width completes: in \<open>arlen + 1\<close>
  cycles, the cycle of the request included, all beats have been presented with the identifier of the request, the
  last one and no other is marked, and the slave takes the next request. Every other burst, a wrapping one
  included, stops at the slave's assertion in the cycle of the request. The master has three-bit size signals,
  is ready for every beat, and stays off the last page of the address space.
\<close>

theorem read_bursts_answered:
  assumes "xbar_ok x" "arready q \<noteq> 0" "arvalid q \<noteq> 0" "read_idle q s" "master_pins q"
  shows "if legal_read q
    then \<exists>ps s' x'. read_run xbar_target (id # replicate (beats (arlen q) - 1) accept_data) q s x = Inr (ps, s', x') \<and> xbar_ok x'
      \<and> length ps = beats (arlen q)
      \<and> (\<forall>i<beats (arlen q). rvalid (ps ! i) = 1 \<and> rid (ps ! i) = arid q \<and> rlast (ps ! i) = b2w (Suc i = beats (arlen q)))
      \<and> arready (last ps) = 1
    else read_run xbar_target (id # replicate (beats (arlen q) - 1) accept_data) q s x = Inl Assert_fail"
  by (rule xbart.burst_answered [OF assms, unfolded beat_pins_def])

theorem read_bursts_answered_witness:
  "(\<exists>ps s' x'. read_run xbar_target (id # replicate 1 accept_data) (demo_read\<lparr>arburst := BURST_FIXED\<rparr>) idle_slave (xbar_empty [])
      = Inr (ps, s', x') \<and> length ps = 2 \<and> arready (last ps) = 1)
   \<and> read_run xbar_target (id # replicate 1 accept_data) (demo_read\<lparr>arburst := BURST_WRAP\<rparr>) idle_slave (xbar_empty []) = Inl Assert_fail"
proof -
  let ?f = "demo_read\<lparr>arburst := BURST_FIXED\<rparr>" and ?w = "demo_read\<lparr>arburst := BURST_WRAP\<rparr>"
  have x: "xbar_ok (xbar_empty [])" by (simp add: xbar_ok_def xbar_wf_def xbar_empty_def)
  have q: "arready ?f \<noteq> 0" "arvalid ?f \<noteq> 0" "read_idle ?f idle_slave" "master_pins ?f"
      "arready ?w \<noteq> 0" "arvalid ?w \<noteq> 0" "read_idle ?w idle_slave" "master_pins ?w"
      "legal_read ?f" "\<not> legal_read ?w" "beats (arlen ?f) = 2" "beats (arlen ?w) = 2"
    by (simp_all add: demo_read_def axi4_new_def read_idle_def idle_slave_def master_pins_def legal_read_def burst_defs beats_def)
  from read_bursts_answered [OF x q(1-4)] read_bursts_answered [OF x q(5-8)] q(9-12) show ?thesis by auto
qed

end
