(* ===== verification/Divider_Tb.thy ===== *)
theory Divider_Tb
  imports C_Lib "HOL-Library.Signed_Division"
begin

text \<open>
  The directed test bench of the divider, \<open>src/tests/custom/divider_drc1_tb.cpp\<close>: its reference results,
  its list of cases with the standard generator \<open>std::mt19937_64\<close>, and the run against a divider.

  The Verilator model of the divider is a parameter (\<open>divider\<close>): how an evaluation with the driven pins
  changes it and what it shows on its outputs.
\<close>

section \<open>Reference results\<close>

record test_case =
  dividend :: u64
  divisor :: u64
  is_signed :: bool
  hold_ready :: bool

definition magnitude :: "u64 \<Rightarrow> u64" where
  "magnitude v = (if drop_bit 63 v \<noteq> 0 then NOT v + 1 else v)"

definition expected_quotient :: "test_case \<Rightarrow> u64" where
  "expected_quotient test =
     (if divisor test = 0 then - 1
      else if \<not> is_signed test then dividend test div divisor test
      else
        let negative = (drop_bit 63 (dividend test XOR divisor test) \<noteq> 0);
            quotient = magnitude (dividend test) div magnitude (divisor test)
        in if negative then NOT quotient + 1 else quotient)"

definition expected_remainder :: "test_case \<Rightarrow> u64" where
  "expected_remainder test =
     (if divisor test = 0 then dividend test
      else if \<not> is_signed test then dividend test mod divisor test
      else
        let remainder = magnitude (dividend test) mod magnitude (divisor test)
        in if drop_bit 63 (dividend test) \<noteq> 0 then NOT remainder + 1 else remainder)"

section \<open>The generator\<close>

text \<open>\<open>std::mt19937_64\<close>: the state is a table of 312 words and an index into it.\<close>

primrec mt_seed :: "nat \<Rightarrow> u64 \<Rightarrow> nat \<Rightarrow> u64 list" where
  "mt_seed 0 x i = []"
| "mt_seed (Suc n) x i = x # mt_seed n (6364136223846793005 * (x XOR drop_bit 62 x) + of_nat i) (Suc i)"

definition mt_twist_at :: "u64 list \<Rightarrow> nat \<Rightarrow> u64 list" where
  "mt_twist_at xs k =
     (let y = (xs ! k AND 0xFFFFFFFF80000000) OR (xs ! ((k + 1) mod 312) AND 0x7FFFFFFF) in
      xs[k := xs ! ((k + 156) mod 312) XOR drop_bit 1 y XOR (if bit y 0 then 0xB5026F5AA96619E9 else 0)])"

definition mt_temper :: "u64 \<Rightarrow> u64" where
  "mt_temper x =
     (let x = x XOR (drop_bit 29 x AND 0x5555555555555555);
          x = x XOR (push_bit 17 x AND 0x71D67FFFEDA60000);
          x = x XOR (push_bit 37 x AND 0xFFF7EEE000000000)
      in x XOR drop_bit 43 x)"

definition mt_next :: "u64 list \<times> nat \<Rightarrow> u64 \<times> u64 list \<times> nat" where
  "mt_next st = (case st of (xs, i) \<Rightarrow>
     let (xs, i) = (if i \<ge> 312 then (foldl mt_twist_at xs [0..<312], 0) else (xs, i))
     in (mt_temper (xs ! i), xs, i + 1))"

definition mt_init :: "u64 \<Rightarrow> u64 list \<times> nat" where
  "mt_init seed = (mt_seed 312 seed 1, 312)"

section \<open>The cases\<close>

definition fixed_values :: "u64 list" where
  "fixed_values = [0, 1, - 1, 2, 3, 7, 11, 0x7fffffffffffffff, 0x8000000000000000, 0xfffffffffffffffb,
     0xfffffffffffffff9, 0xffffffff00000000, 0x00000000ffffffff]"

definition add_fixed_cases :: "test_case list \<Rightarrow> test_case list" where
  "add_fixed_cases tests = tests @
     concat (map (\<lambda>sg. concat (map (\<lambda>a. map (\<lambda>b.
       \<lparr>dividend = a, divisor = b, is_signed = sg, hold_ready = ((a XOR b) AND 7 = 0)\<rparr>) fixed_values) fixed_values)) [False, True]) @
     [\<lparr>dividend = 0x8000000000000000, divisor = - 1, is_signed = True, hold_ready = True\<rparr>,
      \<lparr>dividend = 5, divisor = 11, is_signed = True, hold_ready = True\<rparr>,
      \<lparr>dividend = 11, divisor = 11, is_signed = True, hold_ready = False\<rparr>,
      \<lparr>dividend = 12, divisor = 11, is_signed = True, hold_ready = False\<rparr>]"

primrec random_cases :: "nat \<Rightarrow> nat \<Rightarrow> u64 list \<times> nat \<Rightarrow> test_case list" where
  "random_cases 0 i g = []"
| "random_cases (Suc n) i g =
     (let (a, g) = mt_next g; (b, g) = mt_next g
      in \<lparr>dividend = a, divisor = b, is_signed = (i mod 2 \<noteq> 0), hold_ready = (i mod 31 = 0)\<rparr> # random_cases n (Suc i) g)"

definition tb_cases :: "test_case list" where
  "tb_cases = add_fixed_cases [] @ random_cases 512 0 (mt_init 0x445243315032)"

section \<open>The run\<close>

record div_pins =
  clk :: bool
  rstn :: bool
  i_alu_div_req :: bool
  i_stall :: bool
  rs1 :: u64
  rs2 :: u64
  pin_signed :: bool

text \<open>The Verilator model: evaluation with the pins, and the outputs \<open>o_alu_div_ack\<close>, \<open>div_res\<close>, \<open>div_rem\<close>.\<close>

record 'd divider =
  dv_eval :: "div_pins \<Rightarrow> 'd \<Rightarrow> 'd"
  dv_ack :: "'d \<Rightarrow> bool"
  dv_res :: "'d \<Rightarrow> u64"
  dv_rem :: "'d \<Rightarrow> u64"

text \<open>\<open>clock\<close>: a low and a high evaluation; the pin keeps the high level.\<close>

definition tb_clock :: "'d divider \<Rightarrow> div_pins \<Rightarrow> 'd \<Rightarrow> 'd" where
  "tb_clock D p d = dv_eval D (p\<lparr>clk := True\<rparr>) (dv_eval D (p\<lparr>clk := False\<rparr>) d)"

text \<open>The wait for the acknowledgement, at most 70 clocks from the count \<open>n\<close>.\<close>

function await_ack :: "'d divider \<Rightarrow> div_pins \<Rightarrow> 'd \<Rightarrow> nat \<Rightarrow> 'd \<times> nat" where
  "await_ack D p d n = (if \<not> dv_ack D d \<and> n < 70 then await_ack D p (tb_clock D p d) (n + 1) else (d, n))"
  by pat_completeness auto
termination by (relation "measure (\<lambda>(_, _, _, n). 70 - n)") auto

declare await_ack.simps [simp del]

primrec hold_cycles :: "'d divider \<Rightarrow> div_pins \<Rightarrow> nat \<Rightarrow> 'd \<Rightarrow> 'd option" where
  "hold_cycles D p 0 d = Some d"
| "hold_cycles D p (Suc n) d =
     (let d' = tb_clock D p d in
      if \<not> dv_ack D d' \<or> dv_res D d' \<noteq> dv_res D d \<or> dv_rem D d' \<noteq> dv_rem D d then None else hold_cycles D p n d')"

text \<open>A printed line: the case, the clocks until the acknowledgement, the held clocks and the results.\<close>

record tb_line =
  tl_index :: nat
  tl_test :: test_case
  tl_ack_cycles :: nat
  tl_held :: nat
  tl_quotient :: u64
  tl_remainder :: u64

definition tb_print :: "tb_line \<Rightarrow> string" where
  "tb_print l =
     dec (tl_index l) @ '','' @ (if is_signed (tl_test l) then ''1'' else ''0'') @ '','' @
     hex_pad 16 (unat (dividend (tl_test l))) @ '','' @ hex_pad 16 (unat (divisor (tl_test l))) @ '','' @
     dec (tl_ack_cycles l) @ '','' @ dec (tl_held l) @ '','' @
     hex_pad 16 (unat (tl_quotient l)) @ '','' @ hex_pad 16 (unat (tl_remainder l)) @ nl"

text \<open>The body of the loop: the exit code of a failure with the line printed before it, if any, or the line and
  the divider after it.\<close>

definition tb_step :: "'d divider \<Rightarrow> nat \<Rightarrow> test_case \<Rightarrow> div_pins \<Rightarrow> 'd \<Rightarrow> (nat \<times> tb_line list) + tb_line \<times> div_pins \<times> 'd" where
  "tb_step D i test p0 d0 =
     (let p = p0\<lparr>rs1 := dividend test, rs2 := divisor test, pin_signed := is_signed test, i_alu_div_req := True\<rparr>;
          d = tb_clock D p d0;
          p = p\<lparr>i_alu_div_req := False\<rparr>;
          (d, ack_cycles) = await_ack D p d 0
      in if \<not> dv_ack D d \<or> dv_res D d \<noteq> expected_quotient test \<or> dv_rem D d \<noteq> expected_remainder test then Inl (1, [])
         else
           let held = (if hold_ready test then 3 else 0); p = p\<lparr>i_stall := hold_ready test\<rparr> in
           case hold_cycles D p held d of
             None \<Rightarrow> Inl (2, [])
           | Some d \<Rightarrow>
               let p = p\<lparr>i_stall := False\<rparr>;
                   l = \<lparr>tl_index = i, tl_test = test, tl_ack_cycles = ack_cycles, tl_held = held,
                        tl_quotient = dv_res D d, tl_remainder = dv_rem D d\<rparr>;
                   d = tb_clock D p d
               in if dv_ack D d then Inl (3, [l]) else Inr (l, p, d))"

fun tb_loop :: "'d divider \<Rightarrow> nat \<Rightarrow> test_case list \<Rightarrow> div_pins \<Rightarrow> 'd \<Rightarrow> nat \<times> tb_line list" where
  "tb_loop D i [] p d = (0, [])"
| "tb_loop D i (t # ts) p d =
     (case tb_step D i t p d of
        Inl r \<Rightarrow> r
      | Inr (l, p, d) \<Rightarrow> let (e, ls) = tb_loop D (Suc i) ts p d in (e, l # ls))"

definition tb_reset_pins :: div_pins where
  "tb_reset_pins = \<lparr>clk = False, rstn = False, i_alu_div_req = False, i_stall = False, rs1 = 0, rs2 = 0, pin_signed = False\<rparr>"

definition tb_main :: "'d divider \<Rightarrow> 'd \<Rightarrow> nat \<times> tb_line list" where
  "tb_main D d0 =
     (let d = (tb_clock D tb_reset_pins ^^ 3) d0
      in tb_loop D 0 tb_cases (tb_reset_pins\<lparr>rstn := True\<rparr>) d)"

section \<open>The reference results are those of the instruction set\<close>

text \<open>
  DIV, DIVU, REM and REMU of the M extension: division by zero gives all ones and the dividend, and the
  signed operations round toward zero; \<open>- 2\<^sup>6\<^sup>3\<close> divided by -1 overflows to itself.
\<close>

definition isa_quotient :: "bool \<Rightarrow> u64 \<Rightarrow> u64 \<Rightarrow> u64" where
  "isa_quotient sg a b =
     (if b = 0 then - 1 else if sg then word_of_int (sint a sdiv sint b) else word_of_int (uint a div uint b))"

definition isa_remainder :: "bool \<Rightarrow> u64 \<Rightarrow> u64 \<Rightarrow> u64" where
  "isa_remainder sg a b =
     (if b = 0 then a else if sg then word_of_int (sint a smod sint b) else word_of_int (uint a mod uint b))"

lemma top_bit: "drop_bit 63 (v :: u64) \<noteq> 0 \<longleftrightarrow> bit v 63"
proof -
  have "drop_bit 63 v = 0" if "\<not> bit v 63"
  proof (rule bit_word_eqI)
    fix n
    have "\<not> bit v (63 + n)" using that bit_imp_le_length [of v "63 + n"] by (cases n) auto
    then show "bit (drop_bit 63 v) n = bit (0 :: u64) n" by (simp add: bit_simps)
  qed
  moreover have "bit (drop_bit 63 v) 0 = bit v 63" by (simp add: bit_simps)
  ultimately show ?thesis by (metis bit_0_eq bot_apply bot_bool_def)
qed

lemma top_bit_sign: "drop_bit 63 (v :: u64) \<noteq> 0 \<longleftrightarrow> sint v < 0"
  by (simp add: top_bit sint_uint signed_take_bit_negative_iff bit_uint_iff)

lemma twos_complement: "NOT (v :: u64) + 1 = - v"
  by (simp add: minus_eq_not_plus_1)

lemma uint_magnitude: "uint (magnitude v) = \<bar>sint v\<bar>"
proof -
  have b: "- (2 ^ 63) \<le> sint v" "sint v < 2 ^ 63" using sint_greater_eq [of v] sint_lt [of v] by simp_all
  have u: "uint v = sint v mod 2 ^ 64" by (simp add: uint_sint take_bit_eq_mod)
  show ?thesis
  proof (cases "sint v < 0")
    case True
    have "uint (- v) = (- uint v) mod 2 ^ 64" by (simp add: uint_word_ariths)
    also have "\<dots> = (- sint v) mod 2 ^ 64" unfolding u by (simp add: mod_minus_eq)
    also have "\<dots> = - sint v" using b True by (simp add: mod_pos_pos_trivial)
    finally show ?thesis using True by (simp add: magnitude_def top_bit_sign twos_complement)
  next
    case False
    then have "uint v = sint v" unfolding u using b by (simp add: mod_pos_pos_trivial)
    with False show ?thesis by (simp add: magnitude_def top_bit_sign)
  qed
qed

lemma top_bit_xor: "drop_bit 63 (a XOR b :: u64) \<noteq> 0 \<longleftrightarrow> (sint a < 0) \<noteq> (sint b < 0)"
proof -
  have "drop_bit 63 (a XOR b) \<noteq> 0 \<longleftrightarrow> bit a 63 \<noteq> bit b 63" unfolding top_bit by (simp add: bit_xor_iff)
  then show ?thesis by (simp add: top_bit [symmetric] top_bit_sign)
qed

lemma word_of_uint: "uint w = k \<Longrightarrow> w = word_of_int k"
  by (metis word_of_int_uint)

lemma abs_quotient: "magnitude a div magnitude b = word_of_int (\<bar>sint a\<bar> div \<bar>sint b\<bar>)"
  by (rule word_of_uint) (simp add: uint_div_distrib uint_magnitude)

lemma abs_remainder: "magnitude a mod magnitude b = word_of_int (\<bar>sint a\<bar> mod \<bar>sint b\<bar>)"
  by (rule word_of_uint) (simp add: uint_mod_distrib uint_magnitude)

lemma expected_quotient_isa: "expected_quotient t = isa_quotient (is_signed t) (dividend t) (divisor t)"
proof (cases "divisor t = 0 \<or> \<not> is_signed t")
  case True
  then show ?thesis
    by (auto simp: expected_quotient_def isa_quotient_def uint_div_distrib intro: word_of_uint)
next
  case False
  let ?a = "sint (dividend t)" and ?b = "sint (divisor t)"
  have "?b \<noteq> 0" using False by (simp add: signed_eq_0_iff)
  then have "?a sdiv ?b = (if (?a < 0) \<noteq> (?b < 0) then - (\<bar>?a\<bar> div \<bar>?b\<bar>) else \<bar>?a\<bar> div \<bar>?b\<bar>)"
    by (auto simp: signed_divide_int_def sgn_if)
  with False show ?thesis
    unfolding expected_quotient_def isa_quotient_def Let_def top_bit_xor twos_complement abs_quotient by simp
qed

lemma expected_remainder_isa: "expected_remainder t = isa_remainder (is_signed t) (dividend t) (divisor t)"
proof (cases "divisor t = 0 \<or> \<not> is_signed t")
  case True
  then show ?thesis
    by (auto simp: expected_remainder_def isa_remainder_def uint_mod_distrib intro: word_of_uint)
next
  case False
  let ?a = "sint (dividend t)" and ?b = "sint (divisor t)"
  have "?a smod ?b = (if ?a < 0 then - (\<bar>?a\<bar> mod \<bar>?b\<bar>) else \<bar>?a\<bar> mod \<bar>?b\<bar>)"
    by (auto simp: signed_modulo_int_def sgn_if)
  with False show ?thesis
    unfolding expected_remainder_def isa_remainder_def Let_def top_bit_sign twos_complement abs_remainder by simp
qed

text \<open>
  C25. The results the test bench expects are those of the instruction set for every pair of operands,
  signed and unsigned, with division by zero and the signed overflow included.
\<close>

theorem divider_reference_is_isa:
  "expected_quotient t = isa_quotient (is_signed t) (dividend t) (divisor t)
   \<and> expected_remainder t = isa_remainder (is_signed t) (dividend t) (divisor t)"
  by (intro conjI expected_quotient_isa expected_remainder_isa)

section \<open>What a passing run shows\<close>

text \<open>
  What a case asks of a divider, without reference to the bench: the pins for the case, the operands driven
  with the request and the stall; the \<open>j\<close>-th state of the wait, after the clock of the request and \<open>j\<close> more; and
  the \<open>j\<close>-th state in which the answer is held.
\<close>

definition drive :: "test_case \<Rightarrow> bool \<Rightarrow> bool \<Rightarrow> div_pins" where
  "drive t req stall = \<lparr>clk = False, rstn = True, i_alu_div_req = req, i_stall = stall, rs1 = dividend t,
     rs2 = divisor t, pin_signed = is_signed t\<rparr>"

primrec after :: "'d divider \<Rightarrow> div_pins \<Rightarrow> nat \<Rightarrow> 'd \<Rightarrow> 'd" where
  "after D p 0 d = d"
| "after D p (Suc n) d = after D p n (tb_clock D p d)"

definition waiting :: "'d divider \<Rightarrow> test_case \<Rightarrow> 'd \<Rightarrow> nat \<Rightarrow> 'd" where
  "waiting D t d j = after D (drive t False False) j (tb_clock D (drive t True False) d)"

definition holding :: "'d divider \<Rightarrow> test_case \<Rightarrow> 'd \<Rightarrow> nat \<Rightarrow> 'd" where
  "holding D t d j = after D (drive t False True) j d"

definition held_clocks :: "test_case \<Rightarrow> nat" where
  "held_clocks t = (if hold_ready t then 3 else 0)"

definition gives_result :: "'d divider \<Rightarrow> test_case \<Rightarrow> 'd \<Rightarrow> bool" where
  "gives_result D t d \<longleftrightarrow> dv_ack D d \<and> dv_res D d = isa_quotient (is_signed t) (dividend t) (divisor t)
     \<and> dv_rem D d = isa_remainder (is_signed t) (dividend t) (divisor t)"

text \<open>
  \<open>answers D t d k d'\<close>: the acknowledgement comes first after \<open>k\<close> clocks of waiting, at most 70, with the results of
  the instruction set; these stay as long as the answer is held; one clock later it is withdrawn, in \<open>d'\<close>.
  \<open>serves\<close> chains the cases, with the clocks each of them took.
\<close>

definition answers :: "'d divider \<Rightarrow> test_case \<Rightarrow> 'd \<Rightarrow> nat \<Rightarrow> 'd \<Rightarrow> bool" where
  "answers D t d k d' \<longleftrightarrow> k \<le> 70 \<and> (\<forall>j<k. \<not> dv_ack D (waiting D t d j))
     \<and> (\<forall>j\<le>held_clocks t. gives_result D t (holding D t (waiting D t d k) j))
     \<and> d' = tb_clock D (drive t False False) (holding D t (waiting D t d k) (held_clocks t)) \<and> \<not> dv_ack D d'"

inductive serves :: "'d divider \<Rightarrow> 'd \<Rightarrow> test_case list \<Rightarrow> nat list \<Rightarrow> bool" for D where
  serves_none: "serves D d [] []"
| serves_case: "answers D t d k d' \<Longrightarrow> serves D d' ts ks \<Longrightarrow> serves D d (t # ts) (k # ks)"

inductive_simps serves_none_iff [simp]: "serves D d [] ks"
inductive_simps serves_case_iff: "serves D d (t # ts) ks"

definition passed_line :: "nat \<Rightarrow> test_case \<Rightarrow> nat \<Rightarrow> tb_line" where
  "passed_line i t k = \<lparr>tl_index = i, tl_test = t, tl_ack_cycles = k, tl_held = held_clocks t,
     tl_quotient = isa_quotient (is_signed t) (dividend t) (divisor t),
     tl_remainder = isa_remainder (is_signed t) (dividend t) (divisor t)\<rparr>"

text \<open>The waiting loop stops at the first acknowledgement, or after 70 clocks.\<close>

lemma await_ack_iff:
  "n \<le> 70 \<Longrightarrow> await_ack D p d n = (d', k) \<and> dv_ack D d' \<longleftrightarrow>
     n \<le> k \<and> k \<le> 70 \<and> d' = after D p (k - n) d \<and> dv_ack D d' \<and> (\<forall>j<k - n. \<not> dv_ack D (after D p j d))"
proof (induction D p d n rule: await_ack.induct)
  case (1 D p d n)
  show ?case
  proof (cases "\<not> dv_ack D d \<and> n < 70")
    case True
    have e: "await_ack D p d n = await_ack D p (tb_clock D p d) (n + 1)" using True by (subst await_ack.simps) simp
    show ?thesis
    proof (cases "n + 1 \<le> k")
      case le: True
      then have "k - n = Suc (k - (n + 1))" by simp
      with 1(1) [OF True] True le show ?thesis unfolding e by (simp add: All_less_Suc2)
    next
      case False
      then have "k - n = 0" by simp
      with 1(1) [OF True] True False show ?thesis unfolding e by auto
    qed
  next
    case False
    then have e: "await_ack D p d n = (d, n)" by (subst await_ack.simps) auto
    show ?thesis unfolding e using False 1(2) by (cases "k - n") (auto simp: All_less_Suc2)
  qed
qed

lemma hold_cycles_iff:
  "hold_cycles D p n d = Some d' \<longleftrightarrow> d' = after D p n d \<and>
     (\<forall>j<n. let e = after D p (Suc j) d in dv_ack D e \<and> dv_res D e = dv_res D d \<and> dv_rem D e = dv_rem D d)"
proof (induction n arbitrary: d)
  case (Suc n)
  have "hold_cycles D p (Suc n) d = Some d' \<longleftrightarrow>
      (let e = tb_clock D p d in dv_ack D e \<and> dv_res D e = dv_res D d \<and> dv_rem D e = dv_rem D d)
      \<and> hold_cycles D p n (tb_clock D p d) = Some d'" by (auto simp: Let_def)
  then show ?case unfolding Suc.IH by (auto simp: Let_def All_less_Suc2)
qed auto

lemma drive_update:
  "(drive t0 r h)\<lparr>rs1 := dividend t, rs2 := divisor t, pin_signed := is_signed t, i_alu_div_req := q\<rparr> = drive t q h"
  "(drive t r h)\<lparr>i_alu_div_req := q\<rparr> = drive t q h" "(drive t r h)\<lparr>i_stall := g\<rparr> = drive t r g"
  by (simp_all add: drive_def)

text \<open>The results in every held state are those of the acknowledgement, so comparing with them is enough.\<close>

lemma holding_results:
  assumes "gives_result D t d"
  shows "hold_cycles D (drive t False (hold_ready t)) (held_clocks t) d = Some d' \<longleftrightarrow>
    d' = holding D t d (held_clocks t) \<and> (\<forall>j\<le>held_clocks t. gives_result D t (holding D t d j))"
proof (cases "hold_ready t")
  case True
  have "(\<forall>j\<le>3. gives_result D t (holding D t d j)) \<longleftrightarrow> (\<forall>j<3. gives_result D t (holding D t d (Suc j)))"
    using assms All_less_Suc2 [of 3 "\<lambda>j. gives_result D t (holding D t d j)"] unfolding less_Suc_eq_le
    by (simp add: holding_def)
  with True assms show ?thesis unfolding hold_cycles_iff
    by (auto simp: held_clocks_def holding_def gives_result_def Let_def)
next
  case False
  with assms show ?thesis by (auto simp: held_clocks_def holding_def)
qed

lemma tb_step_iff:
  "tb_step D i t (drive t0 False False) d = Inr (l, p', d') \<longleftrightarrow>
     p' = drive t False False \<and> (\<exists>k. l = passed_line i t k \<and> answers D t d k d')"
proof -
  obtain e k where w: "await_ack D (drive t False False) (tb_clock D (drive t True False) d) 0 = (e, k)" by fastforce
  have k: "(e = waiting D t d k' \<and> dv_ack D e \<and> k' \<le> 70 \<and> (\<forall>j<k'. \<not> dv_ack D (waiting D t d j))) \<longleftrightarrow> dv_ack D e \<and> k' = k" for k'
    using await_ack_iff [of 0 D "drive t False False" "tb_clock D (drive t True False) d" e k'] w by (auto simp: waiting_def)
  have s: "tb_step D i t (drive t0 False False) d = Inr (l, p', d') \<longleftrightarrow>
      gives_result D t e \<and> (\<exists>h. hold_cycles D (drive t False (hold_ready t)) (held_clocks t) e = Some h
        \<and> l = \<lparr>tl_index = i, tl_test = t, tl_ack_cycles = k, tl_held = held_clocks t, tl_quotient = dv_res D h, tl_remainder = dv_rem D h\<rparr>
        \<and> p' = drive t False False \<and> d' = tb_clock D (drive t False False) h \<and> \<not> dv_ack D d')"
    by (auto simp: tb_step_def Let_def drive_update w gives_result_def held_clocks_def expected_quotient_isa
        expected_remainder_isa split: option.splits if_splits)
  show ?thesis
  proof
    assume "tb_step D i t (drive t0 False False) d = Inr (l, p', d')"
    then obtain h where h: "gives_result D t e" "hold_cycles D (drive t False (hold_ready t)) (held_clocks t) e = Some h"
        "l = \<lparr>tl_index = i, tl_test = t, tl_ack_cycles = k, tl_held = held_clocks t, tl_quotient = dv_res D h, tl_remainder = dv_rem D h\<rparr>"
        "p' = drive t False False" "d' = tb_clock D (drive t False False) h" "\<not> dv_ack D d'" unfolding s by blast
    from h(1) k [of k] have "e = waiting D t d k" "k \<le> 70" "\<forall>j<k. \<not> dv_ack D (waiting D t d j)" by (auto simp: gives_result_def)
    with h holding_results [OF h(1), of h] show "p' = drive t False False \<and> (\<exists>k. l = passed_line i t k \<and> answers D t d k d')"
      by (auto simp: answers_def passed_line_def gives_result_def)
  next
    assume "p' = drive t False False \<and> (\<exists>k. l = passed_line i t k \<and> answers D t d k d')"
    then obtain k' where r: "p' = drive t False False" "l = passed_line i t k'" "answers D t d k' d'" by blast
    let ?e = "waiting D t d k'"
    have g: "gives_result D t (holding D t ?e 0)" using r(3) unfolding answers_def by blast
    then have g0: "gives_result D t ?e" by (simp add: holding_def)
    have e: "e = ?e" "k' = k"
      using await_ack_iff [of 0 D "drive t False False" "tb_clock D (drive t True False) d" ?e k'] w g0 r(3)
      by (auto simp: answers_def gives_result_def waiting_def)
    let ?h = "holding D t e (held_clocks t)"
    have "gives_result D t ?h" using r(3) unfolding answers_def e by blast
    with r e g0 holding_results [of D t e ?h] show "tb_step D i t (drive t0 False False) d = Inr (l, p', d')" unfolding s
      by (auto simp: answers_def passed_line_def gives_result_def)
  qed
qed

lemma tb_step_code: "tb_step D i t p d = Inl (e, ls) \<Longrightarrow> e \<noteq> 0"
  by (auto simp: tb_step_def Let_def split: if_splits option.splits prod.splits)

lemma tb_loop_iff:
  "tb_loop D i ts (drive t0 False False) d = (0, ls) \<longleftrightarrow>
     (\<exists>ks. serves D d ts ks \<and> ls = map (\<lambda>(j, t, k). passed_line j t k) (zip [i..<i + length ts] (zip ts ks)))"
proof (induction ts arbitrary: i t0 d ls)
  case (Cons t ts)
  show ?case
  proof (cases "tb_step D i t (drive t0 False False) d")
    case (Inl r)
    then have "tb_loop D i (t # ts) (drive t0 False False) d \<noteq> (0, ls)" using tb_step_code by (cases r) fastforce
    moreover have "\<not> answers D t d k d'" for k d' using Inl tb_step_iff [of D i t t0 d] by force
    ultimately show ?thesis by (auto simp: serves_case_iff)
  next
    case (Inr q)
    obtain l p' d' where q: "q = (l, p', d')" by (cases q)
    obtain k where p: "p' = drive t False False" "l = passed_line i t k" "answers D t d k d'"
      using Inr tb_step_iff [of D i t t0 d l p' d'] by (auto simp: q)
    have u: "answers D t d k1 d1 \<longleftrightarrow> k1 = k \<and> d1 = d'" for k1 d1
      using Inr q p tb_step_iff [of D i t t0 d "passed_line i t k1" "drive t False False" d1] by (auto simp: passed_line_def)
    have "tb_loop D i (t # ts) (drive t0 False False) d = (0, ls) \<longleftrightarrow>
        (\<exists>ls'. tb_loop D (Suc i) ts (drive t False False) d' = (0, ls') \<and> ls = l # ls')"
      using Inr q p(1) by (auto split: prod.splits)
    then show ?thesis unfolding Cons.IH serves_case_iff u by (auto simp: p(2) upt_conv_Cons simp del: upt_Suc)
  qed
qed auto

text \<open>
  C26. The test bench accepts a divider exactly when it serves every case, one after the other: after the
  request the acknowledgement comes within 70 clocks, with the quotient and the remainder of the instruction
  set; for a case that is held the acknowledgement and both results stay for three stalled clocks; and one
  clock after the release the acknowledgement is gone. The lines printed are those of the cases, each with the
  number of clocks the acknowledgement took.
\<close>

theorem divider_tb_exact:
  "tb_main D d0 = (0, ls) \<longleftrightarrow>
     (\<exists>ks. serves D ((tb_clock D tb_reset_pins ^^ 3) d0) tb_cases ks
        \<and> ls = map (\<lambda>(i, t, k). passed_line i t k) (zip [0..<length tb_cases] (zip tb_cases ks)))"
proof -
  have "tb_reset_pins\<lparr>rstn := True\<rparr> = drive \<lparr>dividend = 0, divisor = 0, is_signed = False, hold_ready = False\<rparr> False False"
    by (simp add: tb_reset_pins_def drive_def)
  then show ?thesis by (simp add: tb_main_def tb_loop_iff del: funpow.simps)
qed

text \<open>A divider that answers at once: its state is the acknowledgement with the results.\<close>

definition ideal_divider :: "(bool \<times> u64 \<times> u64) divider" where
  "ideal_divider = \<lparr>dv_eval = (\<lambda>p d. if \<not> clk p then d
       else if i_alu_div_req p then (True, isa_quotient (pin_signed p) (rs1 p) (rs2 p), isa_remainder (pin_signed p) (rs1 p) (rs2 p))
       else if i_stall p then d else (False, snd d)),
     dv_ack = fst, dv_res = fst \<circ> snd, dv_rem = snd \<circ> snd\<rparr>"

lemma ideal_simps:
  "dv_ack ideal_divider d = fst d" "dv_res ideal_divider d = fst (snd d)" "dv_rem ideal_divider d = snd (snd d)"
  "tb_clock ideal_divider p d =
     (if i_alu_div_req p then (True, isa_quotient (pin_signed p) (rs1 p) (rs2 p), isa_remainder (pin_signed p) (rs1 p) (rs2 p))
      else if i_stall p then d else (False, snd d))"
  by (simp_all add: ideal_divider_def tb_clock_def)

lemma ideal_answers: "\<exists>d'. answers ideal_divider t d 0 d'"
proof -
  have "holding ideal_divider t (True, r) j = (True, r)" for r j
    by (induction j) (simp_all add: holding_def ideal_simps drive_def)
  then show ?thesis by (simp add: answers_def waiting_def gives_result_def ideal_simps drive_def)
qed

lemma ideal_serves: "\<exists>ks. serves ideal_divider d ts ks"
proof (induction ts arbitrary: d)
  case (Cons t ts)
  obtain d' where "answers ideal_divider t d 0 d'" using ideal_answers by blast
  with Cons.IH [of d'] show ?case by (blast intro: serves_case)
qed (blast intro: serves_none)

theorem divider_tb_exact_witness:
  "\<exists>ls. tb_main ideal_divider (False, 0, 0) = (0, ls)"
  using divider_tb_exact [of ideal_divider "(False, 0, 0)"] ideal_serves by blast

end
