(* ===== verification/Intr_Tb.thy ===== *)
theory Intr_Tb
  imports C_Lib
begin

text \<open>
  The test bench of the interrupt unit, \<open>src/tests/custom/intr_directed_tb.cpp\<close>. The Verilator model of
  the unit with its directed stimulus is a parameter (\<open>intr_dut\<close>): what an evaluation with a level of the
  clock does, and the outputs.
\<close>

record intr_out =
  i_done :: bool
  i_fail :: bool
  i_failed_state :: u8
  i_observed :: u64
  mret_check_phase :: bool
  mret_check_flush_en :: bool
  mret_check_flush_addr :: u64

record 'd intr_dut =
  i_eval :: "bool \<Rightarrow> 'd \<Rightarrow> 'd"
  i_out :: "'d \<Rightarrow> intr_out"

record intr_vars =
  checked_mret :: bool
  failed_mret :: bool
  mret_addr :: u64
  mret_en :: bool

text \<open>Two evaluations at a level of the clock.\<close>

definition settle :: "'d intr_dut \<Rightarrow> bool \<Rightarrow> 'd \<Rightarrow> 'd" where
  "settle D clk d = i_eval D clk (i_eval D clk d)"

definition check_mret :: "intr_out \<Rightarrow> intr_vars" where
  "check_mret out = \<lparr>checked_mret = True,
     failed_mret = (\<not> mret_check_flush_en out \<or> mret_check_flush_addr out \<noteq> 0x80000203),
     mret_addr = mret_check_flush_addr out, mret_en = mret_check_flush_en out\<rparr>"

text \<open>The loop with the number of cycles that are left.\<close>

primrec intr_loop :: "'d intr_dut \<Rightarrow> nat \<Rightarrow> intr_vars \<Rightarrow> 'd \<Rightarrow> intr_vars \<times> 'd" where
  "intr_loop D 0 v d = (v, d)"
| "intr_loop D (Suc n) v d =
     (if i_done (i_out D d) then (v, d)
      else
        let d = settle D False d;
            v = (if mret_check_phase (i_out D d) then check_mret (i_out D d) else v)
        in if mret_check_phase (i_out D d) \<and> failed_mret v then (v, d)
           else intr_loop D n v (settle D True d))"

definition intr_message :: "intr_out \<Rightarrow> intr_vars \<Rightarrow> string" where
  "intr_message out v =
     ''intr_directed failed: done='' @ dec (of_bool (i_done out)) @ '' fail='' @ dec (of_bool (i_fail out)) @
     '' state='' @ dec (unat (i_failed_state out)) @ '' observed=0x'' @ hex_pad 16 (unat (i_observed out)) @
     '' checked_mret='' @ dec (of_bool (checked_mret v)) @ '' failed_mret='' @ dec (of_bool (failed_mret v)) @
     '' mret_en='' @ dec (of_bool (mret_en v)) @ '' mret_addr=0x'' @ hex_pad 16 (unat (mret_addr v)) @ nl"

definition intr_passed :: "intr_out \<Rightarrow> intr_vars \<Rightarrow> bool" where
  "intr_passed out v \<longleftrightarrow> i_done out \<and> \<not> i_fail out \<and> checked_mret v \<and> \<not> failed_mret v"

definition intr_main :: "'d intr_dut \<Rightarrow> 'd \<Rightarrow> int \<times> string" where
  "intr_main D d =
     (let (v, d) = intr_loop D 512 \<lparr>checked_mret = False, failed_mret = False, mret_addr = 0, mret_en = False\<rparr> d
      in if intr_passed (i_out D d) v then (0, []) else (1, intr_message (i_out D d) v))"

section \<open>What a verdict means\<close>

text \<open>A cycle, and the outputs that are sampled in it.\<close>

definition intr_cycle :: "'d intr_dut \<Rightarrow> 'd \<Rightarrow> 'd" where
  "intr_cycle D d = settle D True (settle D False d)"

definition sampled :: "'d intr_dut \<Rightarrow> nat \<Rightarrow> 'd \<Rightarrow> intr_out" where
  "sampled D i d = i_out D (settle D False ((intr_cycle D ^^ i) d))"

definition mret_ok :: "intr_out \<Rightarrow> bool" where
  "mret_ok out \<longleftrightarrow> (mret_check_phase out \<longrightarrow> mret_check_flush_en out \<and> mret_check_flush_addr out = 0x80000203)"

definition good_run :: "'d intr_dut \<Rightarrow> nat \<Rightarrow> bool \<Rightarrow> 'd \<Rightarrow> bool" where
  "good_run D m ck d \<longleftrightarrow>
     i_done (i_out D ((intr_cycle D ^^ m) d)) \<and> \<not> i_fail (i_out D ((intr_cycle D ^^ m) d))
     \<and> (\<forall>i<m. \<not> i_done (i_out D ((intr_cycle D ^^ i) d)) \<and> mret_ok (sampled D i d))
     \<and> (ck \<or> (\<exists>i<m. mret_check_phase (sampled D i d)))"

lemma sampled_Suc: "sampled D (Suc i) d = sampled D i (intr_cycle D d)"
  by (simp add: sampled_def funpow_swap1)

lemma good_run_0: "good_run D 0 ck d \<longleftrightarrow> i_done (i_out D d) \<and> \<not> i_fail (i_out D d) \<and> ck"
  by (simp add: good_run_def)

lemma good_run_Suc:
  "good_run D (Suc m) ck d \<longleftrightarrow> \<not> i_done (i_out D d) \<and> mret_ok (sampled D 0 d)
     \<and> good_run D m (ck \<or> mret_check_phase (sampled D 0 d)) (intr_cycle D d)"
  unfolding good_run_def All_less_Suc2 Ex_less_Suc2 sampled_Suc funpow.simps(2) o_apply funpow_swap1
  by auto

lemma intr_loop_verdict:
  "\<not> failed_mret v \<Longrightarrow>
   (case intr_loop D n v d of (v', d') \<Rightarrow> intr_passed (i_out D d') v') \<longleftrightarrow> (\<exists>m\<le>n. good_run D m (checked_mret v) d)"
proof (induction n arbitrary: v d)
  case 0
  then show ?case by (auto simp: good_run_0 intr_passed_def)
next
  case (Suc n)
  have split: "(\<exists>m\<le>Suc n. good_run D m ck d) \<longleftrightarrow> good_run D 0 ck d \<or> (\<exists>m\<le>n. good_run D (Suc m) ck d)" for ck
    by (metis Suc_le_mono le0 not0_implies_Suc)
  let ?l = "settle D False d" and ?out = "sampled D 0 d"
  have out: "i_out D ?l = ?out" by (simp add: sampled_def)
  show ?case
  proof (cases "i_done (i_out D d)")
    case True
    then show ?thesis using Suc.prems by (simp add: split good_run_0 good_run_Suc intr_passed_def)
  next
    case nd: False
    show ?thesis
    proof (cases "mret_check_phase ?out")
      case True
      then show ?thesis
        using nd Suc.IH [of "check_mret ?out" "settle D True ?l"]
        by (auto simp: split good_run_0 good_run_Suc intr_passed_def out Let_def check_mret_def mret_ok_def intr_cycle_def)
    next
      case False
      then show ?thesis
        using nd Suc.IH [of v "settle D True ?l"] Suc.prems
        by (simp add: split good_run_0 good_run_Suc out Let_def mret_ok_def intr_cycle_def)
    qed
  qed
qed

text \<open>
  C37. The test bench of the interrupt unit returns 0 exactly when the unit reports completion without a
  failure within 512 cycles, a return from the interrupt was seen, and at each one seen the pipeline was
  redirected to the saved address; in every other case it returns 1 with a message.
\<close>

theorem intr_verdict_exact:
  "(fst (intr_main D d) = 0 \<longleftrightarrow>
     (\<exists>m\<le>512. i_done (i_out D ((intr_cycle D ^^ m) d)) \<and> \<not> i_fail (i_out D ((intr_cycle D ^^ m) d))
        \<and> (\<forall>i<m. \<not> i_done (i_out D ((intr_cycle D ^^ i) d)) \<and> mret_ok (sampled D i d))
        \<and> (\<exists>i<m. mret_check_phase (sampled D i d))))
   \<and> fst (intr_main D d) \<in> {0, 1} \<and> (fst (intr_main D d) = 0 \<longleftrightarrow> snd (intr_main D d) = [])"
proof -
  let ?v = "\<lparr>checked_mret = False, failed_mret = False, mret_addr = 0, mret_en = False\<rparr>"
  obtain v' d' where l: "intr_loop D 512 ?v d = (v', d')" by fastforce
  have m: "intr_main D d = (if intr_passed (i_out D d') v' then (0, []) else (1, intr_message (i_out D d') v'))"
    by (simp add: intr_main_def l)
  have "intr_passed (i_out D d') v' \<longleftrightarrow> (\<exists>m\<le>512. good_run D m False d)"
    using intr_loop_verdict [of ?v D 512 d] l by simp
  moreover have "intr_message (i_out D d') v' \<noteq> []" by (simp add: intr_message_def)
  ultimately show ?thesis by (auto simp: m good_run_def)
qed

text \<open>A unit that returns from the interrupt in its first cycle and is done after it.\<close>

definition mret_dut :: "nat intr_dut" where
  "mret_dut = \<lparr>i_eval = (\<lambda>_ d. Suc d), i_out = (\<lambda>d. \<lparr>i_done = (d \<ge> 4), i_fail = False, i_failed_state = 0, i_observed = 0,
     mret_check_phase = (d = 2), mret_check_flush_en = True, mret_check_flush_addr = 0x80000203\<rparr>)\<rparr>"

theorem intr_verdict_exact_witness: "intr_main mret_dut 0 = (0, [])"
proof -
  have c: "intr_cycle mret_dut 0 = 4" "settle mret_dut False 0 = 2" by (simp_all add: intr_cycle_def settle_def mret_dut_def)
  have "\<exists>m\<le>512. i_done (i_out mret_dut ((intr_cycle mret_dut ^^ m) 0)) \<and> \<not> i_fail (i_out mret_dut ((intr_cycle mret_dut ^^ m) 0))
        \<and> (\<forall>i<m. \<not> i_done (i_out mret_dut ((intr_cycle mret_dut ^^ i) 0)) \<and> mret_ok (sampled mret_dut i 0))
        \<and> (\<exists>i<m. mret_check_phase (sampled mret_dut i 0))"
    by (rule exI [of _ 1]) (simp add: c sampled_def mret_ok_def, simp add: mret_dut_def)
  with intr_verdict_exact [of mret_dut 0] have "fst (intr_main mret_dut 0) = 0" "snd (intr_main mret_dut 0) = []" by metis+
  then show ?thesis by (simp add: prod_eq_iff)
qed

end
