(* ===== verification/Gol_Harness.thy ===== *)
theory Gol_Harness
  imports Dep_Observer
begin

text \<open>
  The Game-of-Life profiling harnesses: \<open>src/models/cache/gol_cache_profile_harness.cpp\<close> and its extension
  \<open>src/models/loaduse_p1/gol_profile_harness.cpp\<close>, which also drives the dependency observer. Both hold a
  memory of 1 MiB behind an AXI port that answers at once, load a program from a file of hexadecimal
  bytes, clock the core until it reports its last event, and judge the run by the events, the checksum
  and the counters sampled between two marker instructions. The functions the two files share word
  by word are defined once.

  The Verilator model of the core is a parameter (\<open>gol_dut\<close>). One-bit signals are truth values. A thrown
  \<open>std::runtime_error\<close> is the fault \<open>Thrown\<close>, an index outside the memory array \<open>Out_of_bounds\<close>.
\<close>

definition kMemoryBase :: u64 where "kMemoryBase = 0x80000000"
definition kMemoryBytes :: u64 where "kMemoryBytes = 1048576"
definition kEventAddress :: u32 where "kEventAddress = 0xa0000100"
definition kPayloadAddress :: u32 where "kPayloadAddress = 0xa0000108"
definition kWatchdogCycles :: u64 where "kWatchdogCycles = 10000000"

lemmas gol_consts = kMemoryBase_def kMemoryBytes_def kEventAddress_def kPayloadAddress_def kWatchdogCycles_def

section \<open>The core seen from the harness\<close>

record gol_in =
  g_clk :: bool
  g_rstn :: bool
  axi_aw_ready_i :: bool
  axi_w_ready_i :: bool
  axi_b_valid_i :: bool
  axi_ar_ready_i :: bool
  axi_r_valid_i :: bool
  axi_r_data_i :: u64
  axi_r_last_i :: bool

record gol_out =
  axi_aw_valid_o :: bool
  axi_aw_addr_o :: u32
  axi_w_valid_o :: bool
  axi_w_data_o :: u64
  axi_w_strb_o :: u8
  axi_b_ready_o :: bool
  axi_ar_valid_o :: bool
  axi_ar_addr_o :: u32
  axi_r_ready_o :: bool
  icache_access_event :: bool
  icache_hit_event :: bool
  icache_miss_event :: bool
  icache_miss_stall :: bool
  icache_total_stall :: bool
  dcache_access_event :: bool
  dcache_load_access_event :: bool
  dcache_store_access_event :: bool
  dcache_hit_event :: bool
  dcache_miss_event :: bool
  dcache_miss_stall :: bool
  dcache_dirty_eviction_event :: bool
  dcache_writeback_stall :: bool
  dcache_total_stall :: bool
  dcache_access_address :: u32
  dcache_access_wmask :: u8
  g_divider_stall :: bool
  g_branch_recovery :: bool
  g_dependency_stall :: bool
  dependency_consumer_pc :: u64
  dependency_consumer_inst :: u32
  dependency_producer_rd :: u8
  dependency_producer_address :: u64
  exu_active :: bool
  exu_pc :: u64
  exu_inst :: u32

record 'd gol_dut =
  g_eval :: "gol_in \<Rightarrow> 'd \<Rightarrow> 'd"
  g_out :: "'d \<Rightarrow> gol_out"

section \<open>State\<close>

text \<open>
  The memory array is a function on indices below \<open>kMemoryBytes\<close>. The trace stream has the state of its
  \<open>ofstream\<close>: whether a file is open and whether the stream is good; a stream without a file is good until
  the first output fails.
\<close>

record gol =
  g_memory :: "nat \<Rightarrow> u8"
  c_cycles :: u64
  c_values :: "u64 list"
  g_events :: "u64 list"
  expected_checksum :: u64
  expected_cycles :: u64
  g_roi_start_pc :: u64
  g_roi_end_pc :: u64
  measured_cycles :: u64
  g_checksum :: u64
  last_payload :: u64
  edges :: u64
  read_address :: u32
  write_address :: u32
  write_word :: u64
  write_strobes :: u8
  trace_sequence :: u64
  g_roi :: bool
  g_done :: bool
  roi_completed :: bool
  previous_icache_refill :: bool
  previous_dcache_refill :: bool
  previous_dcache_writeback :: bool
  trace_open :: bool
  trace_good :: bool
  trace_text :: string
  top_in :: gol_in

definition gol_in_init :: gol_in where
  "gol_in_init = \<lparr>g_clk = False, g_rstn = False, axi_aw_ready_i = False, axi_w_ready_i = False, axi_b_valid_i = False,
     axi_ar_ready_i = False, axi_r_valid_i = False, axi_r_data_i = 0, axi_r_last_i = False\<rparr>"

text \<open>The member initializers, with the expected values of the constructor.\<close>

definition gol_init :: "u64 \<Rightarrow> u64 \<Rightarrow> gol" where
  "gol_init ck cyc = \<lparr>g_memory = (\<lambda>_. 0), c_cycles = 0, c_values = replicate 34 0, g_events = [], expected_checksum = ck,
     expected_cycles = cyc, g_roi_start_pc = 0, g_roi_end_pc = 0, measured_cycles = 0, g_checksum = 0, last_payload = 0,
     edges = 0, read_address = 0, write_address = 0, write_word = 0, write_strobes = 0, trace_sequence = 0, g_roi = False,
     g_done = False, roi_completed = False, previous_icache_refill = False, previous_dcache_refill = False,
     previous_dcache_writeback = False, trace_open = False, trace_good = True, trace_text = [], top_in = gol_in_init\<rparr>"

section \<open>Loading the program\<close>

text \<open>\<open>std::getline\<close> until the end of the file: the lines, the last one with or without a newline.\<close>

function getlines :: "string \<Rightarrow> string list" where
  "getlines cs =
     (if cs = [] then []
      else takeWhile (\<lambda>c. c \<noteq> CHR 0x0A) cs #
        (case dropWhile (\<lambda>c. c \<noteq> CHR 0x0A) cs of [] \<Rightarrow> [] | _ # rest \<Rightarrow> getlines rest))"
  by pat_completeness auto
termination
proof (relation "measure length", goal_cases)
  case (2 cs c rest)
  then have "length (c # rest) \<le> length cs" using length_dropWhile_le [of "\<lambda>c. c \<noteq> CHR 0x0A" cs] by simp
  then show ?case by simp
qed simp

declare getlines.simps [simp del]

definition isxdigit :: "char \<Rightarrow> bool" where
  "isxdigit c \<longleftrightarrow> digit_val c < 16"

definition hex_token :: "string \<Rightarrow> u8 option" where
  "hex_token t = (if length t \<noteq> 2 \<or> \<not> isxdigit (t ! 0) \<or> \<not> isxdigit (t ! 1) then None
     else Some (of_nat (digits_value 16 0 t)))"

primrec load_lines :: "string \<Rightarrow> string list \<Rightarrow> nat \<Rightarrow> (nat \<Rightarrow> u8) \<Rightarrow> ((nat \<Rightarrow> u8) \<times> nat) res" where
  "load_lines msg [] off m = Inr (m, off)"
| "load_lines msg (t # ts) off m =
     (case hex_token t of
        None \<Rightarrow> Inl (Thrown msg)
      | Some b \<Rightarrow> if off \<ge> unat kMemoryBytes then Inl (Thrown msg)
                  else load_lines msg ts (Suc off) (m(off := b)))"

text \<open>The addresses of the instructions that read the cycle counter.\<close>

definition cycle_csrs :: "(nat \<Rightarrow> u8) \<Rightarrow> nat \<Rightarrow> u64 list" where
  "cycle_csrs m off =
     map (\<lambda>k. kMemoryBase + of_nat (4 * k))
       (filter (\<lambda>k. 4 * k + 3 < off \<and> (ucast (le_load m (4 * k) 4) :: u32) AND 0xfffff07f = 0xc0002073) [0..<off])"

definition load_hex :: "string option \<Rightarrow> gol \<Rightarrow> gol res" where
  "load_hex hex_file h =
     (case hex_file of
        None \<Rightarrow> Inl (Thrown ''cannot open HEX'')
      | Some cs \<Rightarrow>
          bindR (load_lines ''invalid HEX'' (getlines cs) 0 (\<lambda>_. 0)) (\<lambda>(m, off).
            let csrs = cycle_csrs m off in
            if length csrs \<noteq> 4 then Inl (Thrown ''unexpected csrr cycle count'')
            else Inr (h\<lparr>g_memory := m, g_roi_start_pc := csrs ! 2, g_roi_end_pc := csrs ! 3\<rparr>)))"

section \<open>The memory port\<close>

definition read64 :: "gol \<Rightarrow> u32 \<Rightarrow> u64" where
  "read64 h address =
     (if ucast address < kMemoryBase \<or> ucast address > kMemoryBase + kMemoryBytes - 8 then 0
      else le_load (g_memory h) (unat (ucast address - kMemoryBase :: u64)) 8)"

text \<open>The strobed bytes are stored one by one.\<close>

primrec store_bytes :: "nat list \<Rightarrow> u8 \<Rightarrow> u64 \<Rightarrow> nat \<Rightarrow> (nat \<Rightarrow> u8) \<Rightarrow> (nat \<Rightarrow> u8) res" where
  "store_bytes [] strobes data off m = Inr m"
| "store_bytes (k # ks) strobes data off m =
     (if bit strobes k then
        if off + k < unat kMemoryBytes then store_bytes ks strobes data off (m(off + k := byte_of data k))
        else Inl Out_of_bounds
      else store_bytes ks strobes data off m)"

definition commit_event :: "gol \<Rightarrow> gol" where
  "commit_event h =
     (let v = write_word h;
          h = h\<lparr>g_events := g_events h @ [v]\<rparr>;
          h = (if v = 4 then h\<lparr>measured_cycles := last_payload h\<rparr> else h);
          h = (if v = 5 then h\<lparr>g_checksum := last_payload h\<rparr> else h)
      in if v = 6 then h\<lparr>g_done := True\<rparr> else h)"

definition commit_write :: "gol_out \<Rightarrow> gol \<Rightarrow> gol res" where
  "commit_write out h =
     (if \<not> axi_b_ready_o out then Inr h
      else if write_address h = kPayloadAddress then Inr (h\<lparr>last_payload := write_word h\<rparr>)
      else if write_address h = kEventAddress then Inr (commit_event h)
      else if ucast (write_address h) \<ge> kMemoryBase \<and> ucast (write_address h) < kMemoryBase + kMemoryBytes then
        bindR (store_bytes [0..<8] (write_strobes h) (write_word h) (unat (ucast (write_address h) - kMemoryBase :: u64)) (g_memory h))
          (\<lambda>m. Inr (h\<lparr>g_memory := m\<rparr>))
      else Inr h)"

definition g_drive :: "gol_out \<Rightarrow> gol \<Rightarrow> gol" where
  "g_drive out h = h\<lparr>top_in := (top_in h)\<lparr>axi_aw_ready_i := axi_aw_valid_o out, axi_w_ready_i := axi_w_valid_o out,
     axi_b_valid_i := axi_b_ready_o out, axi_ar_ready_i := axi_ar_valid_o out, axi_r_valid_i := axi_r_ready_o out,
     axi_r_data_i := read64 h (read_address h), axi_r_last_i := True\<rparr>\<rparr>"

definition gol_eval :: "'d gol_dut \<Rightarrow> gol \<Rightarrow> 'd \<Rightarrow> gol \<times> 'd" where
  "gol_eval D h d = (let h = g_drive (g_out D d) h in (h, g_eval D (top_in h) d))"

section \<open>Sampling\<close>

definition bump :: "nat \<times> bool \<Rightarrow> u64 list \<Rightarrow> u64 list" where
  "bump kb vs = vs[fst kb := vs ! fst kb + b2w (snd kb)]"

text \<open>The counters an active cycle adds to, in the order of the source, and the one category it is charged to.\<close>

definition sample_events :: "gol_out \<Rightarrow> gol \<Rightarrow> (nat \<times> bool) list" where
  "sample_events out h =
     [(0, icache_access_event out), (1, icache_hit_event out), (2, icache_miss_event out),
      (3, icache_miss_stall out \<and> \<not> previous_icache_refill h), (4, \<not> icache_miss_stall out \<and> previous_icache_refill h),
      (5, icache_miss_stall out), (6, icache_total_stall out),
      (7, dcache_access_event out), (8, dcache_load_access_event out), (9, dcache_store_access_event out),
      (10, dcache_hit_event out), (11, dcache_miss_event out),
      (12, dcache_hit_event out \<and> dcache_load_access_event out), (13, dcache_miss_event out \<and> dcache_load_access_event out),
      (14, dcache_hit_event out \<and> dcache_store_access_event out), (15, dcache_miss_event out \<and> dcache_store_access_event out),
      (16, dcache_miss_stall out \<and> \<not> previous_dcache_refill h), (17, \<not> dcache_miss_stall out \<and> previous_dcache_refill h),
      (18, dcache_dirty_eviction_event out),
      (19, dcache_writeback_stall out \<and> \<not> previous_dcache_writeback h),
      (20, \<not> dcache_writeback_stall out \<and> previous_dcache_writeback h),
      (21, dcache_miss_stall out), (22, dcache_writeback_stall out), (23, dcache_total_stall out),
      (30, icache_miss_event out), (31, dcache_miss_event out)]"

definition sample_category :: "gol_out \<Rightarrow> nat" where
  "sample_category out =
     (if dcache_total_stall out then 24
      else if g_divider_stall out then 25
      else if g_branch_recovery out then 26
      else if g_dependency_stall out then 27
      else if icache_total_stall out then 28
      else 29)"

definition sample_counts :: "gol_out \<Rightarrow> gol \<Rightarrow> gol" where
  "sample_counts out h =
     (if \<not> g_roi h then h
      else h\<lparr>c_cycles := c_cycles h + 1,
             c_values := bump (sample_category out, True) (fold bump (sample_events out h) (c_values h))\<rparr>)"

definition gol_trace_line :: "string \<Rightarrow> gol_out \<Rightarrow> gol \<Rightarrow> string" where
  "gol_trace_line phase out h =
     llu (trace_sequence h) @ '','' @ llu (edges h) @ '','' @ phase @ '',0x'' @ hex_pad 8 (unat (dcache_access_address out)) @ '','' @
     (if dcache_store_access_event out then ''STORE'' else ''LOAD'') @ '',0x'' @ hex_pad 2 (unat (dcache_access_wmask out)) @ '','' @
     (if dcache_hit_event out then ''1'' else ''0'') @ '','' @ (if dcache_miss_event out then ''1'' else ''0'') @ '','' @
     (if dcache_dirty_eviction_event out then ''1'' else ''0'') @ nl"

definition sample_trace :: "string \<Rightarrow> gol_out \<Rightarrow> gol \<Rightarrow> gol" where
  "sample_trace phase out h =
     (if \<not> trace_good h \<or> roi_completed h \<or> \<not> dcache_access_event out then h
      else if trace_open h
      then h\<lparr>trace_text := trace_text h @ gol_trace_line phase out h, trace_sequence := trace_sequence h + 1\<rparr>
      else h\<lparr>trace_good := False, trace_sequence := trace_sequence h + 1\<rparr>)"

section \<open>A clock\<close>

definition latch_bus :: "gol_out \<Rightarrow> gol \<Rightarrow> gol" where
  "latch_bus out h = h\<lparr>read_address := axi_ar_addr_o out, write_address := axi_aw_addr_o out, write_word := axi_w_data_o out,
     write_strobes := axi_w_strb_o out, previous_icache_refill := icache_miss_stall out,
     previous_dcache_refill := dcache_miss_stall out, previous_dcache_writeback := dcache_writeback_stall out\<rparr>"

text \<open>What the harness of the cache model does with the outputs after the rising edge.\<close>

definition cache_observe :: "gol_out \<Rightarrow> gol \<Rightarrow> gol res" where
  "cache_observe out h =
     (let start = (exu_active out \<and> exu_pc out = g_roi_start_pc h);
          stop = (exu_active out \<and> exu_pc out = g_roi_end_pc h);
          h = (if start then (sample_trace ''PRE_ROI'' out h)\<lparr>g_roi := True\<rparr>
               else sample_counts out (sample_trace (if g_roi h then ''ROI'' else ''PRE_ROI'') out h));
          h = (if stop then h\<lparr>g_roi := False, roi_completed := True\<rparr> else h)
      in bindR (commit_write out h) (\<lambda>h. Inr (latch_bus out h)))"

definition set_clk :: "bool \<Rightarrow> gol \<Rightarrow> gol" where
  "set_clk b h = h\<lparr>top_in := (top_in h)\<lparr>g_clk := b\<rparr>\<rparr>"

definition cache_tick :: "'d gol_dut \<Rightarrow> gol \<times> 'd \<Rightarrow> (gol \<times> 'd) res" where
  "cache_tick D st =
     (case st of (h, d) \<Rightarrow>
      let (h, d) = gol_eval D (set_clk True h) d;
          h = h\<lparr>edges := edges h + 1\<rparr>
      in bindR (cache_observe (g_out D d) h) (\<lambda>h. Inr (gol_eval D (set_clk False h) d)))"

section \<open>The run\<close>

primrec ticks :: "('s \<Rightarrow> 's res) \<Rightarrow> nat \<Rightarrow> 's \<Rightarrow> 's res" where
  "ticks tick 0 s = Inr s"
| "ticks tick (Suc n) s = bindR (tick s) (ticks tick n)"

text \<open>\<open>while (!done_ && edges_ < kWatchdogCycles) Tick()\<close>, with a bound on the number of rounds; \<open>base\<close> gives the
  members of a state.\<close>

primrec until_done :: "('s \<Rightarrow> gol) \<Rightarrow> ('s \<Rightarrow> 's res) \<Rightarrow> nat \<Rightarrow> 's \<Rightarrow> 's res" where
  "until_done base tick 0 s = Inr s"
| "until_done base tick (Suc n) s =
     (if \<not> g_done (base s) \<and> edges (base s) < kWatchdogCycles then bindR (tick s) (until_done base tick n) else Inr s)"

definition g_sequence :: "u64 list \<Rightarrow> string" where
  "g_sequence es = concat (map (\<lambda>(i, e). (if i \<noteq> 0 then '','' else []) @ llu e) (zip [0..<length es] es))"

definition gol_counter_invariants :: "u64 list \<Rightarrow> bool" where
  "gol_counter_invariants v \<longleftrightarrow> v ! 0 = v ! 1 + v ! 2 \<and> v ! 7 = v ! 8 + v ! 9 \<and> v ! 7 = v ! 10 + v ! 11
     \<and> v ! 8 = v ! 12 + v ! 13 \<and> v ! 9 = v ! 14 + v ! 15"

definition kNames :: "string list" where
  "kNames = [''icache_accesses'', ''icache_hits'', ''icache_misses'', ''icache_refill_started_in_roi'',
     ''icache_refill_completed_in_roi'', ''icache_miss_stall_cycles'', ''icache_total_stall_cycles'', ''dcache_accesses'',
     ''dcache_load_accesses'', ''dcache_store_accesses'', ''dcache_hits'', ''dcache_misses'', ''dcache_load_hits'',
     ''dcache_load_misses'', ''dcache_store_hits'', ''dcache_store_misses'', ''dcache_refill_started_in_roi'',
     ''dcache_refill_completed_in_roi'', ''dcache_dirty_evictions'', ''dcache_writeback_started_in_roi'',
     ''dcache_writeback_completed_in_roi'', ''dcache_miss_stall_cycles'', ''dcache_writeback_stall_cycles'',
     ''dcache_total_stall_cycles'', ''exclusive_dcache_cycles'', ''exclusive_divider_cycles'', ''exclusive_branch_cycles'',
     ''exclusive_dependency_cycles'', ''exclusive_icache_cycles'', ''exclusive_other_cycles'', ''icache_miss_allocated_in_roi'',
     ''dcache_miss_allocated_in_roi'', ''reserved0'', ''reserved1'']"

definition gol_json :: "gol \<Rightarrow> bool \<Rightarrow> bool \<Rightarrow> string" where
  "gol_json h inv_ok fun_ok =
     ''{'' @ nl @ ''  '' @ quoted ''schema_version'' @ '': '' @ quoted ''a2-cache-c0-gol-v1'' @ '','' @ nl @
     num_field ''roi_cycles'' (measured_cycles h) @ num_field ''counter_sampled_cycles'' (c_cycles h) @
     concat (map (\<lambda>i. num_field (kNames ! i) (c_values h ! i)) [0..<32]) @
     num_field ''checksum'' (g_checksum h) @
     ''  '' @ quoted ''retirement_status'' @ '': '' @ quoted ''NOT_QUALIFIED_UNAVAILABLE_AT_SYNTHESIS_TOP'' @ '','' @ nl @
     ''  '' @ quoted ''counter_invariants_pass'' @ '': '' @ bool_text inv_ok @ '','' @ nl @
     ''  '' @ quoted ''functional_status'' @ '': '' @ quoted (if fun_ok then ''PASS'' else ''FAIL'') @ nl @ ''}'' @ nl"

text \<open>The result of a run: the exit code, the standard output, the JSON report and the trace.\<close>

record gol_result =
  gr_code :: int
  gr_stdout :: string
  gr_json :: string
  gr_trace :: string

definition verdict_text :: "gol \<Rightarrow> bool \<Rightarrow> bool \<Rightarrow> string" where
  "verdict_text h inv_ok fun_ok =
     ''MARKER_EVENT_SEQUENCE='' @ g_sequence (g_events h) @ nl @
     ''OBSERVED_CYCLES_PER_GENERATION='' @ llu (measured_cycles h) @ nl @
     ''COUNTER_SAMPLED_CYCLES='' @ llu (c_cycles h) @ nl @
     ''OBSERVED_CHECKSUM='' @ llu (g_checksum h) @ nl @
     ''CACHE_COUNTER_INVARIANTS='' @ (if inv_ok then ''PASS'' else ''FAIL'') @ nl @
     ''CONTROLLED_TERMINATION='' @ (if fun_ok then ''PASS'' else ''FAIL'') @ nl"

definition set_rstn :: "bool \<Rightarrow> gol \<Rightarrow> gol" where
  "set_rstn b h = h\<lparr>top_in := (top_in h)\<lparr>g_rstn := b\<rparr>\<rparr>"

definition cache_clocks :: "'d gol_dut \<Rightarrow> gol \<Rightarrow> 'd \<Rightarrow> (gol \<times> 'd) res" where
  "cache_clocks D h d =
     bindR (ticks (cache_tick D) 5 (gol_eval D (set_rstn False (set_clk False h)) d)) (\<lambda>(h, d).
     bindR (until_done fst (cache_tick D) (unat kWatchdogCycles) (gol_eval D (set_rstn True h) d)) (\<lambda>st.
       ticks (cache_tick D) 5 st))"

definition cache_run :: "'d gol_dut \<Rightarrow> gol \<Rightarrow> 'd \<Rightarrow> gol_result res" where
  "cache_run D h d =
     bindR (cache_clocks D h d) (\<lambda>(h, d).
       let inv_ok = gol_counter_invariants (c_values h);
           fun_ok = (g_done h \<and> g_events h = [1, 2, 3, 4, 5, 6] \<and> measured_cycles h = expected_cycles h
                     \<and> g_checksum h = expected_checksum h)
       in Inr \<lparr>gr_code = (if inv_ok \<and> fun_ok \<and> c_cycles h = measured_cycles h then 0 else 2),
               gr_stdout = verdict_text h inv_ok fun_ok, gr_json = gol_json h inv_ok fun_ok, gr_trace = trace_text h\<rparr>)"

definition gol_trace_header :: string where
  "gol_trace_header = ''sequence_number,simulation_cycle,phase,address,operation,wmask,rtl_hit,rtl_miss,rtl_dirty_eviction'' @ nl"

definition open_trace :: "(string \<Rightarrow> bool) \<Rightarrow> string \<Rightarrow> gol \<Rightarrow> gol res" where
  "open_trace can_open path h =
     (if path = [] then Inr h
      else if \<not> can_open path then Inl (Thrown ''cannot open trace output'')
      else Inr (h\<lparr>trace_open := True, trace_text := gol_trace_header\<rparr>))"

text \<open>\<open>std::stoull\<close> with base 0: an exception when there is no digit or the value is too large.\<close>

definition stoull0 :: "string \<Rightarrow> u64 res" where
  "stoull0 s = (let (neg, t) = skip_sign s in
     if base0_rest t = None \<or> base0_value t \<ge> 2 ^ 64 then Inl (Thrown ''stoull'') else Inr (strtoul0 s))"

definition cache_harness :: "(string \<Rightarrow> bool) \<Rightarrow> string option \<Rightarrow> u64 \<Rightarrow> u64 \<Rightarrow> string \<Rightarrow> gol res" where
  "cache_harness can_open hex_file ck cyc trace =
     bindR (load_hex hex_file (gol_init ck cyc)) (open_trace can_open trace)"

text \<open>\<open>main\<close>: the arguments after the program name, and the files as a function from paths to contents. An
  exception is reported on the standard error and gives 65; other faults are undefined behaviour.\<close>

definition catch65 :: "gol_result res \<Rightarrow> gol_result res" where
  "catch65 r = (case r of
       Inl (Thrown e) \<Rightarrow> Inr \<lparr>gr_code = 65, gr_stdout = [], gr_json = [], gr_trace = []\<rparr>
     | _ \<Rightarrow> r)"

definition cache_main :: "'d gol_dut \<Rightarrow> 'd \<Rightarrow> (string \<Rightarrow> bool) \<Rightarrow> (string \<Rightarrow> string option) \<Rightarrow> string list \<Rightarrow> gol_result res" where
  "cache_main D d can_open files args =
     (if length args \<noteq> 4 \<and> length args \<noteq> 5 then Inr \<lparr>gr_code = 64, gr_stdout = [], gr_json = [], gr_trace = []\<rparr>
      else catch65
        (bindR (stoull0 (args ! 2)) (\<lambda>ck. bindR (stoull0 (args ! 3)) (\<lambda>cyc.
         bindR (cache_harness can_open (files (args ! 0)) ck cyc (if length args = 5 then args ! 4 else [])) (\<lambda>h.
           cache_run D h d)))))"

section \<open>The harness with the dependency observer\<close>

definition observer_sample :: "gol_out \<Rightarrow> DependencyObserverSample" where
  "observer_sample out = \<lparr>ds_dependency_stall = g_dependency_stall out, ds_dcache_total_stall = dcache_total_stall out,
     ds_divider_stall = g_divider_stall out, ds_branch_recovery = g_branch_recovery out,
     ds_dcache_load_access = dcache_load_access_event out, ds_dcache_hit = dcache_hit_event out,
     ds_dcache_miss = dcache_miss_event out, ds_dcache_address = dcache_access_address out,
     ds_consumer_pc = dependency_consumer_pc out, ds_consumer_inst = dependency_consumer_inst out,
     ds_producer_pc = exu_pc out, ds_producer_inst = exu_inst out, ds_producer_rd = dependency_producer_rd out,
     ds_producer_address = dependency_producer_address out\<rparr>"

definition lu_sample :: "gol_out \<Rightarrow> gol \<times> dep_state \<Rightarrow> (gol \<times> dep_state) res" where
  "lu_sample out s =
     (case s of (h, o_st) \<Rightarrow>
      if \<not> g_roi h then Inr (h, o_st)
      else bindR (dependency_observer_sample (observer_sample out) (dependency_observer_cycle o_st)) (\<lambda>o_st.
             Inr (sample_counts out h, o_st)))"

definition lu_observe :: "gol_out \<Rightarrow> gol \<times> dep_state \<Rightarrow> (gol \<times> dep_state) res" where
  "lu_observe out s =
     (case s of (h, o_st) \<Rightarrow>
      let start = (exu_active out \<and> exu_pc out = g_roi_start_pc h);
          stop = (exu_active out \<and> exu_pc out = g_roi_end_pc h)
      in bindR (if start then Inr ((sample_trace ''PRE_ROI'' out h)\<lparr>g_roi := True\<rparr>, dependency_observer_begin_roi o_st)
                else lu_sample out (sample_trace (if g_roi h then ''ROI'' else ''PRE_ROI'') out h, o_st)) (\<lambda>(h, o_st).
         let (h, o_st) = (if stop then (h\<lparr>g_roi := False, roi_completed := True\<rparr>, dependency_observer_end_roi o_st) else (h, o_st))
         in bindR (commit_write out h) (\<lambda>h. Inr (latch_bus out h, o_st))))"

definition lu_tick :: "'d gol_dut \<Rightarrow> (gol \<times> dep_state) \<times> 'd \<Rightarrow> ((gol \<times> dep_state) \<times> 'd) res" where
  "lu_tick D st =
     (case st of ((h, o_st), d) \<Rightarrow>
      let (h, d) = gol_eval D (set_clk True h) d;
          h = h\<lparr>edges := edges h + 1\<rparr>
      in bindR (lu_observe (g_out D d) (h, o_st)) (\<lambda>(h, o_st).
           let (h, d) = gol_eval D (set_clk False h) d in Inr ((h, o_st), d)))"

definition lu_clocks :: "'d gol_dut \<Rightarrow> gol \<Rightarrow> dep_state \<Rightarrow> 'd \<Rightarrow> ((gol \<times> dep_state) \<times> 'd) res" where
  "lu_clocks D h o_st d =
     (let (h, d) = gol_eval D (set_rstn False (set_clk False h)) d in
      bindR (ticks (lu_tick D) 5 ((h, o_st), d)) (\<lambda>((h, o_st), d).
      let (h, d) = gol_eval D (set_rstn True h) d in
      bindR (until_done (fst \<circ> fst) (lu_tick D) (unat kWatchdogCycles) ((h, o_st), d)) (\<lambda>st. ticks (lu_tick D) 5 st)))"

text \<open>The run; \<open>can_open\<close> says which report files the observer can create.\<close>

definition lu_run :: "'d gol_dut \<Rightarrow> (string \<Rightarrow> bool) \<Rightarrow> gol \<Rightarrow> dep_state \<Rightarrow> 'd \<Rightarrow> (gol_result \<times> string option) res" where
  "lu_run D can_open h o_st d =
     bindR (lu_clocks D h o_st d) (\<lambda>((h, o_st), d).
       let inv_ok = gol_counter_invariants (c_values h);
           cycles_valid = (if expected_cycles h = 0 then measured_cycles h > 0 else measured_cycles h = expected_cycles h);
           fun_ok = (g_done h \<and> g_events h = [1, 2, 3, 4, 5, 6] \<and> cycles_valid \<and> g_checksum h = expected_checksum h);
           (dependency_status, report) = dependency_observer_finalize can_open o_st (if fun_ok then 0 else 2)
       in Inr (\<lparr>gr_code = (if inv_ok \<and> fun_ok \<and> c_cycles h = measured_cycles h \<and> dependency_status = 0 then 0 else 2),
                gr_stdout = verdict_text h inv_ok fun_ok, gr_json = gol_json h inv_ok fun_ok, gr_trace = trace_text h\<rparr>, report))"

definition lu_harness ::
  "environ \<Rightarrow> (string \<Rightarrow> bool) \<Rightarrow> string option \<Rightarrow> u64 \<Rightarrow> u64 \<Rightarrow> string \<Rightarrow> (gol \<times> dep_state) res" where
  "lu_harness env can_open hex_file ck cyc trace =
     bindR (load_hex hex_file (gol_init ck cyc)) (\<lambda>h.
       let o_st = dependency_observer_end_roi
                    (dependency_observer_init (env ''DEPENDENCY_PROFILE_OUT'') (env ''PERF_WORKLOAD'') dep_state_init)
       in bindR (open_trace can_open trace h) (\<lambda>h. Inr (h, o_st)))"

definition lu_main ::
  "'d gol_dut \<Rightarrow> 'd \<Rightarrow> environ \<Rightarrow> (string \<Rightarrow> bool) \<Rightarrow> (string \<Rightarrow> string option) \<Rightarrow> string list \<Rightarrow> gol_result res" where
  "lu_main D d env can_open files args =
     (if length args \<noteq> 4 \<and> length args \<noteq> 5 then Inr \<lparr>gr_code = 64, gr_stdout = [], gr_json = [], gr_trace = []\<rparr>
      else catch65
        (bindR (stoull0 (args ! 2)) (\<lambda>ck. bindR (stoull0 (args ! 3)) (\<lambda>cyc.
         bindR (lu_harness env can_open (files (args ! 0)) ck cyc (if length args = 5 then args ! 4 else [])) (\<lambda>(h, o_st).
         bindR (lu_run D can_open h o_st d) (\<lambda>(r, _). Inr r))))))"

end
