(* ===== verification/Gol_Profile.thy ===== *)
theory Gol_Profile
  imports Gol_Harness
begin

text \<open>
  The harness of the timed workload, \<open>src/workloads/gol/scripts/gol_profiling_verilator_harness.cpp\<close>: the
  memory, the bus and the event protocol of the profiling harnesses without counters, and with a store
  that stops at the end of the memory. Its members are those of the record \<open>gol\<close> (the counters stay
  untouched), and the standard output is kept beside them.
\<close>

definition p_load_hex :: "string \<Rightarrow> string option \<Rightarrow> gol \<Rightarrow> (gol \<times> string) res" where
  "p_load_hex path hex_file h =
     (case hex_file of
        None \<Rightarrow> Inl (Thrown (''cannot open HEX: '' @ path))
      | Some cs \<Rightarrow>
          bindR (load_lines ''invalid or oversized byte-per-line HEX'' (getlines cs) 0 (\<lambda>_. 0)) (\<lambda>(m, off).
            Inr (h\<lparr>g_memory := m\<rparr>, ''HEX_BYTES_LOADED='' @ dec off @ nl)))"

text \<open>The loop ends at the end of the memory.\<close>

primrec p_store_bytes :: "nat list \<Rightarrow> u8 \<Rightarrow> u64 \<Rightarrow> nat \<Rightarrow> (nat \<Rightarrow> u8) \<Rightarrow> (nat \<Rightarrow> u8)" where
  "p_store_bytes [] strobes data off m = m"
| "p_store_bytes (k # ks) strobes data off m =
     (if off + k < unat kMemoryBytes then
        p_store_bytes ks strobes data off (if bit strobes k then m(off + k := byte_of data k) else m)
      else m)"

definition p_marker :: "gol \<Rightarrow> string" where
  "p_marker h = ''MARKER event='' @ llu (write_word h) @ '' payload='' @ llu (last_payload h) @
     '' architectural_cycle_diagnostic='' @ llu (edges h) @ '' harness_edge_count='' @ llu (edges h) @ nl"

definition p_commit_write :: "gol_out \<Rightarrow> gol \<times> string \<Rightarrow> gol \<times> string" where
  "p_commit_write out s =
     (case s of (h, txt_out) \<Rightarrow>
      if \<not> axi_b_ready_o out then (h, txt_out)
      else if write_address h = kPayloadAddress then (h\<lparr>last_payload := write_word h\<rparr>, txt_out)
      else if write_address h = kEventAddress then (commit_event h, txt_out @ p_marker h)
      else if ucast (write_address h) < kMemoryBase \<or> ucast (write_address h) \<ge> kMemoryBase + kMemoryBytes then (h, txt_out)
      else (h\<lparr>g_memory := p_store_bytes [0..<8] (write_strobes h) (write_word h)
               (unat (ucast (write_address h) - kMemoryBase :: u64)) (g_memory h)\<rparr>, txt_out))"

definition p_rising :: "'d gol_dut \<Rightarrow> (gol \<times> string) \<times> 'd \<Rightarrow> (gol \<times> string) \<times> 'd" where
  "p_rising D st =
     (case st of ((h, t), d) \<Rightarrow>
      let (h, d) = gol_eval D (set_clk True h) d;
          h = h\<lparr>edges := edges h + 1\<rparr>;
          out = g_out D d;
          (h, t) = p_commit_write out (h, t)
      in ((h\<lparr>read_address := axi_ar_addr_o out, write_address := axi_aw_addr_o out, write_word := axi_w_data_o out,
             write_strobes := axi_w_strb_o out\<rparr>, t), d))"

definition p_falling :: "'d gol_dut \<Rightarrow> (gol \<times> string) \<times> 'd \<Rightarrow> (gol \<times> string) \<times> 'd" where
  "p_falling D st = (case st of ((h, t), d) \<Rightarrow> let (h, d) = gol_eval D (set_clk False h) d in ((h, t), d))"

definition p_print :: "string \<Rightarrow> (gol \<times> string) \<times> 'd \<Rightarrow> (gol \<times> string) \<times> 'd" where
  "p_print x st = (case st of ((h, t), d) \<Rightarrow> ((h, t @ x), d))"

primrec p_reset :: "'d gol_dut \<Rightarrow> nat \<Rightarrow> nat \<Rightarrow> (gol \<times> string) \<times> 'd \<Rightarrow> (gol \<times> string) \<times> 'd" where
  "p_reset D 0 k st = st"
| "p_reset D (Suc n) k st =
     p_reset D n (Suc k) (p_falling D (p_print (''RESET_POSEDGE='' @ dec k @ nl) (p_rising D st)))"

primrec p_until_done :: "'d gol_dut \<Rightarrow> nat \<Rightarrow> (gol \<times> string) \<times> 'd \<Rightarrow> (gol \<times> string) \<times> 'd" where
  "p_until_done D 0 st = st"
| "p_until_done D (Suc n) st =
     (if \<not> g_done (fst (fst st)) \<and> edges (fst (fst st)) < kWatchdogCycles
      then p_until_done D n (p_falling D (p_rising D st)) else st)"

text \<open>The exit code and the standard output of a run.\<close>

definition p_run :: "'d gol_dut \<Rightarrow> gol \<times> string \<Rightarrow> 'd \<Rightarrow> int \<times> string" where
  "p_run D s d =
     (case s of (h, t) \<Rightarrow>
      let (h, d) = gol_eval D (set_rstn False (set_clk False h)) d;
          ((h, t), d) = p_reset D 5 1 ((h, t), d);
          (h, d) = gol_eval D (set_rstn True h) d;
          ((h, t), d) = p_until_done D (unat kWatchdogCycles) ((h, t @ ''RESET_DEASSERT_AFTER_POSEDGE=5'' @ nl), d)
      in if \<not> g_done h then (1, t)
         else
           let ((h, t), d) = ((p_falling D \<circ> p_rising D) ^^ 5) ((h, t), d);
               t = t @ ''DONE_POST_RISING_EDGES=5'' @ nl @ ''MARKER_EVENT_SEQUENCE='' @ g_sequence (g_events h) @ nl @
                   ''OBSERVED_CYCLES_PER_GENERATION='' @ llu (measured_cycles h) @ nl @
                   ''OBSERVED_CHECKSUM='' @ llu (g_checksum h) @ nl @ ''EXPECTED_CHECKSUM='' @ llu (expected_checksum h) @ nl @
                   (if expected_cycles h \<noteq> 0 then ''EXPECTED_CYCLES_PER_GENERATION='' @ llu (expected_cycles h) @ nl else []) @
                   ''DONE_SEEN=YES'' @ nl @ ''CONTROLLED_TERMINATION=PASS'' @ nl
           in (if g_events h = [1, 2, 3, 4, 5, 6] \<and> (expected_cycles h = 0 \<or> measured_cycles h = expected_cycles h)
                  \<and> g_checksum h = expected_checksum h then 0 else 2, t))"

definition p_main :: "'d gol_dut \<Rightarrow> 'd \<Rightarrow> (string \<Rightarrow> string option) \<Rightarrow> string list \<Rightarrow> int \<times> string" where
  "p_main D d files args =
     (if length args \<noteq> 2 \<and> length args \<noteq> 3 then (64, [])
      else
        case bindR (stoull0 (args ! 1)) (\<lambda>ck.
             bindR (if length args = 3 then stoull0 (args ! 2) else Inr 0) (\<lambda>cyc.
             bindR (p_load_hex (args ! 0) (files (args ! 0)) (gol_init ck cyc)) (\<lambda>s. Inr (p_run D s d))))
        of Inr r \<Rightarrow> r | Inl _ \<Rightarrow> (65, []))"

section \<open>Stores\<close>

lemma p_store_step:
  assumes "off + 8 \<le> unat kMemoryBytes" "\<forall>k\<in>set ks. k < 8"
  shows "store_bytes ks strobes data off m = Inr (p_store_bytes ks strobes data off m)"
  using assms by (induction ks arbitrary: m) auto

end
