(* ===== verification/Gol_Correct.thy ===== *)
theory Gol_Correct
  imports Gol_Profile
begin

text \<open>
  Properties of the profiling harnesses: loading a program, the memory port of the two kinds of harness,
  the end of every run, and the agreement of the counters with the dependency observer.
\<close>

section \<open>Loading a program\<close>

definition hex_dump :: "u8 list \<Rightarrow> string" where
  "hex_dump bs = concat (map (\<lambda>b. hex_pad 2 (unat b) @ nl) bs)"

lemma unat_u8: "unat (b :: u8) < 256"
  using unsigned_less [of b, where 'a = nat] by simp

lemma hex_no_newline: "c \<in> set (hex_pad w n) \<Longrightarrow> c \<noteq> CHR 0x0A"
  using hex_pad_digits [of c w n] by (auto simp: digit_val_def is_digit_def is_lower_def is_upper_def)

lemma getlines_hex_dump: "getlines (hex_dump bs) = map (\<lambda>b. hex_pad 2 (unat b)) bs"
proof (induction bs)
  case Nil
  show ?case by (simp add: hex_dump_def getlines.simps)
next
  case (Cons b bs)
  let ?t = "hex_pad 2 (unat b)"
  have e: "hex_dump (b # bs) = ?t @ CHR 0x0A # hex_dump bs" by (simp add: hex_dump_def nl_def)
  have "takeWhile (\<lambda>c. c \<noteq> CHR 0x0A) (hex_dump (b # bs)) = ?t" "dropWhile (\<lambda>c. c \<noteq> CHR 0x0A) (hex_dump (b # bs)) = CHR 0x0A # hex_dump bs"
    unfolding e using hex_no_newline [of _ 2 "unat b"] by (auto simp: takeWhile_append dropWhile_append)
  moreover have "hex_dump (b # bs) \<noteq> []" by (simp add: e)
  ultimately show ?case using Cons.IH by (subst getlines.simps) simp
qed

lemma hex_token_pad: "hex_token (hex_pad 2 (unat b)) = Some b"
proof -
  have l: "length (hex_pad 2 (unat b)) = 2" using length_hex_pad [of 2 "unat b"] unat_u8 [of b] by simp
  then have "\<forall>i<2. isxdigit (hex_pad 2 (unat b) ! i)"
    using hex_pad_digits [of _ 2 "unat b"] by (simp add: isxdigit_def nth_mem)
  then show ?thesis using l digits_value_hex_pad [of 2 "unat b"] by (simp add: hex_token_def)
qed

lemma load_lines_hex:
  "off + length bs \<le> unat kMemoryBytes \<Longrightarrow>
   load_lines msg (map (\<lambda>b. hex_pad 2 (unat b)) bs) off m
     = Inr (\<lambda>i. if off \<le> i \<and> i < off + length bs then bs ! (i - off) else m i, off + length bs)"
proof (induction bs arbitrary: off m)
  case Nil
  then show ?case by (auto simp: fun_eq_iff)
next
  case (Cons b bs)
  then have "load_lines msg (map (\<lambda>b. hex_pad 2 (unat b)) (b # bs)) off m
      = Inr (\<lambda>i. if Suc off \<le> i \<and> i < Suc off + length bs then bs ! (i - Suc off) else (m(off := b)) i, Suc off + length bs)"
    by (simp add: hex_token_pad)
  moreover have "(\<lambda>i. if Suc off \<le> i \<and> i < Suc off + length bs then bs ! (i - Suc off) else (m(off := b)) i)
      = (\<lambda>i. if off \<le> i \<and> i < off + length (b # bs) then (b # bs) ! (i - off) else m i)"
    by (auto simp: fun_eq_iff nth_Cons' Suc_diff_Suc split: if_splits)
  ultimately show ?case by simp
qed

lemma load_lines_dump:
  "length bs \<le> unat kMemoryBytes \<Longrightarrow>
   load_lines msg (getlines (hex_dump bs)) 0 (\<lambda>_. 0) = Inr (\<lambda>i. if i < length bs then bs ! i else 0, length bs)"
  using load_lines_hex [of 0 bs msg "\<lambda>_. 0"] by (simp add: getlines_hex_dump cong: if_cong)

text \<open>
  The instruction that reads a control register, \<open>csrr rd, csr\<close>: the encoding of \<open>csrrs rd, csr, x0\<close> of the instruction
  set, with the register number in bits 31 to 20, the source register 0 in bits 19 to 15, the function 2 in bits
  14 to 12, the destination in bits 11 to 7 and the major opcode \<open>SYSTEM\<close> below. The cycle counter is register 0xC00.
\<close>

definition csrr :: "u32 \<Rightarrow> u32 \<Rightarrow> u32" where
  "csrr rd csr = push_bit 20 csr OR push_bit 15 0 OR push_bit 12 2 OR push_bit 7 rd OR 0x73"

definition reads_cycle :: "u32 \<Rightarrow> bool" where
  "reads_cycle w \<longleftrightarrow> list_ex (\<lambda>rd. w = csrr (of_nat rd) 0xC00) [0..<32]"

definition instr_at :: "u8 list \<Rightarrow> nat \<Rightarrow> u32" where
  "instr_at bs k = ucast (le_load ((!) bs) (4 * k) 4)"

text \<open>The numbers of the words of a program that read the cycle counter, in order.\<close>

definition cycle_reads :: "u8 list \<Rightarrow> nat list" where
  "cycle_reads bs = filter (\<lambda>k. reads_cycle (instr_at bs k)) [0..<length bs div 4]"

lemma csrr_fields: "csrr rd 0xC00 = 0xc0002073 OR push_bit 7 rd"
proof -
  have e: "a OR b OR c OR y OR d = (a OR b OR c OR d) OR y" for a b c d y :: u32 by (simp add: ac_simps)
  show ?thesis unfolding csrr_def e by simp
qed

lemma rd_field: "push_bit 7 (take_bit 5 x) = push_bit 7 x AND NOT (0xfffff07f :: u32)"
proof -
  have "NOT (0xfffff07f :: u32) = push_bit 7 (mask 5)" by code_simp
  then show ?thesis by (simp add: take_bit_eq_mask push_bit_and)
qed

lemma reads_cycle_mask: "w AND 0xfffff07f = 0xc0002073 \<longleftrightarrow> reads_cycle w"
proof
  assume m: "w AND 0xfffff07f = 0xc0002073"
  let ?x = "take_bit 5 (drop_bit 7 w)"
  have n: "NOT (0xfffff07f :: u32) = push_bit 7 (mask 5)" by code_simp
  have "w AND NOT 0xfffff07f = push_bit 7 ?x" unfolding n by (auto simp: bit_eq_iff bit_simps)
  moreover have "w = (w AND c) OR (w AND NOT c)" for c by (auto simp: bit_eq_iff bit_simps)
  ultimately have "w = csrr ?x 0xC00" using m unfolding csrr_fields by metis
  moreover have "unat ?x < 2 ^ 5" by (simp only: unsigned_take_bit_eq take_bit_nat_less_exp)
  ultimately show "reads_cycle w" unfolding reads_cycle_def list_ex_iff by (intro bexI [of _ "unat ?x"]) simp_all
next
  assume "reads_cycle w"
  then obtain rd where rd: "rd < 32" "w = 0xc0002073 OR push_bit 7 (of_nat rd)"
    by (auto simp: reads_cycle_def list_ex_iff csrr_fields)
  have "take_bit 5 (of_nat rd :: u32) = of_nat rd" using rd(1) by (simp add: take_bit_of_nat take_bit_nat_eq_self)
  moreover have "(y AND NOT c) AND c = 0" for y c :: u32 by (simp add: and.assoc)
  ultimately have "push_bit 7 (of_nat rd) AND (0xfffff07f :: u32) = 0" using rd_field [of "of_nat rd"] by metis
  then show "w AND 0xfffff07f = 0xc0002073" unfolding rd(2) by (simp add: bit.conj_disj_distrib2)
qed

lemma cycle_csrs_reads:
  assumes "\<forall>i<length bs. m i = bs ! i"
  shows "cycle_csrs m (length bs) = map (\<lambda>k. kMemoryBase + of_nat (4 * k)) (cycle_reads bs)"
proof -
  let ?n = "length bs" and ?P = "\<lambda>k. 4 * k + 3 < length bs \<and> (ucast (le_load m (4 * k) 4) :: u32) AND 0xfffff07f = 0xc0002073"
  have "[0..<?n] = [0..<?n div 4] @ [?n div 4..<?n]" using upt_add_eq_append [of 0 "?n div 4" "?n - ?n div 4"] by simp
  moreover have "filter ?P [?n div 4..<?n] = []" by (auto simp: filter_empty_conv)
  moreover have "filter ?P [0..<?n div 4] = cycle_reads bs"
    unfolding cycle_reads_def
  proof (rule filter_cong [OF refl])
    fix k assume "k \<in> set [0..<?n div 4]"
    then have k: "4 * k + 3 < ?n" by auto
    have "le_load m (4 * k) 4 = le_load ((!) bs) (4 * k) 4" using assms k by (intro le_load_cong) auto
    with k show "?P k \<longleftrightarrow> reads_cycle (instr_at bs k)" by (simp add: instr_at_def reads_cycle_mask)
  qed
  ultimately show ?thesis unfolding cycle_csrs_def by simp
qed

text \<open>
  C30. A program of at most 1 MiB, written one hexadecimal byte per line, is loaded byte for byte with
  zeros behind it by both kinds of harness. When exactly four of its words are encodings of \<open>csrr rd, cycle\<close>, for any
  destination, the addresses of the third and the fourth become the markers of the measured window; any other
  number of them is an error.
\<close>

theorem program_image_roundtrip:
  assumes "length bs \<le> unat kMemoryBytes"
  defines "m \<equiv> \<lambda>i. if i < length bs then bs ! i else 0"
  shows "load_hex (Some (hex_dump bs)) h =
    (case cycle_reads bs of
       [_, _, a, b] \<Rightarrow> Inr (h\<lparr>g_memory := m, g_roi_start_pc := 0x80000000 + of_nat (4 * a), g_roi_end_pc := 0x80000000 + of_nat (4 * b)\<rparr>)
     | _ \<Rightarrow> Inl (Thrown ''unexpected csrr cycle count''))
    \<and> p_load_hex path (Some (hex_dump bs)) h = Inr (h\<lparr>g_memory := m\<rparr>, ''HEX_BYTES_LOADED='' @ dec (length bs) @ nl)"
proof -
  have "cycle_csrs m (length bs) = map (\<lambda>k. 0x80000000 + of_nat (4 * k)) (cycle_reads bs)"
    using cycle_csrs_reads [of bs m] by (simp add: m_def kMemoryBase_def)
  then show ?thesis using load_lines_dump [OF assms(1), folded m_def]
    by (auto simp: load_hex_def p_load_hex_def Let_def split: list.splits)
qed

text \<open>Four reads of the cycle counter into \<open>a5\<close>.\<close>

definition marker_image :: "u8 list" where
  "marker_image = [0xf3, 0x27, 0, 0xc0, 0xf3, 0x27, 0, 0xc0, 0xf3, 0x27, 0, 0xc0, 0xf3, 0x27, 0, 0xc0]"

lemma marker_reads: "cycle_reads marker_image = [0, 1, 2, 3]"
  by code_simp

theorem program_image_roundtrip_witness:
  "\<exists>h'. load_hex (Some (hex_dump marker_image)) (gol_init 7 0) = Inr h' \<and> g_memory h' 3 = 0xc0 \<and> g_memory h' 16 = 0
     \<and> g_roi_start_pc h' = 0x80000008 \<and> g_roi_end_pc h' = 0x8000000C"
proof -
  have "length marker_image \<le> unat kMemoryBytes" by (simp add: kMemoryBytes_def marker_image_def)
  from conjunct1 [OF program_image_roundtrip [OF this, of "gol_init 7 0" "''gol.hex''"]]
  show ?thesis by (simp add: marker_reads) (simp add: marker_image_def)
qed

section \<open>The memory port\<close>

lemma store_bytes_bounded:
  assumes "sorted ks"
  shows "store_bytes ks strobes data off m =
    (if \<exists>k\<in>set ks. bit strobes k \<and> unat kMemoryBytes \<le> off + k then Inl Out_of_bounds
     else Inr (p_store_bytes ks strobes data off m))"
  using assms
proof (induction ks arbitrary: m)
  case (Cons k ks)
  have none: "p_store_bytes ks strobes data off m' = m'" if "unat kMemoryBytes \<le> off + k" for m'
    using Cons.prems that by (cases ks) auto
  show ?case
  proof (cases "unat kMemoryBytes \<le> off + k")
    case True
    then show ?thesis using Cons none by auto
  next
    case False
    then show ?thesis using Cons by auto
  qed
qed simp

lemma store_bytes_eight:
  "store_bytes [0..<8] strobes data off m =
    (if \<exists>k<8. bit strobes k \<and> unat kMemoryBytes \<le> off + k then Inl Out_of_bounds
     else Inr (p_store_bytes [0..<8] strobes data off m))"
  using store_bytes_bounded [of "[0..<8]" strobes data off m] by (simp add: Bex_def)

lemma commit_write_value: "commit_write out h = Inr h' \<Longrightarrow> fst (p_commit_write out (h, t)) = h'"
  by (auto simp: commit_write_def p_commit_write_def store_bytes_eight bindR_Inr_iff not_less not_le split: if_splits)

text \<open>
  The harnesses of the cache and load-use models and the harness of the timed workload commit a
  write alike, with one exception: where a strobed byte lies behind the end of the memory, the former
  store past the array and the latter stops.
\<close>

theorem commit_write_agrees:
  "commit_write out h =
    (if axi_b_ready_o out \<and> write_address h \<noteq> kPayloadAddress \<and> write_address h \<noteq> kEventAddress
        \<and> ucast (write_address h) \<ge> kMemoryBase \<and> ucast (write_address h) < kMemoryBase + kMemoryBytes
        \<and> (\<exists>k<8. bit (write_strobes h) k
             \<and> unat kMemoryBytes \<le> unat (ucast (write_address h) - kMemoryBase :: u64) + k)
     then Inl Out_of_bounds
     else Inr (fst (p_commit_write out (h, txt_out))))"
  using store_bytes_eight by (auto simp: commit_write_def p_commit_write_def not_less not_le)

section \<open>Every run ends\<close>

text \<open>What the loop relies on: a tick counts one edge.\<close>

locale clocked =
  fixes base :: "'s \<Rightarrow> gol" and tick :: "'s \<Rightarrow> 's res"
  assumes tick_edge: "tick s = Inr s' \<Longrightarrow> edges (base s') = edges (base s) + 1"
    and tick_fault: "tick s = Inl e \<Longrightarrow> e = Out_of_bounds"
begin

lemma ticks_fault: "ticks tick n s = Inl e \<Longrightarrow> e = Out_of_bounds"
  by (induction n arbitrary: s) (auto simp: bindR_Inl_iff dest: tick_fault)

lemma until_done_fault: "until_done base tick n s = Inl e \<Longrightarrow> e = Out_of_bounds"
  by (induction n arbitrary: s) (auto simp: bindR_Inl_iff dest: tick_fault split: if_splits)

lemma ticks_edges: "ticks tick n s = Inr s' \<Longrightarrow> edges (base s') = edges (base s) + of_nat n"
proof (induction n arbitrary: s)
  case (Suc n)
  then obtain s1 where s1: "tick s = Inr s1" "ticks tick n s1 = Inr s'" by (auto simp: bindR_Inr_iff)
  from Suc.IH [OF s1(2)] tick_edge [OF s1(1)] show ?case by simp
qed simp

lemma until_done_edges:
  assumes "unat kWatchdogCycles \<le> unat (edges (base s)) + n" "edges (base s) \<le> kWatchdogCycles"
    and "until_done base tick n s = Inr s'"
  shows "(g_done (base s') \<or> edges (base s') = kWatchdogCycles) \<and> edges (base s') \<le> kWatchdogCycles"
  using assms
proof (induction n arbitrary: s)
  case 0
  then show ?case by (auto simp: word_le_nat_alt word_unat_eq_iff)
next
  case (Suc n)
  show ?case
  proof (cases "\<not> g_done (base s) \<and> edges (base s) < kWatchdogCycles")
    case True
    then obtain s1 where s1: "tick s = Inr s1" "until_done base tick n s1 = Inr s'"
      using Suc.prems(3) by (auto simp: bindR_Inr_iff)
    have lt: "unat (edges (base s)) < 10000000" using True by (simp add: word_less_nat_alt kWatchdogCycles_def)
    have e: "unat (edges (base s1)) = unat (edges (base s)) + 1"
      using tick_edge [OF s1(1)] unat_add_small [of "edges (base s)" 1] lt by simp
    show ?thesis
      using Suc.IH [OF _ _ s1(2)] Suc.prems(1) e lt by (simp add: word_le_nat_alt kWatchdogCycles_def)
  next
    case False
    then show ?thesis using Suc.prems(2,3) by auto
  qed
qed

text \<open>The loop after the reset, and the five clocks behind it.\<close>

lemma run_ends:
  assumes "edges (base s) = 5"
  shows "case bindR (until_done base tick (unat kWatchdogCycles) s) (ticks tick 5) of
      Inl e \<Rightarrow> e = Out_of_bounds
    | Inr s' \<Rightarrow> unat (edges (base s')) \<le> 10000005
        \<and> (\<exists>st. (g_done (base st) \<or> edges (base st) = kWatchdogCycles) \<and> ticks tick 5 st = Inr s')"
proof (cases "until_done base tick (unat kWatchdogCycles) s")
  case (Inl e)
  then show ?thesis using until_done_fault [OF Inl] by simp
next
  case u: (Inr st)
  have w: "(g_done (base st) \<or> edges (base st) = kWatchdogCycles) \<and> edges (base st) \<le> kWatchdogCycles"
    using until_done_edges [OF _ _ u] assms by (simp add: kWatchdogCycles_def)
  show ?thesis
  proof (cases "ticks tick 5 st")
    case (Inl e)
    then show ?thesis using ticks_fault [OF Inl] u by simp
  next
    case (Inr s')
    have "unat (edges (base st)) \<le> 10000000" using w by (simp add: word_le_nat_alt kWatchdogCycles_def)
    then have "unat (edges (base s')) \<le> 10000005"
      using ticks_edges [OF Inr] unat_add_small [of "edges (base st)" 5] by simp
    moreover have "\<exists>st. (g_done (base st) \<or> edges (base st) = kWatchdogCycles) \<and> ticks tick 5 st = Inr s'"
      using w Inr by blast
    ultimately show ?thesis using u Inr by simp
  qed
qed

end

lemma sample_trace_edges [simp]: "edges (sample_trace ph out h) = edges h"
  by (simp add: sample_trace_def)

lemma sample_counts_edges [simp]: "edges (sample_counts out h) = edges h"
  by (simp add: sample_counts_def)

lemma commit_write_edges: "commit_write out h = Inr h' \<Longrightarrow> edges h' = edges h"
  by (auto simp: commit_write_def commit_event_def Let_def bindR_Inr_iff split: if_splits)

lemma cache_observe_edges: "cache_observe out h = Inr h' \<Longrightarrow> edges h' = edges h"
  by (auto simp: cache_observe_def Let_def bindR_Inr_iff latch_bus_def dest!: commit_write_edges split: if_splits)

lemma lu_observe_edges: "lu_observe out (h, o_st) = Inr (h', o_st') \<Longrightarrow> edges h' = edges h"
  by (auto simp: lu_observe_def lu_sample_def Let_def bindR_Inr_iff latch_bus_def dest!: commit_write_edges split: if_splits)

lemma store_bytes_fault: "store_bytes ks strobes data off m = Inl e \<Longrightarrow> e = Out_of_bounds"
  by (induction ks arbitrary: m) (auto split: if_splits)

lemma commit_write_fault: "commit_write out h = Inl e \<Longrightarrow> e = Out_of_bounds"
  by (auto simp: commit_write_def bindR_Inl_iff dest: store_bytes_fault split: if_splits)

lemma observer_fault: "dependency_observer_sample x s = Inl e \<Longrightarrow> e = Out_of_bounds"
  by (auto simp: dependency_observer_sample_def bump_last_def Let_def bindR_Inl_iff split: if_splits)

lemma cache_observe_fault: "cache_observe out h = Inl e \<Longrightarrow> e = Out_of_bounds"
  by (auto simp: cache_observe_def Let_def bindR_Inl_iff dest: commit_write_fault split: if_splits)

lemma lu_observe_fault: "lu_observe out s = Inl e \<Longrightarrow> e = Out_of_bounds"
  by (cases s) (auto simp: lu_observe_def lu_sample_def Let_def bindR_Inl_iff split: if_splits
      dest: commit_write_fault observer_fault)

lemma gol_eval_edges [simp]: "edges (fst (gol_eval D h d)) = edges h"
  by (simp add: gol_eval_def g_drive_def Let_def)

lemma set_pins_edges [simp]: "edges (set_clk b h) = edges h" "edges (set_rstn b h) = edges h"
  by (simp_all add: set_clk_def set_rstn_def)

interpretation cache_clock: clocked fst "cache_tick D" for D :: "'d gol_dut"
proof unfold_locales
  fix s s' :: "gol \<times> 'd"
  assume a: "cache_tick D s = Inr s'"
  obtain h d h1 d1 where s: "s = (h, d)" and e1: "gol_eval D (set_clk True h) d = (h1, d1)" by (cases s) fastforce
  have "edges h1 = edges h" using e1 gol_eval_edges [of D "set_clk True h" d] by simp
  with a s e1 show "edges (fst s') = edges (fst s) + 1"
    by (auto simp: cache_tick_def Let_def bindR_Inr_iff dest!: cache_observe_edges)
next
  fix s :: "gol \<times> 'd" and e
  assume "cache_tick D s = Inl e"
  then show "e = Out_of_bounds"
    by (auto simp: cache_tick_def Let_def bindR_Inl_iff dest: cache_observe_fault split: prod.splits)
qed

lemma lu_tick_eq:
  "gol_eval D (set_clk True h) d = (h1, d1) \<Longrightarrow>
   lu_tick D ((h, o_st), d) = bindR (lu_observe (g_out D d1) (h1\<lparr>edges := edges h1 + 1\<rparr>, o_st))
     (\<lambda>(h, o_st). let (h, d) = gol_eval D (set_clk False h) d1 in Inr ((h, o_st), d))"
  by (simp add: lu_tick_def Let_def)

interpretation lu_clock: clocked "fst \<circ> fst" "lu_tick D" for D :: "'d gol_dut"
proof unfold_locales
  fix s s' :: "(gol \<times> dep_state) \<times> 'd"
  assume a: "lu_tick D s = Inr s'"
  obtain h o_st d h1 d1 where s: "s = ((h, o_st), d)" and e1: "gol_eval D (set_clk True h) d = (h1, d1)"
    by (cases s) fastforce
  have h1: "edges h1 = edges h" using e1 gol_eval_edges [of D "set_clk True h" d] by simp
  let ?r = "lu_observe (g_out D d1) (h1\<lparr>edges := edges h1 + 1\<rparr>, o_st)"
  note t = lu_tick_eq [OF e1, of o_st, folded s]
  obtain h2 o2 where r: "?r = Inr (h2, o2)" using a unfolding t by (cases ?r) auto
  have o: "s' = ((fst (gol_eval D (set_clk False h2) d1), o2), snd (gol_eval D (set_clk False h2) d1))"
    using a unfolding t r by (simp add: Let_def split_def)
  have "edges h2 = edges h + 1" using lu_observe_edges [OF r] h1 by simp
  moreover have "edges (fst (fst s')) = edges h2"
    using gol_eval_edges [of D "set_clk False h2" d1] o by simp
  ultimately show "edges ((fst \<circ> fst) s') = edges ((fst \<circ> fst) s) + 1" by (simp add: s)
next
  fix s :: "(gol \<times> dep_state) \<times> 'd" and e
  assume "lu_tick D s = Inl e"
  then show "e = Out_of_bounds"
    by (auto simp: lu_tick_def Let_def bindR_Inl_iff dest: lu_observe_fault split: prod.splits)
qed

lemma cache_run_ends:
  assumes "edges h = 0"
  shows "case cache_clocks D h d of
      Inl e \<Rightarrow> e = Out_of_bounds
    | Inr st' \<Rightarrow> unat (edges (fst st')) \<le> 10000005
        \<and> (\<exists>st. (g_done (fst st) \<or> edges (fst st) = kWatchdogCycles) \<and> ticks (cache_tick D) 5 st = Inr st')"
proof (cases "ticks (cache_tick D) 5 (gol_eval D (set_rstn False (set_clk False h)) d)")
  case (Inl e)
  then show ?thesis using cache_clock.ticks_fault [OF Inl] by (simp add: cache_clocks_def)
next
  case (Inr s2)
  obtain h2 d2 where s2: "s2 = (h2, d2)" by fastforce
  have "edges (fst (gol_eval D (set_rstn True h2) d2)) = 5"
    using cache_clock.ticks_edges [OF Inr] assms by (simp add: s2)
  from cache_clock.run_ends [OF this] Inr show ?thesis by (simp add: cache_clocks_def s2)
qed

lemma lu_run_ends:
  assumes "edges h = 0"
  shows "case lu_clocks D h o_st d of
      Inl e \<Rightarrow> e = Out_of_bounds
    | Inr st' \<Rightarrow> unat (edges (fst (fst st'))) \<le> 10000005
        \<and> (\<exists>st. (g_done (fst (fst st)) \<or> edges (fst (fst st)) = kWatchdogCycles) \<and> ticks (lu_tick D) 5 st = Inr st')"
proof -
  obtain h1 d1 where e1: "gol_eval D (set_rstn False (set_clk False h)) d = (h1, d1)" by fastforce
  have h1: "edges h1 = 0" using e1 gol_eval_edges [of D "set_rstn False (set_clk False h)" d] assms by simp
  show ?thesis
  proof (cases "ticks (lu_tick D) 5 ((h1, o_st), d1)")
    case (Inl e)
    then show ?thesis using lu_clock.ticks_fault [OF Inl] e1 by (simp add: lu_clocks_def)
  next
    case (Inr s2)
    obtain h2 o2 d2 where s2: "s2 = ((h2, o2), d2)" by (metis prod.exhaust)
    obtain h3 d3 where e3: "gol_eval D (set_rstn True h2) d2 = (h3, d3)" by fastforce
    have "edges h3 = 5"
      using lu_clock.ticks_edges [OF Inr] s2 h1 e3 gol_eval_edges [of D "set_rstn True h2" d2] by simp
    then show ?thesis
      using lu_clock.run_ends [of "((h3, o2), d3)" D, unfolded o_def] e1 Inr s2 e3 by (simp add: lu_clocks_def o_def)
  qed
qed

text \<open>
  C27. Whatever core is attached, a run of the cache harness and one of the load-use harness end: the loop
  is left when the core has reported its last event or after ten million edges, so that the run takes at
  most ten million and five edges; the only other outcome is a store outside the memory.
\<close>

theorem harness_run_ends:
  assumes "edges h = 0"
  shows "(case cache_clocks D h d of
      Inl e \<Rightarrow> e = Out_of_bounds
    | Inr st' \<Rightarrow> unat (edges (fst st')) \<le> 10000005
        \<and> (\<exists>st. (g_done (fst st) \<or> edges (fst st) = kWatchdogCycles) \<and> ticks (cache_tick D) 5 st = Inr st'))
   \<and> (case lu_clocks D h o_st d of
      Inl e \<Rightarrow> e = Out_of_bounds
    | Inr st' \<Rightarrow> unat (edges (fst (fst st'))) \<le> 10000005
        \<and> (\<exists>st. (g_done (fst (fst st)) \<or> edges (fst (fst st)) = kWatchdogCycles) \<and> ticks (lu_tick D) 5 st = Inr st'))"
  by (rule conjI [OF cache_run_ends [OF assms] lu_run_ends [OF assms]])

definition idle_out :: gol_out where
  "idle_out = \<lparr>axi_aw_valid_o = False, axi_aw_addr_o = 0, axi_w_valid_o = False, axi_w_data_o = 0, axi_w_strb_o = 0,
     axi_b_ready_o = False, axi_ar_valid_o = False, axi_ar_addr_o = 0, axi_r_ready_o = False,
     icache_access_event = False, icache_hit_event = False, icache_miss_event = False, icache_miss_stall = False,
     icache_total_stall = False, dcache_access_event = False, dcache_load_access_event = False,
     dcache_store_access_event = False, dcache_hit_event = False, dcache_miss_event = False, dcache_miss_stall = False,
     dcache_dirty_eviction_event = False, dcache_writeback_stall = False, dcache_total_stall = False,
     dcache_access_address = 0, dcache_access_wmask = 0, g_divider_stall = False, g_branch_recovery = False,
     g_dependency_stall = False, dependency_consumer_pc = 0, dependency_consumer_inst = 0, dependency_producer_rd = 0,
     dependency_producer_address = 0, exu_active = False, exu_pc = 0, exu_inst = 0\<rparr>"

text \<open>A core that does nothing: the harness waits for the watchdog.\<close>

definition idle_dut :: "unit gol_dut" where
  "idle_dut = \<lparr>g_eval = (\<lambda>_ d. d), g_out = (\<lambda>_. idle_out)\<rparr>"

theorem harness_run_ends_witness:
  "(case cache_clocks idle_dut (gol_init 7 0) () of
      Inl e \<Rightarrow> e = Out_of_bounds
    | Inr st' \<Rightarrow> unat (edges (fst st')) \<le> 10000005
        \<and> (\<exists>st. (g_done (fst st) \<or> edges (fst st) = kWatchdogCycles) \<and> ticks (cache_tick idle_dut) 5 st = Inr st'))
   \<and> (case lu_clocks idle_dut (gol_init 7 0) dep_state_init () of
      Inl e \<Rightarrow> e = Out_of_bounds
    | Inr st' \<Rightarrow> unat (edges (fst (fst st'))) \<le> 10000005
        \<and> (\<exists>st. (g_done (fst (fst st)) \<or> edges (fst (fst st)) = kWatchdogCycles) \<and> ticks (lu_tick idle_dut) 5 st = Inr st'))"
  by (rule harness_run_ends) (simp add: gol_init_def)

section \<open>The counters and the dependency observer\<close>

text \<open>The states of a run: the clocks, and the reset line in between. The number counts the clocks at which
  the core executes the start marker.\<close>

definition lu_mark :: "'d gol_dut \<Rightarrow> (gol \<times> dep_state) \<times> 'd \<Rightarrow> nat" where
  "lu_mark D st = (case st of ((h, _), d) \<Rightarrow>
     let out = g_out D (snd (gol_eval D (set_clk True h) d)) in of_bool (exu_active out \<and> exu_pc out = g_roi_start_pc h))"

inductive lu_reach :: "'d gol_dut \<Rightarrow> (gol \<times> dep_state) \<times> 'd \<Rightarrow> nat \<Rightarrow> (gol \<times> dep_state) \<times> 'd \<Rightarrow> bool"
  for D st0 where
  start: "lu_reach D st0 0 st0"
| level: "lu_reach D st0 k ((h, o_st), d) \<Longrightarrow> gol_eval D (set_rstn b (if c then set_clk False h else h)) d = (h', d')
    \<Longrightarrow> lu_reach D st0 k ((h', o_st), d')"
| clock: "lu_reach D st0 k st \<Longrightarrow> lu_tick D st = Inr st' \<Longrightarrow> lu_reach D st0 (k + lu_mark D st) st'"

lemma ticks_reach:
  "lu_reach D st0 k st \<Longrightarrow> ticks (lu_tick D) n st = Inr st' \<Longrightarrow> \<exists>k'. lu_reach D st0 k' st'"
proof (induction n arbitrary: k st)
  case (Suc n)
  then obtain s1 where "lu_tick D st = Inr s1" "ticks (lu_tick D) n s1 = Inr st'" by (auto simp: bindR_Inr_iff)
  then show ?case using Suc.IH lu_reach.clock [OF Suc.prems(1)] by blast
qed auto

lemma until_done_reach:
  "lu_reach D st0 k st \<Longrightarrow> until_done base (lu_tick D) n st = Inr st' \<Longrightarrow> \<exists>k'. lu_reach D st0 k' st'"
proof (induction n arbitrary: k st)
  case (Suc n)
  show ?case
  proof (cases "\<not> g_done (base st) \<and> edges (base st) < kWatchdogCycles")
    case True
    then obtain s1 where "lu_tick D st = Inr s1" "until_done base (lu_tick D) n s1 = Inr st'"
      using Suc.prems(2) by (auto simp: bindR_Inr_iff)
    then show ?thesis using Suc.IH lu_reach.clock [OF Suc.prems(1)] by blast
  next
    case False
    then show ?thesis using Suc.prems by auto
  qed
qed auto

text \<open>The states the harness judges are among them.\<close>

lemma lu_clocks_reach:
  assumes "lu_clocks D h o_st d = Inr st'"
  shows "\<exists>k. lu_reach D ((h, o_st), d) k st'"
proof -
  obtain h1 d1 where e1: "gol_eval D (set_rstn False (set_clk False h)) d = (h1, d1)" by fastforce
  have r1: "lu_reach D ((h, o_st), d) 0 ((h1, o_st), d1)"
    using lu_reach.level [OF lu_reach.start, where c = True and b = False] e1 by simp
  obtain s2 where t2: "ticks (lu_tick D) 5 ((h1, o_st), d1) = Inr s2"
    using assms e1 by (auto simp: lu_clocks_def bindR_Inr_iff)
  obtain h2 o2 d2 where s2: "s2 = ((h2, o2), d2)" by (metis prod.exhaust)
  obtain h3 d3 where e3: "gol_eval D (set_rstn True h2) d2 = (h3, d3)" by fastforce
  obtain k2 where "lu_reach D ((h, o_st), d) k2 ((h2, o2), d2)" using ticks_reach [OF r1 t2] s2 by blast
  then have r3: "lu_reach D ((h, o_st), d) k2 ((h3, o2), d3)"
    using lu_reach.level [where c = False and b = True] e3 by fastforce
  obtain s4 where t4: "until_done (fst \<circ> fst) (lu_tick D) (unat kWatchdogCycles) ((h3, o2), d3) = Inr s4"
      and t5: "ticks (lu_tick D) 5 s4 = Inr st'"
    using assms e1 t2 s2 e3 by (auto simp: lu_clocks_def bindR_Inr_iff)
  obtain k4 where "lu_reach D ((h, o_st), d) k4 s4" using until_done_reach [OF r3 t4] by blast
  from ticks_reach [OF this t5] show ?thesis .
qed

text \<open>What the counters and the observer have in common; before the first start marker nothing is counted.\<close>

definition category_sum :: "u64 list \<Rightarrow> u64" where
  "category_sum v = v ! 24 + v ! 25 + v ! 26 + v ! 27 + v ! 28 + v ! 29"

definition lu_agree :: "nat \<Rightarrow> gol \<times> dep_state \<Rightarrow> bool" where
  "lu_agree k s = (case s of (h, o_st) \<Rightarrow>
     dep_enabled o_st \<and> dep_inv o_st \<and> length (c_values h) = 34 \<and> dep_roi_active o_st = g_roi h
     \<and> c_cycles h = dep_roi_cycles o_st \<and> c_values h ! 27 = dep_sum (dep_episodes o_st)
     \<and> category_sum (c_values h) = c_cycles h
     \<and> (k = 0 \<longrightarrow> \<not> g_roi h \<and> c_cycles h = 0 \<and> c_values h ! 27 = 0))"

lemma commit_write_frame:
  "commit_write out h = Inr h' \<Longrightarrow> c_values h' = c_values h \<and> c_cycles h' = c_cycles h \<and> g_roi h' = g_roi h"
  by (auto simp: commit_write_def commit_event_def Let_def bindR_Inr_iff split: if_splits)

lemma latch_bus_frame [simp]:
  "c_values (latch_bus out h) = c_values h" "c_cycles (latch_bus out h) = c_cycles h" "g_roi (latch_bus out h) = g_roi h"
  by (simp_all add: latch_bus_def)

lemma sample_trace_frame [simp]:
  "c_values (sample_trace ph out h) = c_values h" "c_cycles (sample_trace ph out h) = c_cycles h"
  "g_roi (sample_trace ph out h) = g_roi h"
  by (simp_all add: sample_trace_def)

lemma gol_eval_frame [simp]:
  "c_values (fst (gol_eval D h d)) = c_values h" "c_cycles (fst (gol_eval D h d)) = c_cycles h"
  "g_roi (fst (gol_eval D h d)) = g_roi h" "g_roi_start_pc (fst (gol_eval D h d)) = g_roi_start_pc h"
  by (simp_all add: gol_eval_def g_drive_def Let_def)

lemma set_pins_frame [simp]:
  "c_values (set_clk b h) = c_values h" "c_cycles (set_clk b h) = c_cycles h" "g_roi (set_clk b h) = g_roi h"
  "g_roi_start_pc (set_clk b h) = g_roi_start_pc h"
  "c_values (set_rstn b h) = c_values h" "c_cycles (set_rstn b h) = c_cycles h" "g_roi (set_rstn b h) = g_roi h"
  by (simp_all add: set_clk_def set_rstn_def)

lemma length_bump [simp]: "length (bump e v) = length v"
  by (simp add: bump_def)

lemma length_fold_bump [simp]: "length (fold bump es v) = length v"
  by (induction es arbitrary: v) simp_all

lemma fold_bump_other: "j \<notin> fst ` set es \<Longrightarrow> fold bump es v ! j = v ! j"
  by (induction es arbitrary: v) (simp_all add: bump_def)

lemma sample_events_low: "fst ` set (sample_events out h) = {0..<24} \<union> {30, 31}"
proof -
  have "map fst (sample_events out h) = [0..<24] @ [30, 31]" by (simp add: sample_events_def upt_rec)
  then have "set (map fst (sample_events out h)) = set ([0..<24] @ [30, 31])" by (rule arg_cong)
  then show ?thesis by simp
qed

lemma sample_counts_category:
  assumes "g_roi h" "length (c_values h) = 34" "24 \<le> j" "j \<le> 29"
  shows "c_values (sample_counts out h) ! j = c_values h ! j + b2w (j = sample_category out)"
proof -
  have "sample_category out < 34" by (simp add: sample_category_def)
  then show ?thesis
    using assms fold_bump_other [of j "sample_events out h" "c_values h"] sample_events_low [of out h]
    by (auto simp: sample_counts_def bump_def nth_list_update)
qed

lemma sample_counts_sum:
  assumes "g_roi h" "length (c_values h) = 34"
  shows "category_sum (c_values (sample_counts out h)) = category_sum (c_values h) + 1"
proof -
  have "sample_category out \<in> {24, 25, 26, 27, 28, 29}" by (simp add: sample_category_def)
  then show ?thesis
    using sample_counts_category [OF assms, of _ out]
    by (auto simp: category_sum_def)
qed

lemma sample_counts_frame [simp]:
  "g_roi (sample_counts out h) = g_roi h" "length (c_values (sample_counts out h)) = length (c_values h)"
  by (simp_all add: sample_counts_def)

lemma exclusive_category: "exclusive_stall (observer_sample out) \<longleftrightarrow> sample_category out = 27"
  by (simp add: exclusive_stall_def observer_sample_def sample_category_def)

lemma lu_sample_agree:
  assumes "lu_agree k (h, o_st)" "lu_sample out (h, o_st) = Inr s'"
  shows "lu_agree k s'"
proof (cases "g_roi h")
  case False
  then show ?thesis using assms by (simp add: lu_sample_def)
next
  case True
  let ?o = "dependency_observer_cycle o_st"
  have a: "dep_enabled o_st" "dep_inv o_st" "length (c_values h) = 34" "dep_roi_active o_st" "k \<noteq> 0"
      "c_cycles h = dep_roi_cycles o_st" "c_values h ! 27 = dep_sum (dep_episodes o_st)" "category_sum (c_values h) = c_cycles h"
    using assms(1) True by (auto simp: lu_agree_def)
  have o: "dep_inv ?o" "dep_enabled ?o" "dep_roi_active ?o" "dep_roi_cycles ?o = dep_roi_cycles o_st + 1"
      "dep_episodes ?o = dep_episodes o_st"
    using a by (simp_all add: dependency_observer_cycle_def dep_inv_def)
  obtain t where t: "dependency_observer_sample (observer_sample out) ?o = Inr t" "dep_inv t"
      "dep_roi_cycles t = dep_roi_cycles ?o"
      "dep_sum (dep_episodes t) = dep_sum (dep_episodes ?o) + b2w (sample_category out = 27)"
    using sample_effect [OF o(1,2), of "observer_sample out"] o(3) by (auto simp: exclusive_category)
  have f: "dep_enabled t" "dep_roi_active t" using sample_shape [OF t(1)] o by auto
  have c: "c_cycles (sample_counts out h) = c_cycles h + 1" using True by (simp add: sample_counts_def)
  have s': "s' = (sample_counts out h, t)" using assms(2) t(1) True by (simp add: lu_sample_def)
  have v: "c_values (sample_counts out h) ! 27 = dep_sum (dep_episodes t)"
    using sample_counts_category [OF True a(3), of 27 out] t(4) a(7) o(5) by (simp add: eq_commute)
  show ?thesis
    using True a f t(2,3) o(4) c v sample_counts_sum [OF True a(3)] by (simp add: lu_agree_def s')
qed

lemma lu_start_agree:
  "lu_agree 0 (h, o_st) \<Longrightarrow> lu_agree 1 ((sample_trace ph out h)\<lparr>g_roi := True\<rparr>, dependency_observer_begin_roi o_st)"
  by (auto simp: lu_agree_def dep_roi_defs dep_inv_def dep_sum_def)

lemma lu_stop_agree:
  "lu_agree k (h, o_st) \<Longrightarrow> lu_agree k (h\<lparr>g_roi := False, roi_completed := True\<rparr>, dependency_observer_end_roi o_st)"
  by (auto simp: lu_agree_def dependency_observer_end_roi_def dep_inv_def)

lemma lu_agree_cong:
  assumes "c_values h' = c_values h" "c_cycles h' = c_cycles h" "g_roi h' = g_roi h"
  shows "lu_agree k (h', o_st) = lu_agree k (h, o_st)"
  by (simp add: lu_agree_def assms)

lemma lu_commit_agree:
  "lu_agree k (h, o_st) \<Longrightarrow> commit_write out h = Inr h' \<Longrightarrow> lu_agree k (latch_bus out h', o_st)"
  using commit_write_frame [of out h h'] lu_agree_cong [of "latch_bus out h'" h] by simp

lemma lu_observe_agree:
  assumes "lu_agree k (h, o_st)" "lu_observe out (h, o_st) = Inr s'"
    and "k + of_bool (exu_active out \<and> exu_pc out = g_roi_start_pc h) \<le> 1"
  shows "lu_agree (k + of_bool (exu_active out \<and> exu_pc out = g_roi_start_pc h)) s'"
proof -
  define st where "st \<longleftrightarrow> exu_active out \<and> exu_pc out = g_roi_start_pc h"
  define fin where "fin \<longleftrightarrow> exu_active out \<and> exu_pc out = g_roi_end_pc h"
  let ?first = "if st then Inr ((sample_trace ''PRE_ROI'' out h)\<lparr>g_roi := True\<rparr>, dependency_observer_begin_roi o_st)
      else lu_sample out (sample_trace (if g_roi h then ''ROI'' else ''PRE_ROI'') out h, o_st)"
  obtain h1 o1 where f: "?first = Inr (h1, o1)"
    using assms(2) by (auto simp: lu_observe_def st_def [symmetric] Let_def bindR_Inr_iff simp del: if_split)
  have t: "lu_agree k (sample_trace ph out h, o_st)" for ph
    using assms(1) lu_agree_cong [of "sample_trace ph out h" h] by simp
  have a1: "lu_agree (k + of_bool st) (h1, o1)"
  proof (cases st)
    case True
    with assms(3) have "k = 0" by (simp add: st_def)
    with True f assms(1) show ?thesis using lu_start_agree [of h o_st "''PRE_ROI''" out] by simp
  next
    case False
    with f have "lu_sample out (sample_trace (if g_roi h then ''ROI'' else ''PRE_ROI'') out h, o_st) = Inr (h1, o1)" by simp
    from lu_sample_agree [OF t this] show ?thesis using False by simp
  qed
  define h2 where "h2 = (if fin then h1\<lparr>g_roi := False, roi_completed := True\<rparr> else h1)"
  define o2 where "o2 = (if fin then dependency_observer_end_roi o1 else o1)"
  have a2: "lu_agree (k + of_bool st) (h2, o2)" using a1 lu_stop_agree [OF a1] by (simp add: h2_def o2_def)
  have "lu_observe out (h, o_st) = bindR (commit_write out h2) (\<lambda>h. Inr (latch_bus out h, o2))"
    using f by (simp add: lu_observe_def st_def [symmetric] fin_def [symmetric] Let_def h2_def o2_def)
  then have "bindR (commit_write out h2) (\<lambda>h. Inr (latch_bus out h, o2)) = Inr s'" using assms(2) by simp
  then obtain h3 where "commit_write out h2 = Inr h3" "s' = (latch_bus out h3, o2)" by (auto simp: bindR_Inr_iff)
  then show ?thesis using lu_commit_agree [OF a2] by (simp add: st_def)
qed

lemma lu_tick_agree:
  assumes "lu_agree k (fst st)" "lu_tick D st = Inr st'" "k + lu_mark D st \<le> 1"
  shows "lu_agree (k + lu_mark D st) (fst st')"
proof -
  obtain h o_st d where s: "st = ((h, o_st), d)" by (metis prod.exhaust)
  obtain h1 d1 where e1: "gol_eval D (set_clk True h) d = (h1, d1)" by fastforce
  let ?h = "h1\<lparr>edges := edges h1 + 1\<rparr>" and ?out = "g_out D d1"
  have fr: "c_values h1 = c_values h" "c_cycles h1 = c_cycles h" "g_roi h1 = g_roi h" "g_roi_start_pc h1 = g_roi_start_pc h"
    using gol_eval_frame [of D "set_clk True h" d] e1 by simp_all
  have m: "lu_mark D st = of_bool (exu_active ?out \<and> exu_pc ?out = g_roi_start_pc ?h)"
    by (simp add: lu_mark_def s e1 fr Let_def)
  have a: "lu_agree k (?h, o_st)" using assms(1) lu_agree_cong [of ?h h] fr by (simp add: s)
  let ?r = "lu_observe ?out (?h, o_st)"
  note t = lu_tick_eq [OF e1, of o_st, folded s]
  obtain h2 o2 where r: "?r = Inr (h2, o2)" using assms(2) unfolding t by (cases ?r) auto
  have "fst st' = (fst (gol_eval D (set_clk False h2) d1), o2)"
    using assms(2) unfolding t r by (auto simp: Let_def split_def)
  moreover have "lu_agree (k + lu_mark D st) (h2, o2)"
    using lu_observe_agree [OF a r] assms(3) by (simp add: m)
  ultimately show ?thesis using lu_agree_cong [of "fst (gol_eval D (set_clk False h2) d1)" h2] by simp
qed

lemma lu_reach_agree:
  assumes "lu_reach D st0 k st" "lu_agree 0 (fst st0)" "k \<le> 1"
  shows "lu_agree k (fst st)"
  using assms
proof (induction rule: lu_reach.induct)
  case (level k h o_st d b c h' d')
  have "c_values h' = c_values h" "c_cycles h' = c_cycles h" "g_roi h' = g_roi h"
    using gol_eval_frame [of D "set_rstn b (if c then set_clk False h else h)" d] level.hyps(2) by (simp_all split: if_splits)
  then show ?case using level.IH level.prems lu_agree_cong [of h' h] by simp
next
  case (clock k st st')
  then show ?case using lu_tick_agree [of k st D st'] by simp
qed simp

lemma load_hex_frame:
  "load_hex f h = Inr h' \<Longrightarrow> c_values h' = c_values h \<and> c_cycles h' = c_cycles h \<and> g_roi h' = g_roi h"
  by (auto simp: load_hex_def Let_def bindR_Inr_iff split: option.splits if_splits prod.splits)

lemma open_trace_frame:
  "open_trace co p h = Inr h' \<Longrightarrow> c_values h' = c_values h \<and> c_cycles h' = c_cycles h \<and> g_roi h' = g_roi h"
  by (auto simp: open_trace_def split: if_splits)

lemma lu_harness_agree:
  assumes "lu_harness env can_open hex ck cyc trace = Inr (h, o_st)"
    and "env ''DEPENDENCY_PROFILE_OUT'' = Some p" "p \<noteq> []"
  shows "lu_agree 0 (h, o_st)"
proof -
  let ?o = "dependency_observer_end_roi (dependency_observer_init (Some p) (env ''PERF_WORKLOAD'') dep_state_init)"
  obtain h1 where h1: "load_hex hex (gol_init ck cyc) = Inr h1" "open_trace can_open trace h1 = Inr h" "o_st = ?o"
    using assms by (auto simp: lu_harness_def Let_def bindR_Inr_iff)
  have "c_values h = replicate 34 0 \<and> c_cycles h = 0 \<and> \<not> g_roi h"
    using load_hex_frame [OF h1(1)] open_trace_frame [OF h1(2)] by (simp add: gol_init_def)
  then show ?thesis
    using assms(3) by (auto simp: h1(3) lu_agree_def dep_roi_defs dependency_observer_init_def dep_inv_def dep_sum_def category_sum_def Let_def)
qed

text \<open>
  C4. In a run of the load-use harness with the dependency report switched on, as long as the start marker
  has been executed at most once, the two instruments agree at every clock: the cycles the harness has
  counted are the cycles of the observer's profile, its exclusive dependency counter is the total of the
  observer's episodes, and its six exclusive categories add up to the cycles.
\<close>

theorem counters_agree_with_observer:
  assumes "lu_harness env can_open hex ck cyc trace = Inr (h0, o0)"
    and "env ''DEPENDENCY_PROFILE_OUT'' = Some p" "p \<noteq> []"
    and "lu_reach D ((h0, o0), d0) k ((h, o_st), d)" "k \<le> 1"
  shows "c_cycles h = dep_roi_cycles o_st
    \<and> c_values h ! 27 = tot_dependency (dep_count (dep_episodes o_st))
    \<and> c_values h ! 24 + c_values h ! 25 + c_values h ! 26 + c_values h ! 27 + c_values h ! 28 + c_values h ! 29 = c_cycles h"
proof -
  have "lu_agree 0 (fst ((h0, o0), d0))" using lu_harness_agree [OF assms(1-3)] by simp
  from lu_reach_agree [OF assms(4) this assms(5)] show ?thesis
    unfolding tot_dependency_sum by (auto simp: lu_agree_def category_sum_def)
qed

text \<open>A core that executes the start marker on its first clock and then waits for a dependency.\<close>

definition marker_dut :: "nat gol_dut" where
  "marker_dut = \<lparr>g_eval = (\<lambda>_ d. Suc d),
     g_out = (\<lambda>d. if d = 1 then idle_out\<lparr>exu_active := True, exu_pc := 0x80000008\<rparr>
                  else idle_out\<lparr>g_dependency_stall := True\<rparr>)\<rparr>"

lemma marker_csrs:
  "cycle_csrs (\<lambda>i. if i < length marker_image then marker_image ! i else 0) 16 = [0x80000000, 0x80000004, 0x80000008, 0x8000000C]"
  by code_simp

lemma marker_stall_tick:
  assumes "g_roi h" "length (c_values h) = 34" "dep_inv o_st" "d \<noteq> 0"
  shows "\<exists>h' o' d'. lu_tick marker_dut ((h, o_st), d) = Inr ((h', o'), d')
    \<and> c_cycles h' = c_cycles h + 1 \<and> c_values h' ! 27 = c_values h ! 27 + 1 \<and> lu_mark marker_dut ((h, o_st), d) = 0"
proof -
  define out where "out = idle_out\<lparr>g_dependency_stall := True\<rparr>"
  have o: "g_out marker_dut (Suc d) = out" "\<not> exu_active out" "\<not> axi_b_ready_o out" "sample_category out = 27"
    using assms(4) by (simp_all add: marker_dut_def out_def idle_out_def sample_category_def)
  obtain h1 where e1: "gol_eval marker_dut (set_clk True h) d = (h1, Suc d)" by (simp add: gol_eval_def marker_dut_def Let_def)
  have fr: "c_values h1 = c_values h" "c_cycles h1 = c_cycles h" "g_roi h1 = g_roi h"
    using gol_eval_frame [of marker_dut "set_clk True h" d] e1 by simp_all
  have "dep_inv (dependency_observer_cycle o_st)" using assms(3) by (simp add: dependency_observer_cycle_def dep_inv_def)
  then obtain t where t: "dependency_observer_sample (observer_sample out) (dependency_observer_cycle o_st) = Inr t"
    using sample_inv by blast
  define g where "g = sample_trace ''ROI'' out (h1\<lparr>edges := edges h1 + 1\<rparr>)"
  have g: "g_roi g" "c_cycles g = c_cycles h" "c_values g = c_values h" using fr assms(1) by (simp_all add: g_def)
  have "lu_observe out (h1\<lparr>edges := edges h1 + 1\<rparr>, o_st) = Inr (latch_bus out (sample_counts out g), t)"
    using o t g(1) fr assms(1) by (simp add: lu_observe_def lu_sample_def g_def [symmetric] commit_write_def Let_def)
  then have "lu_tick marker_dut ((h, o_st), d) =
      Inr ((fst (gol_eval marker_dut (set_clk False (latch_bus out (sample_counts out g))) (Suc d)), t),
           snd (gol_eval marker_dut (set_clk False (latch_bus out (sample_counts out g))) (Suc d)))"
    unfolding lu_tick_eq [OF e1] o(1) by (simp add: Let_def split_def)
  moreover have "c_cycles (sample_counts out g) = c_cycles h + 1" using g by (simp add: sample_counts_def)
  moreover have "c_values (sample_counts out g) ! 27 = c_values h ! 27 + 1"
    using sample_counts_category [of g 27 out] g assms(2) o(4) by simp
  moreover have "lu_mark marker_dut ((h, o_st), d) = 0" using e1 o by (simp add: lu_mark_def Let_def)
  ultimately show ?thesis by simp
qed

theorem counters_agree_with_observer_witness:
  "\<exists>h0 o0 h o_st d.
     lu_harness (\<lambda>v. if v = ''DEPENDENCY_PROFILE_OUT'' then Some ''dep.json'' else None) (\<lambda>_. True)
       (Some (hex_dump marker_image)) 7 0 [] = Inr (h0, o0)
     \<and> lu_reach marker_dut ((h0, o0), 0) 1 ((h, o_st), d)
     \<and> c_cycles h = 1 \<and> c_values h ! 27 = 1
     \<and> dep_roi_cycles o_st = 1 \<and> tot_dependency (dep_count (dep_episodes o_st)) = 1"
proof -
  let ?env = "\<lambda>v. if v = ''DEPENDENCY_PROFILE_OUT'' then Some ''dep.json'' else None"
  let ?m = "\<lambda>i. if i < length marker_image then marker_image ! i else 0"
  let ?o = "dependency_observer_end_roi (dependency_observer_init (Some ''dep.json'') None dep_state_init)"
  define h0 where "h0 = (gol_init 7 0)\<lparr>g_memory := ?m, g_roi_start_pc := 0x80000008, g_roi_end_pc := 0x8000000C\<rparr>"
  have len: "length marker_image = 16" by (simp add: marker_image_def)
  have lh: "lu_harness ?env (\<lambda>_. True) (Some (hex_dump marker_image)) 7 0 [] = Inr (h0, ?o)"
    using load_lines_dump [of marker_image "''invalid HEX''"] marker_csrs
    by (simp add: lu_harness_def load_hex_def h0_def open_trace_def len kMemoryBytes_def Let_def)
  have ag: "lu_agree 0 (h0, ?o)" by (rule lu_harness_agree [OF lh, where p = "''dep.json''"]) simp_all
  have m: "lu_mark marker_dut ((h0, ?o), 0) = 1"
    by (simp add: lu_mark_def marker_dut_def gol_eval_def h0_def Let_def)
  obtain h1 o1 where t1: "lu_tick marker_dut ((h0, ?o), 0) = Inr ((h1, o1), 2)"
      and v1: "g_roi h1" "c_cycles h1 = 0" "c_values h1 = replicate 34 0"
    by (simp add: lu_tick_def marker_dut_def gol_eval_def g_drive_def idle_out_def lu_observe_def
         h0_def gol_init_def set_clk_def commit_write_def latch_bus_def Let_def sample_trace_def)
  have "lu_agree 1 (h1, o1)" using lu_tick_agree [of 0 "((h0, ?o), 0)" marker_dut, OF _ t1] ag m by simp
  then have "dep_inv o1" by (simp add: lu_agree_def)
  then obtain h2 o2 d2 where t2: "lu_tick marker_dut ((h1, o1), 2) = Inr ((h2, o2), d2)" "lu_mark marker_dut ((h1, o1), 2) = 0"
      and v2: "c_cycles h2 = 1" "c_values h2 ! 27 = 1"
    using marker_stall_tick [of h1 o1 2] v1 by auto
  have r: "lu_reach marker_dut ((h0, ?o), 0) 1 ((h2, o2), d2)"
    using lu_reach.clock [OF lu_reach.clock [OF lu_reach.start t1] t2(1)] m t2(2) by simp
  from counters_agree_with_observer [OF lh _ _ r, of "''dep.json''"] v2 lh r show ?thesis by auto
qed

end
