(* ===== verification/Gol_Verdict.thy ===== *)
theory Gol_Verdict
  imports Gol_Correct
begin

text \<open>
  What the verdicts of the three profiling harnesses say about each other. The cache harness and the
  harness of the timed workload run the same bus and event protocol, so that the former reaches the states
  of the latter with counters added; the load-use harness accepts a run only when its counters, the
  dependency observer and the program's own measurement agree.
\<close>

section \<open>The bus side of a state\<close>

text \<open>A state of a profiling harness without its counters, its window and its trace: what is left are the
  members the harness of the timed workload has.\<close>

definition bus_view :: "gol \<Rightarrow> gol" where
  "bus_view h = h\<lparr>c_cycles := 0, c_values := [], g_roi_start_pc := 0, g_roi_end_pc := 0, trace_sequence := 0, g_roi := False,
     roi_completed := False, previous_icache_refill := False, previous_dcache_refill := False,
     previous_dcache_writeback := False, trace_open := False, trace_good := True, trace_text := []\<rparr>"

lemma bus_view_fields [simp]:
  "g_memory (bus_view h) = g_memory h" "g_events (bus_view h) = g_events h" "measured_cycles (bus_view h) = measured_cycles h"
  "g_checksum (bus_view h) = g_checksum h" "edges (bus_view h) = edges h" "g_done (bus_view h) = g_done h"
  "expected_cycles (bus_view h) = expected_cycles h" "expected_checksum (bus_view h) = expected_checksum h"
  "top_in (bus_view h) = top_in h" "read_address (bus_view h) = read_address h"
  by (simp_all add: bus_view_def)

text \<open>The two kinds of operations: those that only touch the instruments disappear in the view, those of
  the bus commute with it.\<close>

lemma bus_view_instruments [simp]:
  "bus_view (sample_trace ph out h) = bus_view h" "bus_view (sample_counts out h) = bus_view h"
  "bus_view (h\<lparr>g_roi := b\<rparr>) = bus_view h" "bus_view (h\<lparr>roi_completed := b\<rparr>) = bus_view h"
  by (simp_all add: bus_view_def sample_trace_def sample_counts_def)

lemma bus_view_pins:
  "bus_view (set_clk b h) = set_clk b (bus_view h)" "bus_view (set_rstn b h) = set_rstn b (bus_view h)"
  "bus_view (h\<lparr>edges := e\<rparr>) = (bus_view h)\<lparr>edges := e\<rparr>"
  by (simp_all add: bus_view_def set_clk_def set_rstn_def)

lemma bus_view_eval:
  "gol_eval D h d = (h', d') \<Longrightarrow> gol_eval D (bus_view h) d = (bus_view h', d')"
  by (auto simp: gol_eval_def g_drive_def read64_def bus_view_def Let_def)

lemma bus_view_commit:
  "bus_view (fst (p_commit_write out (h, t))) = fst (p_commit_write out (bus_view h, t'))"
  by (auto simp: p_commit_write_def commit_event_def Let_def bus_view_def)

text \<open>One clock of the cache harness is one clock of the harness of the timed workload.\<close>

lemma cache_observe_bus:
  assumes "cache_observe out h = Inr h'"
  shows "\<exists>g. bus_view g = bus_view h \<and> (\<exists>g'. commit_write out g = Inr g' \<and> h' = latch_bus out g')"
proof -
  let ?st = "exu_active out \<and> exu_pc out = g_roi_start_pc h"
  define g1 where "g1 = (if ?st then (sample_trace ''PRE_ROI'' out h)\<lparr>g_roi := True\<rparr>
     else sample_counts out (sample_trace (if g_roi h then ''ROI'' else ''PRE_ROI'') out h))"
  define g where "g = (if exu_active out \<and> exu_pc out = g_roi_end_pc h then g1\<lparr>g_roi := False, roi_completed := True\<rparr> else g1)"
  have "bus_view g = bus_view h" by (simp add: g_def g1_def)
  moreover have "cache_observe out h = bindR (commit_write out g) (\<lambda>h. Inr (latch_bus out h))"
    by (simp add: cache_observe_def g_def g1_def Let_def)
  moreover obtain g' where "commit_write out g = Inr g'" "h' = latch_bus out g'"
    using assms calculation(2) bindR_Inr_iff [of "commit_write out g" "\<lambda>h. Inr (latch_bus out h)" h'] by auto
  ultimately show ?thesis by blast
qed

lemma bus_view_latch:
  "bus_view (latch_bus out g) = (bus_view g)\<lparr>read_address := axi_ar_addr_o out, write_address := axi_aw_addr_o out,
     write_word := axi_w_data_o out, write_strobes := axi_w_strb_o out\<rparr>"
  by (simp add: bus_view_def latch_bus_def)

lemma same_bus_eval:
  assumes "bus_view g = bus_view h" "gol_eval D h d = (h', d')"
  shows "\<exists>g'. gol_eval D g d = (g', d') \<and> bus_view g' = bus_view h'"
proof -
  obtain g' e where g: "gol_eval D g d = (g', e)" by fastforce
  then show ?thesis using bus_view_eval [OF g] bus_view_eval [OF assms(2)] assms(1) by auto
qed

lemma cache_tick_simulates:
  assumes "bus_view g = bus_view h" "cache_tick D (h, d) = Inr (h', d')"
  shows "\<exists>g' t'. p_falling D (p_rising D ((g, t), d)) = ((g', t'), d') \<and> bus_view g' = bus_view h'"
proof -
  obtain h1 d1 where e1: "gol_eval D (set_clk True h) d = (h1, d1)" by fastforce
  let ?h = "h1\<lparr>edges := edges h1 + 1\<rparr>" and ?out = "g_out D d1"
  obtain h2 where o: "cache_observe ?out ?h = Inr h2" "gol_eval D (set_clk False h2) d1 = (h', d')"
    using assms e1 by (auto simp: cache_tick_def Let_def bindR_Inr_iff)
  obtain k k' where k: "bus_view k = bus_view ?h" "commit_write ?out k = Inr k'" "h2 = latch_bus ?out k'"
    using cache_observe_bus [OF o(1)] by blast
  obtain g1 where g1: "gol_eval D (set_clk True g) d = (g1, d1)" "bus_view g1 = bus_view h1"
    using same_bus_eval [OF _ e1, of "set_clk True g"] assms(1) by (auto simp: bus_view_pins)
  let ?g = "g1\<lparr>edges := edges g1 + 1\<rparr>"
  obtain c t' where c: "p_commit_write ?out (?g, t) = (c, t')" by fastforce
  have ed: "edges g1 = edges h1" using arg_cong [OF g1(2), of edges] by simp
  have "bus_view ?g = bus_view k" using k(1) g1(2) ed by (simp add: bus_view_pins)
  then have "bus_view c = bus_view k'"
    using c commit_write_value [OF k(2), of t] bus_view_commit [of ?out k t t] bus_view_commit [of ?out ?g t t] by simp
  define g2 where "g2 = c\<lparr>read_address := axi_ar_addr_o ?out, write_address := axi_aw_addr_o ?out,
     write_word := axi_w_data_o ?out, write_strobes := axi_w_strb_o ?out\<rparr>"
  have r: "p_rising D ((g, t), d) = ((g2, t'), d1)" using c g1(1) by (simp add: p_rising_def g2_def Let_def)
  have "bus_view g2 = (bus_view c)\<lparr>read_address := axi_ar_addr_o ?out, write_address := axi_aw_addr_o ?out,
     write_word := axi_w_data_o ?out, write_strobes := axi_w_strb_o ?out\<rparr>"
    by (simp add: g2_def bus_view_def)
  also have "\<dots> = bus_view h2" using \<open>bus_view c = bus_view k'\<close> by (simp add: k(3) bus_view_latch)
  finally obtain g' where "gol_eval D (set_clk False g2) d1 = (g', d')" "bus_view g' = bus_view h'"
    using same_bus_eval [OF _ o(2), of "set_clk False g2"] by (auto simp: bus_view_pins)
  then show ?thesis by (simp add: p_falling_def r)
qed

section \<open>Runs\<close>

lemma ticks_simulate:
  assumes "bus_view g = bus_view h" "ticks (cache_tick D) n (h, d) = Inr (h', d')"
  shows "\<exists>g' t'. ((p_falling D \<circ> p_rising D) ^^ n) ((g, t), d) = ((g', t'), d') \<and> bus_view g' = bus_view h'"
  using assms
proof (induction n arbitrary: g h t d)
  case (Suc n)
  then obtain h1 d1 where h1: "cache_tick D (h, d) = Inr (h1, d1)" "ticks (cache_tick D) n (h1, d1) = Inr (h', d')"
    by (auto simp: bindR_Inr_iff)
  obtain g1 t1 where g1: "p_falling D (p_rising D ((g, t), d)) = ((g1, t1), d1)" "bus_view g1 = bus_view h1"
    using cache_tick_simulates [OF Suc.prems(1) h1(1)] by blast
  from Suc.IH [OF g1(2) h1(2)] show ?case by (simp add: funpow_Suc_right g1(1) del: funpow.simps)
qed simp

lemma reset_simulates:
  assumes "bus_view g = bus_view h" "ticks (cache_tick D) n (h, d) = Inr (h', d')"
  shows "\<exists>g' t'. p_reset D n k ((g, t), d) = ((g', t'), d') \<and> bus_view g' = bus_view h'"
  using assms
proof (induction n arbitrary: g h t d k)
  case (Suc n)
  then obtain h1 d1 where h1: "cache_tick D (h, d) = Inr (h1, d1)" "ticks (cache_tick D) n (h1, d1) = Inr (h', d')"
    by (auto simp: bindR_Inr_iff)
  have swap: "p_falling D (p_print x st) = p_print x (p_falling D st)" for x st
    by (simp add: p_falling_def p_print_def split_def Let_def)
  obtain g1 t1 where g1: "p_falling D (p_rising D ((g, t), d)) = ((g1, t1), d1)" "bus_view g1 = bus_view h1"
    using cache_tick_simulates [OF Suc.prems(1) h1(1)] by blast
  have "p_falling D (p_print x (p_rising D ((g, t), d))) = ((g1, t1 @ x), d1)" for x
    unfolding swap g1(1) by (simp add: p_print_def)
  then show ?case using Suc.IH [OF g1(2) h1(2)] by simp
qed simp

lemma until_done_simulates:
  assumes "bus_view g = bus_view h" "until_done fst (cache_tick D) n (h, d) = Inr (h', d')"
  shows "\<exists>g' t'. p_until_done D n ((g, t), d) = ((g', t'), d') \<and> bus_view g' = bus_view h'"
  using assms
proof (induction n arbitrary: g h t d)
  case (Suc n)
  have same: "g_done g = g_done h" "edges g = edges h"
    using arg_cong [OF Suc.prems(1), of g_done] arg_cong [OF Suc.prems(1), of edges] by simp_all
  show ?case
  proof (cases "\<not> g_done h \<and> edges h < kWatchdogCycles")
    case True
    then obtain h1 d1 where h1: "cache_tick D (h, d) = Inr (h1, d1)"
        "until_done fst (cache_tick D) n (h1, d1) = Inr (h', d')"
      using Suc.prems(2) by (auto simp: bindR_Inr_iff)
    obtain g1 t1 where g1: "p_falling D (p_rising D ((g, t), d)) = ((g1, t1), d1)" "bus_view g1 = bus_view h1"
      using cache_tick_simulates [OF Suc.prems(1) h1(1)] by blast
    from Suc.IH [OF g1(2) h1(2)] show ?thesis using True same by (simp add: g1(1))
  next
    case False
    then show ?thesis using Suc.prems same by auto
  qed
qed simp

text \<open>The exit code of the harness of the timed workload, from the state in which the cache harness judges
  the same program: 1 when the watchdog ended the loop.\<close>

definition timed_code :: "gol \<Rightarrow> int" where
  "timed_code h = (if g_events h = [1, 2, 3, 4, 5, 6] \<and> (expected_cycles h = 0 \<or> measured_cycles h = expected_cycles h)
     \<and> g_checksum h = expected_checksum h then 0 else 2)"

lemma timed_code_view: "timed_code (bus_view h) = timed_code h"
  by (simp add: timed_code_def)

lemma timed_code_bus: "bus_view g = bus_view h \<Longrightarrow> timed_code g = timed_code h"
  using arg_cong [of "bus_view g" "bus_view h" timed_code] timed_code_view [of g] timed_code_view [of h] by simp

lemma cache_clocks_split:
  assumes "cache_clocks D h d = Inr (hc, dc)"
  obtains h1 d1 h2 d2 h3 d3 h4 d4 where
    "gol_eval D (set_rstn False (set_clk False h)) d = (h1, d1)" "ticks (cache_tick D) 5 (h1, d1) = Inr (h2, d2)"
    "gol_eval D (set_rstn True h2) d2 = (h3, d3)"
    "until_done fst (cache_tick D) (unat kWatchdogCycles) (h3, d3) = Inr (h4, d4)"
    "ticks (cache_tick D) 5 (h4, d4) = Inr (hc, dc)"
proof -
  obtain h1 d1 where e1: "gol_eval D (set_rstn False (set_clk False h)) d = (h1, d1)" by fastforce
  then obtain h2 d2 where t2: "ticks (cache_tick D) 5 (h1, d1) = Inr (h2, d2)"
    using assms by (auto simp: cache_clocks_def bindR_Inr_iff)
  obtain h3 d3 where e3: "gol_eval D (set_rstn True h2) d2 = (h3, d3)" by fastforce
  obtain h4 d4 where "until_done fst (cache_tick D) (unat kWatchdogCycles) (h3, d3) = Inr (h4, d4)"
      "ticks (cache_tick D) 5 (h4, d4) = Inr (hc, dc)"
    using assms e1 t2 e3 by (auto simp: cache_clocks_def bindR_Inr_iff)
  with that [OF e1 t2 e3] show thesis by blast
qed

text \<open>The expectations given on the command line stay what they are, and a program that is done stays done.\<close>

definition expectations :: "gol \<Rightarrow> u64 \<times> u64" where
  "expectations h = (expected_checksum h, expected_cycles h)"

lemma expectations_frame [simp]:
  "expectations (sample_trace ph out h) = expectations h" "expectations (sample_counts out h) = expectations h"
  "expectations (latch_bus out h) = expectations h" "expectations (fst (gol_eval D h d)) = expectations h"
  "expectations (set_clk b h) = expectations h" "expectations (set_rstn b h) = expectations h"
  "expectations (h\<lparr>g_roi := b\<rparr>) = expectations h" "expectations (h\<lparr>roi_completed := b\<rparr>) = expectations h"
  "expectations (h\<lparr>edges := e\<rparr>) = expectations h"
  by (simp_all add: expectations_def sample_trace_def sample_counts_def latch_bus_def gol_eval_def g_drive_def
      set_clk_def set_rstn_def Let_def)

definition keeps :: "gol \<Rightarrow> gol \<Rightarrow> bool" where
  "keeps h h' \<longleftrightarrow> expectations h' = expectations h \<and> (g_done h \<longrightarrow> g_done h')"

lemma keeps_refl [simp]: "keeps h h"
  by (simp add: keeps_def)

lemma keeps_trans [trans]: "keeps h h1 \<Longrightarrow> keeps h1 h2 \<Longrightarrow> keeps h h2"
  by (simp add: keeps_def)

lemma done_frame [simp]:
  "g_done (sample_trace ph out h) = g_done h" "g_done (sample_counts out h) = g_done h"
  "g_done (latch_bus out h) = g_done h" "g_done (fst (gol_eval D h d)) = g_done h"
  "g_done (set_clk b h) = g_done h" "g_done (set_rstn b h) = g_done h"
  by (simp_all add: sample_trace_def sample_counts_def latch_bus_def gol_eval_def g_drive_def set_clk_def set_rstn_def Let_def)

lemma commit_write_keeps: "commit_write out h = Inr h' \<Longrightarrow> keeps h h'"
  by (auto simp: keeps_def expectations_def commit_write_def commit_event_def Let_def bindR_Inr_iff split: if_splits)

lemma cache_observe_keeps: "cache_observe out h = Inr h' \<Longrightarrow> keeps h h'"
  by (auto simp: cache_observe_def Let_def bindR_Inr_iff keeps_def [of h] dest!: commit_write_keeps [unfolded keeps_def]
      split: if_splits)

lemma eval_keeps: "gol_eval D (set_clk b h) d = (h', d') \<Longrightarrow> keeps h h'" "gol_eval D (set_rstn b h) d = (h', d') \<Longrightarrow> keeps h h'"
  "gol_eval D (set_rstn b (set_clk c h)) d = (h', d') \<Longrightarrow> keeps h h'"
  using expectations_frame(4) [of D "set_clk b h" d] done_frame(4) [of D "set_clk b h" d]
    expectations_frame(4) [of D "set_rstn b h" d] done_frame(4) [of D "set_rstn b h" d]
    expectations_frame(4) [of D "set_rstn b (set_clk c h)" d] done_frame(4) [of D "set_rstn b (set_clk c h)" d]
  by (simp_all add: keeps_def)

lemma cache_tick_keeps:
  assumes "cache_tick D (h, d) = Inr (h', d')"
  shows "keeps h h'"
proof -
  obtain h1 d1 where e1: "gol_eval D (set_clk True h) d = (h1, d1)" by fastforce
  let ?h = "h1\<lparr>edges := edges h1 + 1\<rparr>"
  obtain h2 where o: "cache_observe (g_out D d1) ?h = Inr h2" "gol_eval D (set_clk False h2) d1 = (h', d')"
    using assms e1 by (auto simp: cache_tick_def Let_def bindR_Inr_iff)
  have "keeps h h1" by (rule eval_keeps(1) [OF e1])
  also have "keeps h1 ?h" by (simp add: keeps_def)
  also have "keeps ?h h2" by (rule cache_observe_keeps [OF o(1)])
  also have "keeps h2 h'" by (rule eval_keeps(1) [OF o(2)])
  finally show ?thesis .
qed

lemma ticks_keeps: "ticks (cache_tick D) n (h, d) = Inr (h', d') \<Longrightarrow> keeps h h'"
  by (induction n arbitrary: h d) (auto simp: bindR_Inr_iff intro: keeps_trans dest!: cache_tick_keeps)

lemma until_done_keeps: "until_done fst (cache_tick D) n (h, d) = Inr (h', d') \<Longrightarrow> keeps h h'"
  by (induction n arbitrary: h d) (auto simp: bindR_Inr_iff intro: keeps_trans dest!: cache_tick_keeps split: if_splits)

lemma cache_clocks_keeps:
  assumes "cache_clocks D h d = Inr (hc, dc)"
  shows "keeps h hc"
proof -
  obtain h1 d1 h2 d2 h3 d3 h4 d4 where
    s: "gol_eval D (set_rstn False (set_clk False h)) d = (h1, d1)" "ticks (cache_tick D) 5 (h1, d1) = Inr (h2, d2)"
      "gol_eval D (set_rstn True h2) d2 = (h3, d3)"
      "until_done fst (cache_tick D) (unat kWatchdogCycles) (h3, d3) = Inr (h4, d4)"
      "ticks (cache_tick D) 5 (h4, d4) = Inr (hc, dc)"
    by (rule cache_clocks_split [OF assms])
  note eval_keeps(3) [OF s(1)] also note ticks_keeps [OF s(2)] also note eval_keeps(2) [OF s(3)]
  also note until_done_keeps [OF s(4)] also note ticks_keeps [OF s(5)]
  finally show ?thesis .
qed

lemma p_run_simulates:
  assumes "bus_view g = bus_view h" "cache_clocks D h d = Inr (hc, dc)" "edges h = 0" "edges hc \<le> kWatchdogCycles"
  shows "fst (p_run D (g, t) d) = timed_code hc \<and> g_done hc"
proof -
  obtain h1 d1 h2 d2 h3 d3 h4 d4 where
    h: "gol_eval D (set_rstn False (set_clk False h)) d = (h1, d1)" "ticks (cache_tick D) 5 (h1, d1) = Inr (h2, d2)"
      "gol_eval D (set_rstn True h2) d2 = (h3, d3)"
      "until_done fst (cache_tick D) (unat kWatchdogCycles) (h3, d3) = Inr (h4, d4)"
      "ticks (cache_tick D) 5 (h4, d4) = Inr (hc, dc)"
    by (rule cache_clocks_split [OF assms(2)])
  have "edges h3 = 5"
    using gol_eval_edges [of D "set_rstn False (set_clk False h)" d] gol_eval_edges [of D "set_rstn True h2" d2]
      cache_clock.ticks_edges [OF h(2)] h(1,3) assms(3) by simp
  then have w: "g_done h4 \<or> edges h4 = kWatchdogCycles"
    using cache_clock.until_done_edges [OF _ _ h(4)] by (simp add: kWatchdogCycles_def)
  have "edges h4 \<noteq> kWatchdogCycles"
    using cache_clock.ticks_edges [OF h(5)] assms(4) by (auto simp: kWatchdogCycles_def)
  with w have "g_done h4" by simp
  obtain g1 where g1: "gol_eval D (set_rstn False (set_clk False g)) d = (g1, d1)" "bus_view g1 = bus_view h1"
    using same_bus_eval [OF _ h(1), of "set_rstn False (set_clk False g)"] assms(1) by (auto simp: bus_view_pins)
  obtain g2 t2 where g2: "p_reset D 5 1 ((g1, t), d1) = ((g2, t2), d2)" "bus_view g2 = bus_view h2"
    using reset_simulates [OF g1(2) h(2)] by blast
  obtain g3 where g3: "gol_eval D (set_rstn True g2) d2 = (g3, d3)" "bus_view g3 = bus_view h3"
    using same_bus_eval [OF _ h(3), of "set_rstn True g2"] g2(2) by (auto simp: bus_view_pins)
  let ?x = "t2 @ ''RESET_DEASSERT_AFTER_POSEDGE=5'' @ nl"
  obtain g4 t4 where g4: "p_until_done D (unat kWatchdogCycles) ((g3, ?x), d3) = ((g4, t4), d4)" "bus_view g4 = bus_view h4"
    using until_done_simulates [OF g3(2) h(4)] by blast
  obtain g5 t5 where g5: "((p_falling D \<circ> p_rising D) ^^ 5) ((g4, t4), d4) = ((g5, t5), dc)" "bus_view g5 = bus_view hc"
    using ticks_simulate [OF g4(2) h(5)] by blast
  have "g_done g4" using \<open>g_done h4\<close> arg_cong [OF g4(2), of g_done] by simp
  then have "fst (p_run D (g, t) d) = timed_code g5"
    using g1(1) g2(1) g3(1) g4(1) g5(1) by (simp add: p_run_def timed_code_def Let_def)
  then show ?thesis using timed_code_bus [OF g5(2)] ticks_keeps [OF h(5)] \<open>g_done h4\<close> by (simp add: keeps_def)
qed

text \<open>The two loaders accept the same files; only the messages differ.\<close>

lemma load_lines_message: "load_lines msg ls off m = Inr r \<Longrightarrow> load_lines msg' ls off m = Inr r"
  by (induction ls arbitrary: off m) (auto split: option.splits if_splits)

lemma cache_harness_loads:
  assumes "cache_harness can_open hex ck cyc trace = Inr h"
  shows "(\<exists>g t. p_load_hex path hex (gol_init ck cyc) = Inr (g, t) \<and> bus_view g = bus_view h)
    \<and> edges h = 0 \<and> expectations h = (ck, cyc)"
proof -
  obtain h1 where h1: "load_hex hex (gol_init ck cyc) = Inr h1" "open_trace can_open trace h1 = Inr h"
    using assms by (auto simp: cache_harness_def bindR_Inr_iff)
  obtain cs m off a b where l: "hex = Some cs" "load_lines ''invalid HEX'' (getlines cs) 0 (\<lambda>_. 0) = Inr (m, off)"
      "h1 = (gol_init ck cyc)\<lparr>g_memory := m, g_roi_start_pc := a, g_roi_end_pc := b\<rparr>"
    using h1(1) by (auto simp: load_hex_def Let_def bindR_Inr_iff split: option.splits if_splits)
  have "bus_view h = bus_view h1" "edges h = edges h1" "expectations h = expectations h1"
    using h1(2) by (auto simp: open_trace_def bus_view_def expectations_def split: if_splits)
  moreover have "p_load_hex path hex (gol_init ck cyc)
      = Inr ((gol_init ck cyc)\<lparr>g_memory := m\<rparr>, ''HEX_BYTES_LOADED='' @ dec off @ nl)"
    using load_lines_message [OF l(2)] l(1) by (simp add: p_load_hex_def)
  moreover have "bus_view ((gol_init ck cyc)\<lparr>g_memory := m\<rparr>) = bus_view h1"
    unfolding l(3) by (simp add: bus_view_def gol_init_def)
  ultimately show ?thesis unfolding l(3) by (simp add: gol_init_def expectations_def)
qed

text \<open>
  C9. The cache harness and the harness of the timed workload judge a program alike. Given the same
  image, expected checksum and expected number of cycles (not zero) on their command lines, and a run
  that the cache harness finishes before the watchdog, the timed harness exits with 0 exactly when
  the six events came in order with the expected cycles and checksum, and with 2 otherwise; and the cache
  harness exits with 0 exactly when the timed one does and its own counters satisfy their identities and
  agree with the program's measurement.
\<close>

theorem timed_harness_agrees:
  assumes "stoull0 cks = Inr ck" "stoull0 cycs = Inr cyc" "cyc \<noteq> 0"
    and "cache_harness can_open (files hex) ck cyc trace = Inr h"
    and "cache_clocks D h d = Inr (hc, dc)" "edges hc \<le> kWatchdogCycles"
  shows "fst (p_main D d files [hex, cks, cycs]) =
      (if g_events hc = [1, 2, 3, 4, 5, 6] \<and> measured_cycles hc = cyc \<and> g_checksum hc = ck then 0 else 2)
    \<and> (\<exists>r. cache_run D h d = Inr r \<and>
         (gr_code r = 0 \<longleftrightarrow> fst (p_main D d files [hex, cks, cycs]) = 0
            \<and> gol_counter_invariants (c_values hc) \<and> c_cycles hc = measured_cycles hc))"
proof -
  obtain g t where g: "p_load_hex hex (files hex) (gol_init ck cyc) = Inr (g, t)" "bus_view g = bus_view h"
      and h: "edges h = 0" "expectations h = (ck, cyc)"
    using cache_harness_loads [OF assms(4)] by blast
  have e: "expected_checksum hc = ck" "expected_cycles hc = cyc"
    using cache_clocks_keeps [OF assms(5)] h(2) by (simp_all add: keeps_def expectations_def)
  have "fst (p_main D d files [hex, cks, cycs]) = fst (p_run D (g, t) d)"
    using assms(1,2) g(1) by (simp add: p_main_def)
  then have p: "fst (p_main D d files [hex, cks, cycs]) = timed_code hc" and dn: "g_done hc"
    using p_run_simulates [OF g(2) assms(5) h(1) assms(6)] by simp_all
  show ?thesis unfolding p using assms(3,5) e dn by (simp add: timed_code_def cache_run_def Let_def)
qed

text \<open>A core that runs a whole program: the markers around one dependency stall, then the six events.\<close>

definition golden_write :: "nat \<Rightarrow> u32 \<times> u64" where
  "golden_write d =
     (if d = 19 then (kEventAddress, 1) else if d = 21 then (kEventAddress, 2) else if d = 23 then (kEventAddress, 3)
      else if d = 25 then (kPayloadAddress, 2) else if d = 27 then (kEventAddress, 4)
      else if d = 29 then (kPayloadAddress, 7) else if d = 31 then (kEventAddress, 5)
      else if d = 33 then (kEventAddress, 6) else (0, 0))"

definition golden_dut :: "nat gol_dut" where
  "golden_dut = \<lparr>g_eval = (\<lambda>_ d. Suc d),
     g_out = (\<lambda>d. idle_out\<lparr>axi_b_ready_o := True, axi_aw_addr_o := fst (golden_write d), axi_w_data_o := snd (golden_write d),
       exu_active := (d = 13 \<or> d = 17), exu_pc := (if d = 13 then 0x80000008 else 0x8000000C), g_dependency_stall := (d = 15)\<rparr>)\<rparr>"

definition golden_start :: gol where
  "golden_start = (gol_init 7 2)\<lparr>g_memory := \<lambda>i. if i < length marker_image then marker_image ! i else 0,
     g_roi_start_pc := 0x80000008, g_roi_end_pc := 0x8000000C\<rparr>"

lemma until_done_more:
  "until_done base tick k s = Inr s' \<Longrightarrow> g_done (base s') \<Longrightarrow> k \<le> n \<Longrightarrow> until_done base tick n s = Inr s'"
proof (induction k arbitrary: n s)
  case 0
  then show ?case by (cases n) auto
next
  case (Suc k)
  then obtain m where "n = Suc m" "k \<le> m" by (cases n) auto
  with Suc show ?case by (auto simp: bindR_Inr_iff split: if_splits)
qed

text \<open>The run with a smaller bound on the loop, for kernel evaluation.\<close>

definition short_clocks :: "nat \<Rightarrow> 'd gol_dut \<Rightarrow> gol \<Rightarrow> 'd \<Rightarrow> (gol \<times> 'd) res" where
  "short_clocks k D h d =
     bindR (ticks (cache_tick D) 5 (gol_eval D (set_rstn False (set_clk False h)) d)) (\<lambda>(h, d).
     bindR (until_done fst (cache_tick D) k (gol_eval D (set_rstn True h) d)) (\<lambda>st.
       if g_done (fst st) then ticks (cache_tick D) 5 st else Inl Out_of_bounds))"

lemma short_clocks_run:
  assumes "short_clocks k D h d = Inr r" "k \<le> 10000000"
  shows "cache_clocks D h d = Inr r"
  using assms until_done_more [of fst "cache_tick D" k _ _ "unat kWatchdogCycles"]
  by (auto simp: short_clocks_def cache_clocks_def bindR_Inr_iff kWatchdogCycles_def split: if_splits)

lemma golden_run:
  "case short_clocks 12 golden_dut golden_start 0 of
     Inl _ \<Rightarrow> False
   | Inr (h, d) \<Rightarrow> g_events h = [1, 2, 3, 4, 5, 6] \<and> edges h = 22 \<and> measured_cycles h = 2 \<and> g_checksum h = 7
       \<and> c_cycles h = 2 \<and> gol_counter_invariants (c_values h)"
  by code_simp

lemma golden_harness:
  "cache_harness can_open (Some (hex_dump marker_image)) 7 2 [] = Inr golden_start"
proof -
  have "length marker_image = 16" by (simp add: marker_image_def)
  then show ?thesis
    using load_lines_dump [of marker_image "''invalid HEX''"] marker_csrs
    by (simp add: cache_harness_def load_hex_def golden_start_def open_trace_def kMemoryBytes_def Let_def)
qed

lemma stoull0_dec: "n < 2 ^ 64 \<Longrightarrow> stoull0 (dec n) = Inr (of_nat n)"
  by (simp add: stoull0_def skip_sign_dec base0_value_dec base0_rest_dec strtoul0_dec)

theorem timed_harness_agrees_witness:
  "\<exists>r. cache_run golden_dut golden_start 0 = Inr r \<and> gr_code r = 0
     \<and> fst (p_main golden_dut 0 (\<lambda>_. Some (hex_dump marker_image)) [''gol.hex'', dec 7, dec 2]) = 0"
proof -
  obtain h d where g: "short_clocks 12 golden_dut golden_start 0 = Inr (h, d)" "g_events h = [1, 2, 3, 4, 5, 6]" "edges h = 22"
      "measured_cycles h = 2" "g_checksum h = 7" "c_cycles h = 2" "gol_counter_invariants (c_values h)"
    using golden_run by (auto split: sum.splits)
  have c: "cache_clocks golden_dut golden_start 0 = Inr (h, d)" using short_clocks_run [OF g(1)] by simp
  have a: "stoull0 (dec 7) = Inr 7" "stoull0 (dec 2) = Inr 2" by (simp_all add: stoull0_dec)
  have "edges h \<le> kWatchdogCycles" by (simp add: g(3) kWatchdogCycles_def)
  from timed_harness_agrees [where files = "\<lambda>_. Some (hex_dump marker_image)", OF a(1) a(2) _ golden_harness c this, of "''gol.hex''"]
  show ?thesis using g by auto
qed

section \<open>The verdict of the load-use harness\<close>

text \<open>
  C10. When the load-use harness, with the dependency report switched on, accepts a run in which the start
  marker was executed at most once, then all instruments agree with the program's own measurement: the
  cycles the program read from its counter are the sampled cycles, the cycles of the observer's profile
  and the sum of the six exclusive categories; the exclusive dependency cycles are the observer's total;
  the load episodes are the hits and the misses; and the report that was written is the one of this state
  with exit status 0.
\<close>

theorem loaduse_verdict:
  assumes "lu_harness env can_open hex ck cyc trace = Inr (h0, o0)"
    and "env ''DEPENDENCY_PROFILE_OUT'' = Some p" "p \<noteq> []"
    and "lu_clocks D h0 o0 d0 = Inr ((h, o_st), d)" "lu_reach D ((h0, o0), d0) k ((h, o_st), d)" "k \<le> 1"
    and "lu_run D can_open h0 o0 d0 = Inr (r, report)" "gr_code r = 0"
  shows "measured_cycles h = c_cycles h \<and> dep_roi_cycles o_st = c_cycles h
    \<and> c_values h ! 24 + c_values h ! 25 + c_values h ! 26 + c_values h ! 27 + c_values h ! 28 + c_values h ! 29 = measured_cycles h
    \<and> c_values h ! 27 = tot_dependency (dep_count (dep_episodes o_st))
    \<and> tot_load_n (dep_count (dep_episodes o_st)) = tot_hit_n (dep_count (dep_episodes o_st)) + tot_miss_n (dep_count (dep_episodes o_st))
    \<and> g_events h = [1, 2, 3, 4, 5, 6] \<and> g_checksum h = expected_checksum h
    \<and> report = Some (dep_report o_st 0)"
proof -
  have "lu_agree 0 (fst ((h0, o0), d0))" using lu_harness_agree [OF assms(1-3)] by simp
  from lu_reach_agree [OF assms(5) this assms(6)] have a: "dep_enabled o_st" "c_cycles h = dep_roi_cycles o_st"
      "c_values h ! 27 = dep_sum (dep_episodes o_st)" "category_sum (c_values h) = c_cycles h"
    by (simp_all add: lu_agree_def)
  let ?t = "dep_count (dep_episodes o_st)"
  have v: "g_events h = [1, 2, 3, 4, 5, 6]" "g_checksum h = expected_checksum h" "c_cycles h = measured_cycles h"
      "dependency_observer_finalize can_open o_st 0 = (0, report)"
    using assms(4,7,8) by (auto simp: lu_run_def Let_def split: if_splits prod.splits)
  then have f: "report = Some (dep_report o_st 0)" "tot_unresolved ?t = 0"
    using a(1) by (auto simp: dependency_observer_finalize_def split: if_splits)
  show ?thesis
    using a v(1-3) f dep_count_partition(3) [of "dep_episodes o_st"] unfolding tot_dependency_sum category_sum_def by simp
qed

definition lu_short_clocks :: "nat \<Rightarrow> 'd gol_dut \<Rightarrow> gol \<Rightarrow> dep_state \<Rightarrow> 'd \<Rightarrow> ((gol \<times> dep_state) \<times> 'd) res" where
  "lu_short_clocks k D h o_st d =
     (let (h, d) = gol_eval D (set_rstn False (set_clk False h)) d in
      bindR (ticks (lu_tick D) 5 ((h, o_st), d)) (\<lambda>((h, o_st), d).
      let (h, d) = gol_eval D (set_rstn True h) d in
      bindR (until_done (fst \<circ> fst) (lu_tick D) k ((h, o_st), d)) (\<lambda>st.
        if g_done (fst (fst st)) then ticks (lu_tick D) 5 st else Inl Out_of_bounds)))"

lemma lu_short_clocks_run:
  assumes "lu_short_clocks k D h o_st d = Inr r" "k \<le> 10000000"
  shows "lu_clocks D h o_st d = Inr r"
proof -
  obtain h1 d1 where e1: "gol_eval D (set_rstn False (set_clk False h)) d = (h1, d1)" by fastforce
  then obtain h2 o2 d2 where t2: "ticks (lu_tick D) 5 ((h1, o_st), d1) = Inr ((h2, o2), d2)"
    using assms(1) by (auto simp: lu_short_clocks_def bindR_Inr_iff)
  obtain h3 d3 where e3: "gol_eval D (set_rstn True h2) d2 = (h3, d3)" by fastforce
  obtain s4 where "until_done (fst \<circ> fst) (lu_tick D) k ((h3, o2), d3) = Inr s4" "g_done (fst (fst s4))"
      "ticks (lu_tick D) 5 s4 = Inr r"
    using assms(1) e1 t2 e3 by (auto simp: lu_short_clocks_def bindR_Inr_iff split: if_splits)
  then show ?thesis
    using until_done_more [of "fst \<circ> fst" "lu_tick D" k _ s4 "unat kWatchdogCycles"] assms(2) e1 t2 e3
    by (simp add: lu_clocks_def kWatchdogCycles_def)
qed

definition golden_observer :: dep_state where
  "golden_observer = dependency_observer_end_roi (dependency_observer_init (Some ''dep.json'') None dep_state_init)"

lemma golden_lu_run:
  "case lu_short_clocks 12 golden_dut golden_start golden_observer 0 of
     Inl _ \<Rightarrow> False
   | Inr ((h, o_st), d) \<Rightarrow> g_done h \<and> g_events h = [1, 2, 3, 4, 5, 6] \<and> measured_cycles h = 2 \<and> g_checksum h = 7
       \<and> expected_checksum h = 7 \<and> expected_cycles h = 2
       \<and> c_cycles h = 2 \<and> gol_counter_invariants (c_values h) \<and> dep_enabled o_st \<and> dep_roi_valid o_st
       \<and> tot_unresolved (dep_count (dep_episodes o_st)) = 0 \<and> tot_dependency (dep_count (dep_episodes o_st)) = 1"
  by code_simp

text \<open>Its start marker is executed once, at the thirteenth evaluation.\<close>

lemma start_pc_frame [simp]:
  "g_roi_start_pc (sample_trace ph out h) = g_roi_start_pc h" "g_roi_start_pc (sample_counts out h) = g_roi_start_pc h"
  "g_roi_start_pc (latch_bus out h) = g_roi_start_pc h" "g_roi_start_pc (set_rstn b h) = g_roi_start_pc h"
  by (simp_all add: sample_trace_def sample_counts_def latch_bus_def set_rstn_def)

lemma commit_write_start_pc: "commit_write out h = Inr h' \<Longrightarrow> g_roi_start_pc h' = g_roi_start_pc h"
  by (auto simp: commit_write_def commit_event_def Let_def bindR_Inr_iff split: if_splits)

lemma lu_observe_start_pc: "lu_observe out (h, o_st) = Inr (h', o_st') \<Longrightarrow> g_roi_start_pc h' = g_roi_start_pc h"
  by (auto simp: lu_observe_def lu_sample_def Let_def bindR_Inr_iff dest!: commit_write_start_pc split: if_splits)

lemma golden_eval [simp]: "snd (gol_eval golden_dut h d) = Suc d"
  by (simp add: gol_eval_def golden_dut_def Let_def)

lemma golden_tick:
  assumes "lu_tick golden_dut ((h, o_st), d) = Inr ((h', o_st'), d')"
  shows "g_roi_start_pc h' = g_roi_start_pc h \<and> d' = Suc (Suc d)"
proof -
  obtain h1 where e1: "gol_eval golden_dut (set_clk True h) d = (h1, Suc d)" using golden_eval [of "set_clk True h" d] by (metis prod.collapse)
  let ?r = "lu_observe (g_out golden_dut (Suc d)) (h1\<lparr>edges := edges h1 + 1\<rparr>, o_st)"
  note t = lu_tick_eq [OF e1, of o_st]
  obtain h2 o2 where r: "?r = Inr (h2, o2)" using assms unfolding t by (cases ?r) auto
  have "h' = fst (gol_eval golden_dut (set_clk False h2) (Suc d))" "d' = snd (gol_eval golden_dut (set_clk False h2) (Suc d))"
    using assms unfolding t r by (simp_all add: Let_def split_def)
  moreover have "g_roi_start_pc h1 = g_roi_start_pc h" using gol_eval_frame [of golden_dut "set_clk True h" d] e1 by simp
  ultimately show ?thesis using lu_observe_start_pc [OF r] by simp
qed

lemma golden_marks_once:
  assumes "lu_reach golden_dut ((golden_start, o0), 0) k st"
  shows "g_roi_start_pc (fst (fst st)) = 0x80000008 \<and> (k = 0 \<or> k = 1 \<and> 13 \<le> snd st)"
  using assms
proof (induction rule: lu_reach.induct)
  case start
  show ?case by (simp add: golden_start_def)
next
  case (level k h o_st d b c h' d')
  then have "d' = Suc d" "g_roi_start_pc h' = g_roi_start_pc h"
    by (auto simp: gol_eval_def golden_dut_def g_drive_def set_rstn_def set_clk_def Let_def)
  then show ?case using level.IH by auto
next
  case (clock k st st')
  obtain h o_st d h' o' d' where s: "st = ((h, o_st), d)" "st' = ((h', o'), d')" by (metis prod.exhaust)
  have t: "g_roi_start_pc h' = g_roi_start_pc h" "d' = Suc (Suc d)" using golden_tick clock.hyps(2) s by blast+
  have "lu_mark golden_dut st = of_bool (d = 12)"
    using clock.IH by (simp add: lu_mark_def s gol_eval_def golden_dut_def Let_def)
  then show ?case using clock.IH t by (auto simp: s)
qed

theorem loaduse_verdict_witness:
  "\<exists>h o_st d r.
     lu_harness (\<lambda>v. if v = ''DEPENDENCY_PROFILE_OUT'' then Some ''dep.json'' else None) (\<lambda>_. True)
       (Some (hex_dump marker_image)) 7 2 [] = Inr (golden_start, golden_observer)
     \<and> lu_clocks golden_dut golden_start golden_observer 0 = Inr ((h, o_st), d)
     \<and> lu_run golden_dut (\<lambda>_. True) golden_start golden_observer 0 = Inr (r, Some (dep_report o_st 0)) \<and> gr_code r = 0
     \<and> dep_roi_cycles o_st = 2 \<and> c_values h ! 27 = 1"
proof -
  let ?env = "\<lambda>v. if v = ''DEPENDENCY_PROFILE_OUT'' then Some ''dep.json'' else None"
  have lh: "lu_harness ?env (\<lambda>_. True) (Some (hex_dump marker_image)) 7 2 [] = Inr (golden_start, golden_observer)"
    using golden_harness [of "\<lambda>_. True"]
    by (auto simp: lu_harness_def cache_harness_def bindR_Inr_iff golden_observer_def Let_def)
  obtain h o_st d where g: "lu_short_clocks 12 golden_dut golden_start golden_observer 0 = Inr ((h, o_st), d)"
      "g_done h" "g_events h = [1, 2, 3, 4, 5, 6]" "measured_cycles h = 2" "g_checksum h = 7" "expected_checksum h = 7"
      "expected_cycles h = 2" "c_cycles h = 2" "gol_counter_invariants (c_values h)" "dep_enabled o_st" "dep_roi_valid o_st"
      "tot_unresolved (dep_count (dep_episodes o_st)) = 0" "tot_dependency (dep_count (dep_episodes o_st)) = 1"
    using golden_lu_run by (auto split: sum.splits)
  have c: "lu_clocks golden_dut golden_start golden_observer 0 = Inr ((h, o_st), d)" using lu_short_clocks_run [OF g(1)] by simp
  obtain k where k: "lu_reach golden_dut ((golden_start, golden_observer), 0) k ((h, o_st), d)" using lu_clocks_reach [OF c] by blast
  have "k \<le> 1" using golden_marks_once [OF k] by auto
  have "dependency_observer_finalize (\<lambda>_. True) o_st 0 = (0, Some (dep_report o_st 0))"
    using g by (simp add: dependency_observer_finalize_def)
  then obtain r where r: "lu_run golden_dut (\<lambda>_. True) golden_start golden_observer 0 = Inr (r, Some (dep_report o_st 0))" "gr_code r = 0"
    using c g by (simp add: lu_run_def Let_def)
  from loaduse_verdict [OF lh _ _ c k \<open>k \<le> 1\<close> r, of "''dep.json''"] lh c r g show ?thesis by auto
qed

end
