(* ===== verification/Spec2Isabelle.thy ===== *)
theory Spec2Isabelle
  imports Phys_Mem Watchpoint Expr_Correct Regex_Rules Macros Sim_Core Elf_Symbols Sdb Npc_Main Dep_Observer Cache_Observer
    Perf_Observer Json_Text Mmio Axi_Burst Axi_Safe Axi_Complete Divider_Tb Intr_Tb Itrace Gol_Correct Gol_Verdict
begin

text \<open>
  A verification library for the C++ code of the RV64IM in-order core: the simulator that clocks the
  core, compares it with a reference and debugs it, the observers that profile it, the bus and device
  models, and the test benches and profiling harnesses.

  \<^bold>\<open>The program.\<close> The core itself is SystemVerilog; Verilator turns it into a C++ class. The simulator
  (\<open>src/sim/csrc\<close>) loads an image into a byte array, clocks the core, serves its memory accesses through
  DPI callbacks, after every retired instruction steps a reference simulator and compares the registers,
  and offers a command line debugger with expressions, watchpoints and a function trace. Three observers
  (\<open>dependency_observer.cpp\<close>, \<open>cache_observer.cpp\<close>, \<open>perf_observer.cpp\<close>) watch the core's signals in a window
  between two marker instructions and write reports. The headers under \<open>src/sim/csrc/include\<close> hold an
  AXI4 slave with a memory and an address decoder over memory-mapped devices. Two test benches
  (\<open>src/tests/custom\<close>) and three harnesses (\<open>src/models\<close>, \<open>src/workloads/gol/scripts\<close>) are programs of their own.

  \<^bold>\<open>Conventions.\<close> Machine integers are words of their width (\<open>u8\<close> to \<open>u64\<close>), so that wrap-around is that of
  the code; memory arrays are functions or lists of bytes; C strings are \<open>string\<close>. Every operation takes
  and returns the state it touches as a record. What ends a C++ run abnormally is a value of the type
  \<open>fault\<close> (a failed assertion, an access outside an array, a null pointer, a division trap, a thrown
  exception), in the result type \<open>'a res\<close>. One read is left open instead: the expression evaluator follows the
  pointer before its array, and the byte found there is an argument that the theorems quantify over (\<open>below\<close>). A loop that need not end is \<open>partial_function (option)\<close>, where
  \<open>None\<close> is an endless loop (\<open>wp_search\<close>, the debugger's loops).

  \<^bold>\<open>Parameters.\<close> Code outside the repository is an argument of the definitions: the verilated modules
  (\<open>vtop\<close>, \<open>gol_dut\<close>, \<open>divider\<close>, \<open>intr_dut\<close>), the reference simulator, LLVM (\<open>llvm\<close>), the environment
  variables, the files and which of them can be opened, the lines read by the debugger and the time.
  A property assumes no more of them than its statement says.

  \<^bold>\<open>Theories and sources.\<close>

  \<^item> \<open>Prelude\<close>: words, faults, little-endian access (\<open>byte_simps\<close>) and \<open>memcpy\<close> (\<open>splice_simps\<close>). \<open>C_Lib\<close>: number
    parsing and printing, \<open>strtok\<close>, pieces of JSON.
  \<^item> \<open>Phys_Mem\<close>: the memory of \<open>init.cpp\<close>, the DPI port of \<open>sim_main.cpp\<close> and \<open>sys_timer.c\<close>. Reads return what was
    written; accesses that cross the end of the array leave it.
  \<^item> \<open>Watchpoint\<close>: \<open>watchpoint.cpp\<close> as a pool of nodes threaded into two lists. The locale \<open>watch_pool\<close> is the
    contract of a list of active watchpoints, the code's functions are its instance; the reachable
    pools (\<open>wp_reach\<close>) lose one node per deletion.
  \<^item> \<open>Cpu_Regs\<close>, \<open>Expr_Eval\<close>, \<open>Expr_Correct\<close>: register names, tokenizer and evaluator of \<open>expr.cpp\<close>, and its
    correctness against syntax trees with a printer. \<open>Regex_Rules\<close>: the rule table as regular expressions and
    \<open>init_regex\<close>; the tokenizer's matchers find the longest prefix in the language (\<open>in_lang\<close>) of each.
  \<^item> \<open>Macros\<close>: \<open>macro.h\<close>, \<open>config.h\<close> and the output macros of \<open>utils.h\<close>, over a model of the preprocessor (expansion,
    token pasting, splitting of arguments, with the errors of the preprocessor as \<open>None\<close>); which branch a selection
    macro takes.
  \<^item> \<open>Roi\<close>, \<open>Dep_Observer\<close>, \<open>Cache_Observer\<close>, \<open>Perf_Observer\<close>: the observers. The locale \<open>roi_observer\<close> is the
    measured window, with each of the three as an instance; the counters partition the cycles. A clock of
    their driver is one event, the count of the cycle and then its sample, as the notes on the cycle model under
    \<open>src/docs\<close> describe it. \<open>Json_Text\<close>: a reader of UTF-8 and JSON strings, and which names survive a report.
  \<^item> \<open>Sim_Core\<close>: \<open>sim_main.cpp\<close> and \<open>difftest.cpp\<close>; \<open>lockstep\<close> is the step relation of a run without a
    difference, \<open>clean_steps\<close> the part of the loop before one. \<open>Elf_Symbols\<close>: \<open>read_elf\<close> and \<open>ftrace\<close>. \<open>Sdb\<close>: \<open>sdb.cpp\<close>. \<open>Itrace\<close>: \<open>itrace\<close> and
    \<open>disasm.cc\<close>. \<open>Npc_Main\<close>: the command line and the log of \<open>init.cpp\<close>, \<open>init_sim\<close> and \<open>npc_main.cpp\<close>; the state in which a
    session starts, that every session returns, and what an exit status of 0 means.
  \<^item> \<open>Mmio\<close>: \<open>mmio_mem.hpp\<close>, \<open>uartlite.hpp\<close>, \<open>axi4_xbar.hpp\<close>; the locale \<open>mmio_device\<close> is what the decoder relies
    on, with the memory, the UART and their sum as instances. Registration refines a map of disjoint
    ranges.
  \<^item> \<open>Axi_Bus\<close>, \<open>Axi_Slave\<close>, \<open>Axi_Burst\<close>: \<open>axi4.hpp\<close>, \<open>axi4_slave.hpp\<close>, \<open>axi4_mem.hpp\<close>. The locale \<open>axi_target\<close> is
    what the slave relies on, with the memory and the decoder as instances; bursts transfer every
    byte on its lane and complete. \<open>Axi_Safe\<close>: an invariant of the slave's registers over all reachable states
    (\<open>axi_reach\<close>), with which every cycle stays inside its buffers. \<open>Axi_Complete\<close>: every read burst is completed or refused.
  \<^item> \<open>Divider_Tb\<close>, \<open>Intr_Tb\<close>: \<open>divider_drc1_tb.cpp\<close>, \<open>intr_directed_tb.cpp\<close>: the expected results are those of the
    instruction set, and a verdict of 0 is characterised exactly (\<open>serves\<close> for the divider).
  \<^item> \<open>Gol_Harness\<close>, \<open>Gol_Profile\<close>, \<open>Gol_Correct\<close>: \<open>gol_cache_profile_harness.cpp\<close>, \<open>gol_profile_harness.cpp\<close>,
    \<open>gol_profiling_verilator_harness.cpp\<close>. The locale \<open>clocked\<close> is a harness whose tick counts an edge; every
    run ends, and the counters agree with the dependency observer at every reachable state (\<open>lu_reach\<close>).
    \<open>Gol_Verdict\<close>: the cache harness simulates the timed one (\<open>bus_view\<close>), so that they judge a program alike; what
    an accepted run of the load-use harness says.

  This theory adds the property that spans the observers: in one environment they open and close the
  same window.

  \<^bold>\<open>Bounds and fuel.\<close> The simulation loop takes the number of steps that the code passes to \<open>cpu_exec\<close>. The
  loops of the harnesses run for at most \<open>kWatchdogCycles\<close> rounds, the bound the code tests itself: each
  round counts one edge, so the loop is left by its own condition (\<open>until_done_edges\<close>). The waiting loop of
  the divider test bench is bounded by the 70 clocks of the code and that of the interrupt test bench by
  its 512 cycles. The splitting of write strobes is a function with a termination proof.

  \<^bold>\<open>Not modelled.\<close> The register-transfer design and its scripts (another language); the macros that only rename a
  compiler feature or an I/O interface of another platform (\<open>likely\<close>, \<open>PG_ALIGN\<close>, \<open>MAP\<close>, \<open>io_read\<close>, \<open>io_write\<close>), and
  macros with parameters inside the branches of a selection; the waveform
  dump (\<open>CONFIG_WAVE\<close> is 0); the mutexes of the UART (an operation is one step, as it is under its locks); console
  output that only repeats a report. The instruction trace is a component beside the loop, since
  \<open>CONFIG_ITRACE\<close> is 0, and so is the text of the simulator's own log lines, of which the loop keeps the
  contents (\<open>log_entry\<close>).
\<close>

section \<open>One window for all observers\<close>

text \<open>An environment that asks all three observers for the window between two markers.\<close>

definition roi_environment :: "environ \<Rightarrow> u64 \<Rightarrow> u64 \<Rightarrow> bool" where
  "roi_environment env a z \<longleftrightarrow>
     env ''PERF_ROI_START_PC'' = Some (''0x'' @ hex_pad 16 (unat a)) \<and>
     env ''PERF_ROI_END_PC'' = Some (''0x'' @ hex_pad 16 (unat z)) \<and> a \<noteq> z \<and>
     (\<forall>v \<in> {''DEPENDENCY_PROFILE_OUT'', ''CACHE_PROFILE_OUT'', ''PERF_RAW_OUT''}.
        env v \<noteq> None \<and> env v \<noteq> Some [])"

lemma roi_environment_parse:
  assumes "roi_environment env a z"
  shows "dep_parse_u64_env env ''PERF_ROI_START_PC'' d = (True, a)"
    "dep_parse_u64_env env ''PERF_ROI_END_PC'' d = (True, z)"
    "cache_parse_u64_env env ''PERF_ROI_START_PC'' d = (True, a)"
    "cache_parse_u64_env env ''PERF_ROI_END_PC'' d = (True, z)"
    "perf_parse_u64_env env ''PERF_ROI_START_PC'' d = (True, a)"
    "perf_parse_u64_env env ''PERF_ROI_END_PC'' d = (True, z)"
proof -
  show *: "dep_parse_u64_env env ''PERF_ROI_START_PC'' d = (True, a)"
    "dep_parse_u64_env env ''PERF_ROI_END_PC'' d = (True, z)"
    using assms by (auto simp: roi_environment_def parse_hex_env)
  then show "cache_parse_u64_env env ''PERF_ROI_START_PC'' d = (True, a)"
    "cache_parse_u64_env env ''PERF_ROI_END_PC'' d = (True, z)"
    "perf_parse_u64_env env ''PERF_ROI_START_PC'' d = (True, a)"
    "perf_parse_u64_env env ''PERF_ROI_END_PC'' d = (True, z)"
    by (simp_all add: parse_agree(1) [symmetric] parse_agree(3))
qed

lemma dep_init_roi:
  fixes env s0
  assumes "roi_environment env a z"
  defines "s \<equiv> dependency_observer_init_from_env env s0"
  shows "dep_enabled s \<and> dep_roi_requested s \<and> dep_markers s = (a, z) \<and> dep_flags s = phase_flags Roi_before"
  using assms(1) roi_environment_parse [OF assms(1)]
  by (auto simp: s_def dependency_observer_init_from_env_def dependency_observer_init_def dep_reset_profile_def
      roi_environment_def dep_markers_def dep_flags_def phase_flags_def Let_def)

lemma cache_init_roi:
  fixes env s0 can_open
  assumes "roi_environment env a z"
  defines "s \<equiv> cache_observer_init env can_open s0"
  shows "cache_enabled s \<and> cache_roi_requested s \<and> cache_markers s = (a, z) \<and> cache_flags s = phase_flags Roi_before"
  using assms(1) roi_environment_parse [OF assms(1)]
  by (auto simp: s_def cache_observer_init_def roi_environment_def cache_markers_def cache_flags_def
      cache_enabled_def phase_flags_def Let_def)

lemma perf_init_roi:
  fixes env s0
  assumes "roi_environment env a z"
  defines "s \<equiv> perf_observer_init env s0"
  shows "perf_enabled s \<and> perf_roi_requested s \<and> perf_markers s = (a, z) \<and> perf_flags s = phase_flags Roi_before"
  using assms(1) roi_environment_parse [OF assms(1)]
  by (auto simp: s_def perf_observer_init_def perf_reset_counts_def roi_environment_def perf_markers_def
      perf_flags_def perf_enabled_def phase_flags_def Let_def)

text \<open>
  C11. The three observers measure the same window: initialised from one environment with two distinct
  markers, and shown the same sequence of retired instructions (interleaved with any cycles, samples
  and write-backs of their own), all three are before, inside or after the window together, namely
  inside from the first retirement of the start marker up to the next retirement of the end marker.
\<close>

theorem observers_agree_on_roi:
  assumes "roi_environment env a z"
    and "run_events dependency_observer_update_roi dep_own ds (dependency_observer_init_from_env env d0) = Inr d"
    and "run_events cache_observer_update_roi cache_own cs (cache_observer_init env can_open c0) = Inr c"
    and "run_events perf_observer_update_roi perf_own ps (perf_observer_init env p0) = Inr p"
    and "retires ds = rs" and "retires cs = rs" and "retires ps = rs"
  shows "dep_flags d = phase_flags (roi_track a z rs) \<and> cache_flags c = phase_flags (roi_track a z rs)
    \<and> perf_flags p = phase_flags (roi_track a z rs)"
  using depo.run_flags [OF assms(2), of Roi_before] dep_init_roi [OF assms(1)]
    cacheo.run_flags [OF assms(3), of Roi_before] cache_init_roi [OF assms(1)]
    perfo.run_flags [OF assms(4), of Roi_before] perf_init_roi [OF assms(1)]
  by (simp add: roi_track_def assms(5-7))

theorem observers_agree_on_roi_witness:
  "\<exists>env d c p.
     run_events dependency_observer_update_roi dep_own [Own D_cycle, Retire True 16, Own D_cycle]
       (dependency_observer_init_from_env env dep_state_init) = Inr d
     \<and> run_events cache_observer_update_roi cache_own [Retire True 16, Own (C_tick idle_sample)]
       (cache_observer_init env (\<lambda>_. True) cache_state_init) = Inr c
     \<and> run_events perf_observer_update_roi perf_own [Own (P_tick raw_idle), Retire True 16]
       (perf_observer_init env perf_state_init) = Inr p
     \<and> dep_roi_active d \<and> cache_roi_active c \<and> perf_roi_active p"
proof -
  let ?env = "[''PERF_ROI_START_PC'' \<mapsto> ''0x'' @ hex_pad 16 (unat (16 :: u64)),
     ''PERF_ROI_END_PC'' \<mapsto> ''0x'' @ hex_pad 16 (unat (32 :: u64)), ''DEPENDENCY_PROFILE_OUT'' \<mapsto> ''d'',
     ''CACHE_PROFILE_OUT'' \<mapsto> ''c'', ''PERF_RAW_OUT'' \<mapsto> ''p''] :: environ"
  have e: "roi_environment ?env 16 32" by (simp add: roi_environment_def)
  obtain d where d: "run_events dependency_observer_update_roi dep_own [Own D_cycle, Retire True 16, Own D_cycle]
      (dependency_observer_init_from_env ?env dep_state_init) = Inr d"
    using dep_run_inv [OF init_inv] by blast
  obtain c where c: "run_events cache_observer_update_roi cache_own [Retire True 16, Own (C_tick idle_sample)]
      (cache_observer_init ?env (\<lambda>_. True) cache_state_init) = Inr c" using cache_run_total by blast
  obtain p where p: "run_events perf_observer_update_roi perf_own [Own (P_tick raw_idle), Retire True 16]
      (perf_observer_init ?env perf_state_init) = Inr p" using perf_run_total by blast
  have "roi_track 16 32 [(True, 16)] = Roi_inside" by (simp add: roi_track_def)
  with observers_agree_on_roi [OF e d c p, of "[(True, 16)]"] have
    "dep_roi_active d \<and> cache_roi_active c \<and> perf_roi_active p"
    by (simp add: dep_flags_def cache_flags_def perf_flags_def phase_flags_def)
  with d c p show ?thesis by blast
qed

end
